(* ===== verification/Zeos_Prelude.thy ===== *)
theory Zeos_Prelude
  imports "HOL-Library.Word" "HOL-Library.Monad_Syntax" "HOL-Library.Multiset"
begin

unbundle bit_operations_syntax

text \<open>
  Shared material of the ZeOS development: the machine types of
  \<^verbatim>\<open>include/types.h\<close>, the C \<open>int\<close> arithmetic of the i386 target, the collections of
  rewrite rules the component theories fill, and generic facts on lists, options and
  function updates.

  Conventions of the whole development:
  \<^item> \<open>Byte\<close>, \<open>WORD\<close> and \<open>DWord\<close> are the unsigned 8, 16 and 32 bit types; arithmetic on
    them wraps;
  \<^item> a C \<open>int\<close> is an \<open>int\<close>; where the code increments or decrements it without a bound,
    \<open>c_int\<close> writes out the two's complement wrap-around;
  \<^item> a routine that may fail to return (a NULL dereference, which halts the kernel in the
    page-fault routine; an access through a pointer that is not of the type the code
    believes; a loop that never ends) has an \<open>option\<close> result, and \<open>None\<close> means that
    control does not come back.
\<close>

section \<open>Machine types\<close>

type_synonym Byte = "8 word"
type_synonym WORD = "16 word"
type_synonym DWord = "32 word"

definition c_int :: "int \<Rightarrow> int" where
  "c_int x = signed_take_bit 31 x"

text \<open>The bytes of a string literal, without the terminating zero.\<close>

definition str :: "string \<Rightarrow> Byte list" where
  "str cs = map of_char cs"

section \<open>Rule collections\<close>

named_theorems list_code "the bodies of the routines of list.c and the macros of list.h"
named_theorems pte_code "the bit-field accesses to page table entries"
named_theorems kernel_code "the bodies of kernel routines that later proofs unfold"

section \<open>C integers\<close>

lemma c_int_in_range [simp]:
  "- (2 ^ 31) \<le> x \<Longrightarrow> x < 2 ^ 31 \<Longrightarrow> c_int x = x"
  by (simp add: c_int_def signed_take_bit_int_eq_self)

lemma c_int_bounds: "- (2 ^ 31) \<le> c_int x" "c_int x < 2 ^ 31"
  unfolding c_int_def
  by (rule signed_take_bit_int_greater_eq_minus_exp, rule signed_take_bit_int_less_exp)

lemma c_int_overflow: "c_int (2 ^ 31) = - (2 ^ 31)"
  by (simp add: c_int_def)

section \<open>Options\<close>

lemma bind_Some_conv: "(m \<bind> f) = Some y \<longleftrightarrow> (\<exists>x. m = Some x \<and> f x = Some y)"
  by (cases m) auto

lemma bind_None_conv: "(m \<bind> f) = None \<longleftrightarrow> m = None \<or> (\<exists>x. m = Some x \<and> f x = None)"
  by (cases m) auto

section \<open>Lists\<close>

lemma distinct_middle:
  "distinct (xs @ x # ys) \<longleftrightarrow> distinct (xs @ ys) \<and> x \<notin> set xs \<and> x \<notin> set ys"
  by auto

lemma last_or_head:
  "xs = [] \<or> (\<exists>ys y. xs = ys @ [y])"
  by (cases xs rule: rev_cases) auto

lemma nth_update_other: "i \<noteq> j \<Longrightarrow> (xs[i := v]) ! j = xs ! j"
  by simp

end
