(* ===== verification/Zeos_Types.thy ===== *)
theory Zeos_Types
  imports Zeos_Prelude
begin

text \<open>
  The data layouts of \<^verbatim>\<open>include/types.h\<close> (segment descriptors, gates, the task state
  segment, descriptor-table registers, page table entries), the selectors of
  \<^verbatim>\<open>include/segment.h\<close> and the error numbers of \<^verbatim>\<open>include/errno.h\<close> the kernels return.
  A page table entry is the 32-bit word of the C union; its bit fields are read and
  written through \<open>bf_get\<close> and \<open>bf_set\<close>.
\<close>

section \<open>Address macros\<close>

definition highWord :: "DWord \<Rightarrow> WORD" where
  "highWord address = ucast (drop_bit 16 address AND 0xFFFF)"

definition lowWord :: "DWord \<Rightarrow> WORD" where
  "lowWord address = ucast (address AND 0xFFFF)"

definition midByte :: "DWord \<Rightarrow> Byte" where
  "midByte address = ucast (drop_bit 16 address AND 0xFF)"

definition highByte :: "DWord \<Rightarrow> Byte" where
  "highByte address = ucast (drop_bit (16 + 8) address AND 0xFF)"

definition high4Bits :: "DWord \<Rightarrow> Byte" where
  "high4Bits limit = ucast (drop_bit 16 limit AND 0x0F)"

section \<open>Structures\<close>

record Descriptor =
  d_limit :: WORD
  lowBase :: WORD
  midBase :: Byte
  flags1 :: Byte
  flags2 :: Byte
  highBase :: Byte

record Gate =
  lowOffset :: WORD
  segmentSelector :: WORD
  gflags :: WORD
  highOffset :: WORD

record TSS =
  t_PreviousTaskLink :: WORD
  t_esp0 :: DWord
  t_ss0 :: WORD
  t_esp1 :: DWord
  t_ss1 :: WORD
  t_esp2 :: DWord
  t_ss2 :: WORD
  t_cr3 :: DWord
  t_eip :: DWord
  t_eFlags :: DWord
  t_eax :: DWord
  t_ecx :: DWord
  t_edx :: DWord
  t_ebx :: DWord
  t_esp :: DWord
  t_ebp :: DWord
  t_esi :: DWord
  t_edi :: DWord
  t_es :: WORD
  t_cs :: WORD
  t_ss :: WORD
  t_ds :: WORD
  t_fs :: WORD
  t_gs :: WORD
  t_LDTSegmentSelector :: WORD
  t_debugTrap :: WORD
  t_IOMapBaseAddress :: WORD

record Register =
  r_limit :: WORD
  r_base :: DWord

definition INITIAL_EFLAGS :: DWord where
  "INITIAL_EFLAGS = 0x00000200"

section \<open>Segment selectors\<close>

definition KERNEL_CS :: WORD where "KERNEL_CS = 0x10"
definition KERNEL_DS :: WORD where "KERNEL_DS = 0x18"
definition USER_CS :: WORD where "USER_CS = 0x23"
definition USER_DS :: WORD where "USER_DS = 0x2B"
definition KERNEL_TSS :: WORD where "KERNEL_TSS = 0x30"
definition GDT_START :: DWord where "GDT_START = 0x901b3"

section \<open>Error numbers\<close>

definition ESRCH :: int where "ESRCH = 3"
definition EBADF :: int where "EBADF = 9"
definition ECHILD :: int where "ECHILD = 10"
definition EAGAIN :: int where "EAGAIN = 11"
definition ENOMEM :: int where "ENOMEM = 12"
definition EACCES :: int where "EACCES = 13"
definition EFAULT :: int where "EFAULT = 14"
definition EINVAL :: int where "EINVAL = 22"
definition ENOSYS :: int where "ENOSYS = 38"

section \<open>Page table entries\<close>

type_synonym page_table_entry = DWord

definition bf_get :: "nat \<Rightarrow> nat \<Rightarrow> DWord \<Rightarrow> DWord" where
  "bf_get lo n w = take_bit n (drop_bit lo w)"

definition bf_set :: "nat \<Rightarrow> nat \<Rightarrow> DWord \<Rightarrow> DWord \<Rightarrow> DWord" where
  "bf_set lo n v w = (w AND NOT (push_bit lo (mask n))) OR push_bit lo (take_bit n v)"

text \<open>The bit fields of \<open>page_table_entry.bits\<close> that the kernels use.\<close>

definition pte_present :: "page_table_entry \<Rightarrow> DWord" where "pte_present = bf_get 0 1"
definition pte_rw :: "page_table_entry \<Rightarrow> DWord" where "pte_rw = bf_get 1 1"
definition pte_user :: "page_table_entry \<Rightarrow> DWord" where "pte_user = bf_get 2 1"
definition pte_pbase_addr :: "page_table_entry \<Rightarrow> DWord" where "pte_pbase_addr = bf_get 12 20"

definition set_present :: "DWord \<Rightarrow> page_table_entry \<Rightarrow> page_table_entry" where
  "set_present = bf_set 0 1"
definition set_rw :: "DWord \<Rightarrow> page_table_entry \<Rightarrow> page_table_entry" where
  "set_rw = bf_set 1 1"
definition set_user :: "DWord \<Rightarrow> page_table_entry \<Rightarrow> page_table_entry" where
  "set_user = bf_set 2 1"
definition set_pbase_addr :: "DWord \<Rightarrow> page_table_entry \<Rightarrow> page_table_entry" where
  "set_pbase_addr = bf_set 12 20"

section \<open>Facts\<close>

lemma bit_bf_get:
  "bit (bf_get lo n w) k \<longleftrightarrow> k < n \<and> bit w (lo + k)"
  by (auto simp: bf_get_def bit_take_bit_iff bit_drop_bit_eq ac_simps)

lemma bit_bf_set:
  "bit (bf_set lo n v w) k \<longleftrightarrow>
     k < 32 \<and> (if lo \<le> k \<and> k < lo + n then bit v (k - lo) else bit w k)"
  by (auto simp: bf_set_def bit_or_iff bit_and_iff bit_not_iff bit_push_bit_iff bit_mask_iff
      bit_take_bit_iff dest: bit_imp_le_length)

lemma bf_get_set_same:
  "lo + n \<le> 32 \<Longrightarrow> bf_get lo n (bf_set lo n v w) = take_bit n v"
  by (rule bit_word_eqI) (auto simp: bit_bf_get bit_bf_set bit_take_bit_iff)

lemma bf_get_set_other:
  "lo' + n' \<le> lo \<or> lo + n \<le> lo' \<Longrightarrow> bf_get lo' n' (bf_set lo n v w) = bf_get lo' n' w"
  by (rule bit_word_eqI) (auto simp: bit_bf_get bit_bf_set dest: bit_imp_le_length)

lemma bf_get_zero [simp]: "bf_get lo n 0 = 0"
  by (rule bit_word_eqI) (simp add: bit_bf_get)

lemmas pte_fields =
  pte_present_def pte_rw_def pte_user_def pte_pbase_addr_def
  set_present_def set_rw_def set_user_def set_pbase_addr_def

lemma pte_get_set [simp]:
  "pte_present (set_present v e) = take_bit 1 v"
  "pte_present (set_rw v e) = pte_present e"
  "pte_present (set_user v e) = pte_present e"
  "pte_present (set_pbase_addr v e) = pte_present e"
  "pte_rw (set_present v e) = pte_rw e"
  "pte_rw (set_rw v e) = take_bit 1 v"
  "pte_rw (set_user v e) = pte_rw e"
  "pte_rw (set_pbase_addr v e) = pte_rw e"
  "pte_user (set_present v e) = pte_user e"
  "pte_user (set_rw v e) = pte_user e"
  "pte_user (set_user v e) = take_bit 1 v"
  "pte_user (set_pbase_addr v e) = pte_user e"
  "pte_pbase_addr (set_present v e) = pte_pbase_addr e"
  "pte_pbase_addr (set_rw v e) = pte_pbase_addr e"
  "pte_pbase_addr (set_user v e) = pte_pbase_addr e"
  "pte_pbase_addr (set_pbase_addr v e) = take_bit 20 v"
  by (simp_all add: pte_fields bf_get_set_same bf_get_set_other)

lemma pte_zero [simp]:
  "pte_present 0 = 0" "pte_rw 0 = 0" "pte_user 0 = 0" "pte_pbase_addr 0 = 0"
  by (simp_all add: pte_fields)

lemma take_bit_1_one [simp]: "take_bit (Suc 0) (1 :: DWord) = 1"
  by simp

lemma take_bit_20_small:
  "n < 2 ^ 20 \<Longrightarrow> take_bit 20 (of_nat n :: DWord) = of_nat n"
  by (simp add: take_bit_of_nat take_bit_nat_eq_self)

lemma unat_of_nat_frame:
  "n < 2 ^ 20 \<Longrightarrow> unat (of_nat n :: DWord) = n"
  by (simp add: unsigned_of_nat take_bit_nat_eq_self)

text \<open>The two halves of a handler address, and the three parts of a segment base.\<close>

lemma masks:
  "(0xFFFF :: DWord) = mask 16" "(0xFF :: DWord) = mask 8"
  by (simp_all add: mask_eq_exp_minus_1)

lemma bit_address_parts:
  "bit (lowWord a) k \<longleftrightarrow> k < 16 \<and> bit a k"
  "bit (highWord a) k \<longleftrightarrow> k < 16 \<and> bit a (16 + k)"
  "bit (midByte a) k \<longleftrightarrow> k < 8 \<and> bit a (16 + k)"
  "bit (highByte a) k \<longleftrightarrow> k < 8 \<and> bit a (24 + k)"
  by (auto simp: lowWord_def highWord_def midByte_def highByte_def masks bit_ucast_iff
      bit_and_iff bit_mask_iff bit_drop_bit_eq ac_simps dest: bit_imp_le_length)

lemma address_from_words:
  "push_bit 16 (ucast (highWord a) :: DWord) OR ucast (lowWord a) = a"
  by (rule bit_word_eqI)
     (auto simp: bit_or_iff bit_push_bit_iff bit_ucast_iff bit_address_parts
       dest: bit_imp_le_length)

lemma address_from_base_parts:
  "push_bit 24 (ucast (highByte a) :: DWord) OR push_bit 16 (ucast (midByte a)) OR
   ucast (lowWord a) = a"
proof (rule bit_word_eqI)
  fix n :: nat
  assume "n < LENGTH(32)"
  then show "bit (push_bit 24 (ucast (highByte a) :: DWord) OR
      push_bit 16 (ucast (midByte a)) OR ucast (lowWord a)) n = bit a n"
    by (cases "24 \<le> n")
       (auto simp: bit_or_iff bit_push_bit_iff bit_ucast_iff bit_address_parts)
qed

end
