(* ===== verification/Zeos_Mm.thy ===== *)
theory Zeos_Mm
  imports Zeos_Types
begin

text \<open>
  Paging and frame management of \<^verbatim>\<open>mm.c\<close> in the multiprocess kernels
  \<^verbatim>\<open>so2_old/E1_E2\<close> and \<^verbatim>\<open>so2_old/GAME\<close>. The two files are the same text over two
  \<^verbatim>\<open>mm_address.h\<close> headers that place the user code and data pages differently; what the
  header and the linker fix is the record \<open>mm_cfg\<close>, an argument of the routines.

  A pointer to a page table or page directory is the number of the physical page that
  holds it, and \<open>pt\<close> maps such a page and an index to the entry, so the tables of all the
  tasks, the directories and the frames handed out by the allocator live in one memory.
  The theory ends with the contract of the frame allocator, the locale \<open>frame_allocator\<close>.
\<close>

section \<open>Constants of \<^verbatim>\<open>mm_address.h\<close>\<close>

definition TOTAL_PAGES :: nat where "TOTAL_PAGES = 1024"
definition NUM_PAG_KERNEL :: nat where "NUM_PAG_KERNEL = 256"
definition NUM_PAG_CODE :: nat where "NUM_PAG_CODE = 8"
definition NUM_PAG_DATA :: nat where "NUM_PAG_DATA = 20"
definition PAGE_SIZE :: nat where "PAGE_SIZE = 0x1000"
definition NR_TASKS :: nat where "NR_TASKS = 10"
definition ENTRY_DIR_PAGES :: nat where "ENTRY_DIR_PAGES = 0"
definition FREE_FRAME :: Byte where "FREE_FRAME = 0"
definition USED_FRAME :: Byte where "USED_FRAME = 1"
definition KERNEL_START :: DWord where "KERNEL_START = 0x10000"
definition L_USER_START :: DWord where "L_USER_START = 0x100000"
definition USER_FIRST_PAGE :: nat where "USER_FIRST_PAGE = unat (drop_bit 12 L_USER_START)"

lemmas mm_consts =
  TOTAL_PAGES_def NUM_PAG_KERNEL_def NUM_PAG_CODE_def NUM_PAG_DATA_def PAGE_SIZE_def
  NR_TASKS_def ENTRY_DIR_PAGES_def FREE_FRAME_def USED_FRAME_def

record mm_cfg =
  PAG_LOG_INIT_CODE :: nat
  PAG_LOG_INIT_DATA :: nat
  dir_pages_at :: DWord        \<comment> \<open>page number of \<open>dir_pages[0]\<close>\<close>
  pagusr_table_at :: DWord     \<comment> \<open>page number of \<open>pagusr_table[0]\<close>\<close>

definition dir_page :: "'c mm_cfg_scheme \<Rightarrow> nat \<Rightarrow> DWord" where
  "dir_page C i = dir_pages_at C + of_nat i"

definition pagusr_page :: "'c mm_cfg_scheme \<Rightarrow> nat \<Rightarrow> DWord" where
  "pagusr_page C i = pagusr_table_at C + of_nat i"

section \<open>State\<close>

record mm_state =
  phys_mem :: "Byte list"
  pt :: "DWord \<Rightarrow> nat \<Rightarrow> page_table_entry"
  cr3 :: DWord
  cr0 :: DWord

definition set_pte :: "DWord \<Rightarrow> nat \<Rightarrow> page_table_entry \<Rightarrow> 'a mm_state_scheme \<Rightarrow> 'a mm_state_scheme" where
  "set_pte PT page e m = m\<lparr>pt := (pt m)(PT := (pt m PT)(page := e))\<rparr>"

section \<open>Frames\<close>

definition init_frames :: "'a mm_state_scheme \<Rightarrow> int \<times> 'a mm_state_scheme" where
  "init_frames m =
     (let pm = fold (\<lambda>i pm. pm[i := FREE_FRAME]) [0..<TOTAL_PAGES] (phys_mem m);
          pm = fold (\<lambda>i pm. pm[i := USED_FRAME]) [0..<NUM_PAG_KERNEL] pm
      in (0, m\<lparr>phys_mem := pm\<rparr>))"

function alloc_frame_from :: "nat \<Rightarrow> 'a mm_state_scheme \<Rightarrow> int \<times> 'a mm_state_scheme" where
  "alloc_frame_from i m =
     (if i < TOTAL_PAGES then
        (if phys_mem m ! i = FREE_FRAME
         then (int i, m\<lparr>phys_mem := (phys_mem m)[i := USED_FRAME]\<rparr>)
         else alloc_frame_from (i + 2) m)
      else (-1, m))"
  by pat_completeness auto
termination
  by (relation "measure (\<lambda>(i, m). TOTAL_PAGES - i)") auto

declare alloc_frame_from.simps [simp del]

definition alloc_frame :: "'a mm_state_scheme \<Rightarrow> int \<times> 'a mm_state_scheme" where
  "alloc_frame m = alloc_frame_from NUM_PAG_KERNEL m"

definition free_frame :: "DWord \<Rightarrow> 'a mm_state_scheme \<Rightarrow> 'a mm_state_scheme" where
  "free_frame frame m =
     (if unat frame > NUM_PAG_KERNEL \<and> unat frame < TOTAL_PAGES
      then m\<lparr>phys_mem := (phys_mem m)[unat frame := FREE_FRAME]\<rparr> else m)"

section \<open>Page tables\<close>

definition set_ss_pag :: "DWord \<Rightarrow> nat \<Rightarrow> DWord \<Rightarrow> 'a mm_state_scheme \<Rightarrow> 'a mm_state_scheme" where
  "set_ss_pag PT page frame m =
     set_pte PT page (set_present 1 (set_rw 1 (set_user 1 (set_pbase_addr frame 0)))) m"

definition del_ss_pag :: "DWord \<Rightarrow> nat \<Rightarrow> 'a mm_state_scheme \<Rightarrow> 'a mm_state_scheme" where
  "del_ss_pag PT logical_page m = set_pte PT logical_page 0 m"

definition get_frame :: "DWord \<Rightarrow> nat \<Rightarrow> 'a mm_state_scheme \<Rightarrow> DWord" where
  "get_frame PT logical_page m = pte_pbase_addr (pt m PT logical_page)"

definition init_dir_pages :: "'c mm_cfg_scheme \<Rightarrow> 'a mm_state_scheme \<Rightarrow> 'a mm_state_scheme" where
  "init_dir_pages C m =
     fold (\<lambda>i. set_pte (dir_page C i) ENTRY_DIR_PAGES
             (set_present 1 (set_rw 1 (set_user 1 (set_pbase_addr (pagusr_page C i) 0)))))
       [0..<NR_TASKS] m"

definition init_kernel_page :: "DWord \<Rightarrow> nat \<Rightarrow> 'a mm_state_scheme \<Rightarrow> 'a mm_state_scheme" where
  "init_kernel_page PT i m =
     set_pte PT i (set_present 1 (set_rw 1 (set_pbase_addr (of_nat i) (pt m PT i)))) m"

definition init_table_pages :: "'c mm_cfg_scheme \<Rightarrow> 'a mm_state_scheme \<Rightarrow> 'a mm_state_scheme" where
  "init_table_pages C m =
     fold (\<lambda>j m.
       let m = fold (\<lambda>i. set_pte (pagusr_page C j) i 0) [0..<TOTAL_PAGES] m
       in fold (init_kernel_page (pagusr_page C j)) [1..<NUM_PAG_KERNEL] m)
       [0..<NR_TASKS] m"

text \<open>
  The result of \<open>alloc_frame\<close> is not tested in \<open>set_user_pages\<close>: a failed allocation
  stores the low 20 bits of \<open>-1\<close> in the entry.
\<close>

definition set_user_page :: "DWord \<Rightarrow> DWord \<Rightarrow> nat \<Rightarrow> 'a mm_state_scheme \<Rightarrow> 'a mm_state_scheme" where
  "set_user_page rw PT page m =
     (let (new_ph_pag, m) = alloc_frame m;
          e = set_user 1 (set_pbase_addr (word_of_int new_ph_pag) 0);
          e = (if rw = 1 then set_rw 1 e else e)
      in set_pte PT page (set_present 1 e) m)"

definition set_user_pages :: "'c mm_cfg_scheme \<Rightarrow> DWord \<Rightarrow> 'a mm_state_scheme \<Rightarrow> 'a mm_state_scheme" where
  "set_user_pages C process_PT m =
     (let m = fold (\<lambda>pag. set_user_page 0 process_PT (PAG_LOG_INIT_CODE C + pag))
                [0..<NUM_PAG_CODE] m
      in fold (\<lambda>pag. set_user_page 1 process_PT (PAG_LOG_INIT_DATA C + pag))
           [0..<NUM_PAG_DATA] m)"

definition free_user_pages :: "'c mm_cfg_scheme \<Rightarrow> DWord \<Rightarrow> 'a mm_state_scheme \<Rightarrow> 'a mm_state_scheme" where
  "free_user_pages C process_PT m =
     fold (\<lambda>pag m.
       let m = free_frame (pte_pbase_addr (pt m process_PT (PAG_LOG_INIT_DATA C + pag))) m
       in set_pte process_PT (PAG_LOG_INIT_DATA C + pag) 0 m)
       [0..<NUM_PAG_DATA] m"

section \<open>Control registers\<close>

definition set_cr3 :: "DWord \<Rightarrow> 'a mm_state_scheme \<Rightarrow> 'a mm_state_scheme" where
  "set_cr3 dir m = m\<lparr>cr3 := dir\<rparr>"

definition set_pe_flag :: "'a mm_state_scheme \<Rightarrow> 'a mm_state_scheme" where
  "set_pe_flag m = m\<lparr>cr0 := cr0 m OR 0x80000000\<rparr>"

section \<open>The frame allocator\<close>

lemma nth_list_update':
  "i < length xs \<Longrightarrow> xs[j := v] ! i = (if i = j then v else xs ! i)"
  by (simp add: nth_list_update)

text \<open>
  Only every second frame is ever handed out (the comment in \<open>alloc_frame\<close> says the holes
  are intended); \<open>avail\<close> is the set of the frames the next calls can return.
\<close>

definition frames_ok :: "'a mm_state_scheme \<Rightarrow> bool" where
  "frames_ok m \<longleftrightarrow> length (phys_mem m) = TOTAL_PAGES"

definition avail :: "'a mm_state_scheme \<Rightarrow> nat set" where
  "avail m = {i. NUM_PAG_KERNEL \<le> i \<and> i < TOTAL_PAGES \<and> even i \<and> phys_mem m ! i = FREE_FRAME}"

definition freeable :: "nat set" where
  "freeable = {i. NUM_PAG_KERNEL < i \<and> i < TOTAL_PAGES \<and> even i}"

lemma finite_avail [simp]: "finite (avail m)"
  by (rule finite_subset [of _ "{..<TOTAL_PAGES}"]) (auto simp: avail_def)

lemma alloc_frame_from_result:
  assumes "alloc_frame_from i m = (r, m')" and "even i"
  shows "(r = -1 \<and> m' = m \<and> (\<forall>j. i \<le> j \<and> j < TOTAL_PAGES \<and> even j \<longrightarrow> phys_mem m ! j \<noteq> FREE_FRAME)) \<or>
    (\<exists>f. r = int f \<and> i \<le> f \<and> f < TOTAL_PAGES \<and> even f \<and> phys_mem m ! f = FREE_FRAME \<and>
       (\<forall>j. i \<le> j \<and> j < f \<and> even j \<longrightarrow> phys_mem m ! j \<noteq> FREE_FRAME) \<and>
       m' = m\<lparr>phys_mem := (phys_mem m)[f := USED_FRAME]\<rparr>)"
  using assms
proof (induction i m rule: alloc_frame_from.induct)
  case (1 i m)
  have split: "j = i \<or> i + 2 \<le> j" if "i \<le> j" "even j" for j
    using that \<open>even i\<close> by presburger
  consider "\<not> i < TOTAL_PAGES" | "i < TOTAL_PAGES" "phys_mem m ! i = FREE_FRAME"
    | "i < TOTAL_PAGES" "phys_mem m ! i \<noteq> FREE_FRAME" by blast
  then show ?case
  proof cases
    case 3
    with "1.prems" have "alloc_frame_from (i + 2) m = (r, m')"
      by (simp add: alloc_frame_from.simps [of i])
    note IH = "1.IH" [OF 3 this]
    have below: "\<forall>j. i \<le> j \<and> j < N \<and> even j \<longrightarrow> phys_mem m ! j \<noteq> FREE_FRAME"
      if "\<forall>j. i + 2 \<le> j \<and> j < N \<and> even j \<longrightarrow> phys_mem m ! j \<noteq> FREE_FRAME" for N
      using split 3(2) that by blast
    from IH \<open>even i\<close> show ?thesis
      using below by fastforce
  qed (use "1.prems" in \<open>auto simp: alloc_frame_from.simps [of i]\<close>)
qed

lemma alloc_frame_cases:
  assumes "alloc_frame m = (r, m')"
  obtains (none) "r = -1" "m' = m" "avail m = {}"
  | (frame) f where "r = int f" "f \<in> avail m" "\<forall>j\<in>avail m. f \<le> j"
      "m' = m\<lparr>phys_mem := (phys_mem m)[f := USED_FRAME]\<rparr>"
proof -
  have "even NUM_PAG_KERNEL" by (simp add: NUM_PAG_KERNEL_def)
  note res = alloc_frame_from_result [OF assms [unfolded alloc_frame_def] this]
  from res show thesis
  proof
    assume "r = -1 \<and> m' = m \<and> (\<forall>j. NUM_PAG_KERNEL \<le> j \<and> j < TOTAL_PAGES \<and> even j \<longrightarrow>
      phys_mem m ! j \<noteq> FREE_FRAME)"
    then show thesis by (intro none) (auto simp: avail_def)
  next
    assume "\<exists>f. r = int f \<and> NUM_PAG_KERNEL \<le> f \<and> f < TOTAL_PAGES \<and> even f \<and>
       phys_mem m ! f = FREE_FRAME \<and>
       (\<forall>j. NUM_PAG_KERNEL \<le> j \<and> j < f \<and> even j \<longrightarrow> phys_mem m ! j \<noteq> FREE_FRAME) \<and>
       m' = m\<lparr>phys_mem := (phys_mem m)[f := USED_FRAME]\<rparr>"
    then show thesis by (elim exE conjE, intro frame) (auto simp: avail_def not_less [symmetric])
  qed
qed

lemma avail_used:
  "frames_ok m \<Longrightarrow> avail (m\<lparr>phys_mem := (phys_mem m)[f := USED_FRAME]\<rparr>) = avail m - {f}"
  by (auto simp: avail_def frames_ok_def FREE_FRAME_def USED_FRAME_def nth_list_update'
      split: if_splits)

lemma avail_free_frame:
  "frames_ok m \<Longrightarrow> f \<in> freeable \<Longrightarrow> avail (free_frame (of_nat f) m) = insert f (avail m)"
  by (auto simp: avail_def frames_ok_def freeable_def free_frame_def nth_list_update mm_consts
      unsigned_of_nat take_bit_nat_eq_self)

lemma frames_ok_alloc:
  "alloc_frame m = (r, m') \<Longrightarrow> frames_ok m \<Longrightarrow> frames_ok m'"
  by (erule alloc_frame_cases) (auto simp: frames_ok_def)

lemma frames_ok_free [simp]: "frames_ok (free_frame f m) = frames_ok m"
  by (simp add: frames_ok_def free_frame_def)

text \<open>
  What the process code relies on: an allocation returns a frame that was available and is
  so no more, or \<open>-1\<close> when there is none; a release makes a frame available again.
\<close>

fun alloc_seq :: "('m \<Rightarrow> int \<times> 'm) \<Rightarrow> nat \<Rightarrow> 'm \<Rightarrow> int list \<times> 'm" where
  "alloc_seq alloc 0 m = ([], m)"
| "alloc_seq alloc (Suc n) m =
     (let (r, m) = alloc m; (rs, m) = alloc_seq alloc n m in (r # rs, m))"

locale frame_allocator =
  fixes ok :: "'m \<Rightarrow> bool"
    and av :: "'m \<Rightarrow> nat set"
    and alloc :: "'m \<Rightarrow> int \<times> 'm"
    and release :: "DWord \<Rightarrow> 'm \<Rightarrow> 'm"
    and rel_ok :: "nat set"
  assumes finite_av: "finite (av m)"
    and alloc_ok: "ok m \<Longrightarrow> ok (snd (alloc m))"
    and release_ok: "ok m \<Longrightarrow> ok (release w m)"
    and alloc_fails: "ok m \<Longrightarrow> av m = {} \<Longrightarrow> alloc m = (-1, m)"
    and alloc_takes: "ok m \<Longrightarrow> av m \<noteq> {} \<Longrightarrow>
      \<exists>f\<in>av m. fst (alloc m) = int f \<and> av (snd (alloc m)) = av m - {f}"
    and release_gives: "ok m \<Longrightarrow> f \<in> rel_ok \<Longrightarrow> av (release (of_nat f) m) = insert f (av m)"
begin

lemma alloc_seq_enough:
  assumes "ok m" and "n \<le> card (av m)"
  shows "\<exists>fs m'. alloc_seq alloc n m = (map int fs, m') \<and> length fs = n \<and> distinct fs \<and>
    set fs \<subseteq> av m \<and> av m' = av m - set fs \<and> ok m'"
  using assms
proof (induction n arbitrary: m)
  case 0
  then show ?case by (intro exI [of _ "[]"] exI [of _ m]) simp
next
  case (Suc n)
  then have "av m \<noteq> {}" by auto
  with Suc.prems(1) obtain f where f: "f \<in> av m" "fst (alloc m) = int f"
      "av (snd (alloc m)) = av m - {f}"
    using alloc_takes by blast
  have "n \<le> card (av (snd (alloc m)))"
    using Suc.prems(2) f finite_av [of m] by simp
  from Suc.IH [OF alloc_ok [OF Suc.prems(1)] this] obtain fs m' where
    fs: "alloc_seq alloc n (snd (alloc m)) = (map int fs, m')" "length fs = n" "distinct fs"
      "set fs \<subseteq> av m - {f}" "av m' = av m - {f} - set fs" "ok m'"
    by (auto simp: f)
  show ?case
    using f fs by (intro exI [of _ "f # fs"] exI [of _ m']) (auto simp: case_prod_beta)
qed

lemma alloc_seq_exhausted:
  "ok m \<Longrightarrow> av m = {} \<Longrightarrow> alloc_seq alloc n m = (replicate n (-1), m)"
  by (induction n) (simp_all add: alloc_fails)

lemma release_all_gives:
  "ok m \<Longrightarrow> set fs \<subseteq> rel_ok \<Longrightarrow>
   av (fold (\<lambda>f. release (of_nat f)) fs m) = av m \<union> set fs \<and>
   ok (fold (\<lambda>f. release (of_nat f)) fs m)"
  by (induction fs arbitrary: m) (auto simp: release_gives release_ok)

lemma alloc_release_restores:
  assumes "ok m" and "n \<le> card (av m)" and "av m \<subseteq> rel_ok"
    and "alloc_seq alloc n m = (map int fs, m')"
  shows "av (fold (\<lambda>f. release (of_nat f)) fs m') = av m"
proof -
  obtain gs where "map int fs = map int gs" and gs: "set gs \<subseteq> av m" "av m' = av m - set gs" "ok m'"
    using alloc_seq_enough [OF assms(1,2)] assms(4) by auto
  then have "fs = gs" by (simp add: inj_map_eq_map inj_def)
  with gs assms(3) release_all_gives [of m' fs] show ?thesis by blast
qed

end

interpretation fa: frame_allocator frames_ok avail alloc_frame free_frame freeable
proof unfold_locales
  fix m :: "'a mm_state_scheme"
  assume m: "frames_ok m"
  obtain r m' where a: "alloc_frame m = (r, m')" by (cases "alloc_frame m")
  show "frames_ok (snd (alloc_frame m))"
    using frames_ok_alloc [OF a m] a by simp
  show "alloc_frame m = (-1, m)" if "avail m = {}"
    using a that by (cases rule: alloc_frame_cases) (auto simp: a)
  show "\<exists>f\<in>avail m. fst (alloc_frame m) = int f \<and> avail (snd (alloc_frame m)) = avail m - {f}"
    if "avail m \<noteq> {}"
    using a
  proof (cases rule: alloc_frame_cases)
    case none
    with that show ?thesis by simp
  next
    case (frame f)
    then show ?thesis using a avail_used [OF m] by auto
  qed
qed (auto simp: avail_free_frame)

section \<open>Boot state of the frame table\<close>

lemma fold_list_update:
  "length xs = n \<Longrightarrow> j < n \<Longrightarrow>
   fold (\<lambda>i xs. xs[i := v]) is xs ! j = (if j \<in> set is then v else xs ! j)"
  by (induction "is" arbitrary: xs) (auto simp: nth_list_update')

lemma length_fold_list_update [simp]:
  "length (fold (\<lambda>i xs. xs[i := v]) is xs) = length xs"
  by (induction "is" arbitrary: xs) auto

lemma init_frames_nth:
  assumes "frames_ok m" and "j < TOTAL_PAGES"
  shows "phys_mem (snd (init_frames m)) ! j = (if j < NUM_PAG_KERNEL then USED_FRAME else FREE_FRAME)"
  using assms
  by (simp add: init_frames_def frames_ok_def Let_def fold_list_update [where n = TOTAL_PAGES])

lemma frames_ok_init [simp]: "frames_ok (snd (init_frames m)) = frames_ok m"
  by (simp add: init_frames_def frames_ok_def Let_def)

lemma avail_init:
  "frames_ok m \<Longrightarrow>
   avail (snd (init_frames m)) = {i. NUM_PAG_KERNEL \<le> i \<and> i < TOTAL_PAGES \<and> even i}"
  by (auto simp: avail_def init_frames_nth)

lemma card_even_frames: "card {i. NUM_PAG_KERNEL \<le> i \<and> i < TOTAL_PAGES \<and> even i} = 384"
proof -
  have "{i. NUM_PAG_KERNEL \<le> i \<and> i < TOTAL_PAGES \<and> even i} = (*) 2 ` {128..<512}"
    by (auto simp: mm_consts elim!: evenE)
  then show ?thesis by (simp add: card_image inj_on_def)
qed

section \<open>Reading back page table entries\<close>

lemma pt_set_pte:
  "pt (set_pte PT p e m) PT' p' = (if PT' = PT \<and> p' = p then e else pt m PT' p')"
  by (simp add: set_pte_def)

lemma set_pte_frame [simp]:
  "phys_mem (set_pte PT p e m) = phys_mem m" "cr3 (set_pte PT p e m) = cr3 m"
  "cr0 (set_pte PT p e m) = cr0 m" "mm_state.more (set_pte PT p e m) = mm_state.more m"
  by (simp_all add: set_pte_def)

lemma avail_set_pte [simp]: "avail (set_pte PT p e m) = avail m"
  by (simp add: avail_def)

lemma frames_ok_set_pte [simp]: "frames_ok (set_pte PT p e m) = frames_ok m"
  by (simp add: frames_ok_def)

definition user_entry :: "DWord \<Rightarrow> page_table_entry" where
  "user_entry frame = set_present 1 (set_rw 1 (set_user 1 (set_pbase_addr frame 0)))"

lemma user_entry_fields [simp]:
  "pte_present (user_entry f) = 1" "pte_rw (user_entry f) = 1" "pte_user (user_entry f) = 1"
  "pte_pbase_addr (user_entry f) = take_bit 20 f"
  by (simp_all add: user_entry_def)

lemma pt_set_ss_pag:
  "pt (set_ss_pag PT p f m) PT' p' = (if PT' = PT \<and> p' = p then user_entry f else pt m PT' p')"
  by (simp add: set_ss_pag_def user_entry_def pt_set_pte)

lemma pt_del_ss_pag:
  "pt (del_ss_pag PT p m) PT' p' = (if PT' = PT \<and> p' = p then 0 else pt m PT' p')"
  by (simp add: del_ss_pag_def pt_set_pte)

lemma ss_pag_frame [simp]:
  "phys_mem (set_ss_pag PT p f m) = phys_mem m" "phys_mem (del_ss_pag PT p m) = phys_mem m"
  "cr3 (set_ss_pag PT p f m) = cr3 m" "cr3 (del_ss_pag PT p m) = cr3 m"
  "mm_state.more (set_ss_pag PT p f m) = mm_state.more m"
  "mm_state.more (del_ss_pag PT p m) = mm_state.more m"
  "avail (set_ss_pag PT p f m) = avail m" "avail (del_ss_pag PT p m) = avail m"
  "frames_ok (set_ss_pag PT p f m) = frames_ok m" "frames_ok (del_ss_pag PT p m) = frames_ok m"
  by (simp_all add: set_ss_pag_def del_ss_pag_def)

lemma get_frame_set_ss_pag:
  "get_frame PT' p' (set_ss_pag PT p f m) =
     (if PT' = PT \<and> p' = p then take_bit 20 f else get_frame PT' p' m)"
  by (simp add: get_frame_def pt_set_ss_pag)

lemma get_frame_del_ss_pag:
  "get_frame PT' p' (del_ss_pag PT p m) = (if PT' = PT \<and> p' = p then 0 else get_frame PT' p' m)"
  by (simp add: get_frame_def pt_del_ss_pag)

section \<open>Boot state of the page tables\<close>

lemma pagusr_page_inj: "i < NR_TASKS \<Longrightarrow> j < NR_TASKS \<Longrightarrow> pagusr_page C i = pagusr_page C j \<Longrightarrow> i = j"
  by (simp add: pagusr_page_def NR_TASKS_def word_of_nat_eq_iff take_bit_nat_eq_self)

lemma dir_page_inj: "i < NR_TASKS \<Longrightarrow> j < NR_TASKS \<Longrightarrow> dir_page C i = dir_page C j \<Longrightarrow> i = j"
  by (simp add: dir_page_def NR_TASKS_def word_of_nat_eq_iff take_bit_nat_eq_self)

definition kernel_entry :: "nat \<Rightarrow> page_table_entry \<Rightarrow> page_table_entry" where
  "kernel_entry i e = set_present 1 (set_rw 1 (set_pbase_addr (of_nat i) e))"

lemma pt_fold_set_pte:
  "pt (fold (\<lambda>i. set_pte PT i e) is m) PT' p = (if PT' = PT \<and> p \<in> set is then e else pt m PT' p)"
  by (induction "is" arbitrary: m) (auto simp: pt_set_pte)

lemma pt_fold_init_kernel_page:
  "distinct is \<Longrightarrow>
   pt (fold (init_kernel_page PT) is m) PT' p =
     (if PT' = PT \<and> p \<in> set is then kernel_entry p (pt m PT p) else pt m PT' p)"
  by (induction "is" arbitrary: m) (auto simp: init_kernel_page_def kernel_entry_def pt_set_pte)

definition boot_entry :: "nat \<Rightarrow> page_table_entry" where
  "boot_entry i = (if 0 < i \<and> i < NUM_PAG_KERNEL then kernel_entry i 0 else 0)"

definition init_table :: "'c mm_cfg_scheme \<Rightarrow> nat \<Rightarrow> 'a mm_state_scheme \<Rightarrow> 'a mm_state_scheme" where
  "init_table C j m =
     fold (init_kernel_page (pagusr_page C j)) [1..<NUM_PAG_KERNEL]
       (fold (\<lambda>i. set_pte (pagusr_page C j) i 0) [0..<TOTAL_PAGES] m)"

lemma pt_init_table:
  "p < TOTAL_PAGES \<Longrightarrow>
   pt (init_table C j m) PT p = (if PT = pagusr_page C j then boot_entry p else pt m PT p)"
  by (auto simp: init_table_def pt_fold_init_kernel_page pt_fold_set_pte boot_entry_def)

lemma pt_fold_init_table:
  "p < TOTAL_PAGES \<Longrightarrow>
   pt (fold (init_table C) js m) PT p =
     (if PT \<in> pagusr_page C ` set js then boot_entry p else pt m PT p)"
  by (induction js arbitrary: m) (auto simp: pt_init_table)

lemma init_table_pages_alt: "init_table_pages C m = fold (init_table C) [0..<NR_TASKS] m"
  by (simp add: init_table_pages_def init_table_def [abs_def] Let_def)

lemma pt_init_table_pages:
  "p < TOTAL_PAGES \<Longrightarrow> j < NR_TASKS \<Longrightarrow>
   pt (init_table_pages C m) (pagusr_page C j) p = boot_entry p"
  by (auto simp: init_table_pages_alt pt_fold_init_table)

definition init_dir :: "'c mm_cfg_scheme \<Rightarrow> nat \<Rightarrow> 'a mm_state_scheme \<Rightarrow> 'a mm_state_scheme" where
  "init_dir C i = set_pte (dir_page C i) ENTRY_DIR_PAGES (user_entry (pagusr_page C i))"

lemma init_dir_pages_alt: "init_dir_pages C m = fold (init_dir C) [0..<NR_TASKS] m"
  by (simp add: init_dir_pages_def init_dir_def [abs_def] user_entry_def)

lemma pt_fold_init_dir_other:
  "PT \<notin> dir_page C ` set is \<Longrightarrow> pt (fold (init_dir C) is m) PT p = pt m PT p"
  by (induction "is" arbitrary: m) (auto simp: init_dir_def pt_set_pte)

lemma pt_fold_init_dir_entry:
  "distinct is \<Longrightarrow> set is \<subseteq> {..<NR_TASKS} \<Longrightarrow> i \<in> set is \<Longrightarrow>
   pt (fold (init_dir C) is m) (dir_page C i) ENTRY_DIR_PAGES = user_entry (pagusr_page C i)"
proof (induction "is" arbitrary: m)
  case (Cons j js)
  show ?case
  proof (cases "i = j")
    case True
    have "dir_page C i \<notin> dir_page C ` set js"
    proof
      assume "dir_page C i \<in> dir_page C ` set js"
      then obtain k where k: "k \<in> set js" "dir_page C i = dir_page C k" by blast
      with Cons.prems have "i < NR_TASKS" and "k < NR_TASKS" by auto
      then have "i = k" using k(2) by (rule dir_page_inj)
      with k True Cons.prems(1) show False by simp
    qed
    with True show ?thesis
      by (simp add: pt_fold_init_dir_other) (simp add: init_dir_def pt_set_pte)
  qed (use Cons in simp)
qed simp

lemma pt_init_dir_pages:
  "i < NR_TASKS \<Longrightarrow>
   pt (init_dir_pages C m) (dir_page C i) ENTRY_DIR_PAGES = user_entry (pagusr_page C i)"
  by (auto simp: init_dir_pages_alt intro!: pt_fold_init_dir_entry)

lemma pt_init_dir_pages_other:
  "PT \<notin> dir_page C ` {..<NR_TASKS} \<Longrightarrow> pt (init_dir_pages C m) PT p = pt m PT p"
  by (auto simp: init_dir_pages_alt intro!: pt_fold_init_dir_other)

section \<open>Properties\<close>

text \<open>C32. The frame allocator hands out frames that are free, all different and no longer available
  afterwards; it returns \<open>-1\<close> and changes nothing when none is left; freeing what was allocated makes it
  available again, except that \<open>free_frame\<close> ignores the first user frame, number \<open>NUM_PAG_KERNEL\<close>.\<close>

theorem frames_alloc_release:
  fixes m :: mm_state
  assumes "frames_ok m" and "n \<le> card (avail m)"
  shows "(\<exists>fs m'. alloc_seq alloc_frame n m = (map int fs, m') \<and> length fs = n \<and> distinct fs \<and>
      set fs \<subseteq> avail m \<and> avail m' = avail m - set fs \<and>
      avail (fold (\<lambda>f. free_frame (of_nat f)) fs m') = avail m - (set fs \<inter> {NUM_PAG_KERNEL})) \<and>
    (avail m = {} \<longrightarrow> alloc_frame m = (-1, m)) \<and> free_frame (of_nat NUM_PAG_KERNEL) m = m"
proof (intro conjI impI)
  have k: "NUM_PAG_KERNEL < TOTAL_PAGES" by (simp add: mm_consts)
  have ign: "free_frame (of_nat NUM_PAG_KERNEL) m = m" for m :: mm_state
    by (simp add: free_frame_def mm_consts)
  then show "free_frame (of_nat NUM_PAG_KERNEL) m = m" .
  obtain fs m' where fs: "alloc_seq alloc_frame n m = (map int fs, m')" "length fs = n" "distinct fs"
      "set fs \<subseteq> avail m" "avail m' = avail m - set fs" "frames_ok m'"
    using fa.alloc_seq_enough [OF assms] by blast
  have "avail (fold (\<lambda>f. free_frame (of_nat f)) gs m') = avail m' \<union> (set gs - {NUM_PAG_KERNEL}) \<and>
      frames_ok (fold (\<lambda>f. free_frame (of_nat f)) gs m')" if "set gs \<subseteq> avail m" for gs
    using that
  proof (induction gs rule: rev_induct)
    case (snoc g gs)
    show ?case
    proof (cases "g = NUM_PAG_KERNEL")
      case False
      then have "g \<in> freeable" using snoc.prems by (auto simp: avail_def freeable_def)
      then show ?thesis using snoc False fa.release_gives fa.release_ok by auto
    qed (use snoc ign in auto)
  qed (simp add: fs)
  from this [OF fs(4)] fs show "\<exists>fs m'. alloc_seq alloc_frame n m = (map int fs, m') \<and> length fs = n \<and> distinct fs \<and>
      set fs \<subseteq> avail m \<and> avail m' = avail m - set fs \<and>
      avail (fold (\<lambda>f. free_frame (of_nat f)) fs m') = avail m - (set fs \<inter> {NUM_PAG_KERNEL})"
    by (intro exI [of _ fs] exI [of _ m']) auto
qed (use assms(1) fa.alloc_fails in blast)

theorem frames_alloc_release_witness:
  "\<exists>fs m'. alloc_seq alloc_frame 3 (snd (init_frames \<lparr>phys_mem = replicate 1024 0, pt = (\<lambda>_ _. 0), cr3 = 0, cr0 = 0\<rparr>)) =
     (map int fs, m') \<and> length fs = 3 \<and> distinct fs"
proof -
  let ?m = "\<lparr>phys_mem = replicate 1024 0, pt = (\<lambda>_ _. 0), cr3 = 0, cr0 = 0\<rparr> :: mm_state"
  have ok: "frames_ok (snd (init_frames ?m))" by simp (simp add: frames_ok_def mm_consts)
  have "3 \<le> card (avail (snd (init_frames ?m)))"
    using card_even_frames by (simp add: avail_init frames_ok_def mm_consts)
  from frames_alloc_release [OF ok this] show ?thesis by blast
qed

end
