(* ===== verification/Zeos_Mem.thy ===== *)
theory Zeos_Mem
  imports Zeos_Mm
begin

text \<open>
  The memory helpers of \<^verbatim>\<open>utils.c\<close>: the three copy routines (the same text under three
  names), \<open>memset\<close>, the user-pointer check \<open>access_ok\<close> of each kernel, and the 64-bit
  division behind \<open>get_ticks\<close>. Memory is a function from 32-bit addresses to bytes;
  the copies move four bytes at a time while more than four remain, then single bytes.
\<close>

section \<open>Copying\<close>

type_synonym memory = "DWord \<Rightarrow> Byte"

definition load32 :: "memory \<Rightarrow> DWord \<Rightarrow> Byte list" where
  "load32 m p = map (\<lambda>i. m (p + of_nat i)) [0..<4]"

definition store32 :: "memory \<Rightarrow> DWord \<Rightarrow> Byte list \<Rightarrow> memory" where
  "store32 m q bs = fold (\<lambda>i m. m(q + of_nat i := bs ! i)) [0..<4] m"

function copy_dwords :: "memory \<Rightarrow> DWord \<Rightarrow> DWord \<Rightarrow> int \<Rightarrow> memory \<times> DWord \<times> DWord \<times> int" where
  "copy_dwords m p q sz =
     (if sz > 4 then copy_dwords (store32 m q (load32 m p)) (p + 4) (q + 4) (sz - 4)
      else (m, p, q, sz))"
  by pat_completeness auto
termination
  by (relation "measure (\<lambda>(m, p, q, sz). nat sz)") auto

function copy_bytes :: "memory \<Rightarrow> DWord \<Rightarrow> DWord \<Rightarrow> int \<Rightarrow> memory" where
  "copy_bytes m p q sz =
     (if sz > 0 then copy_bytes (m(q := m p)) (p + 1) (q + 1) (sz - 1) else m)"
  by pat_completeness auto
termination
  by (relation "measure (\<lambda>(m, p, q, sz). nat sz)") auto

declare copy_dwords.simps [simp del] copy_bytes.simps [simp del]

definition copy_data :: "DWord \<Rightarrow> DWord \<Rightarrow> int \<Rightarrow> memory \<Rightarrow> memory" where
  "copy_data start dest sz m =
     (let (m, p, q, sz) = copy_dwords m start dest sz in copy_bytes m p q sz)"

definition copy_from_user :: "DWord \<Rightarrow> DWord \<Rightarrow> int \<Rightarrow> memory \<Rightarrow> int \<times> memory" where
  "copy_from_user start dest sz m =
     (let (m, p, q, sz) = copy_dwords m start dest sz in (0, copy_bytes m p q sz))"

definition copy_to_user :: "DWord \<Rightarrow> DWord \<Rightarrow> int \<Rightarrow> memory \<Rightarrow> int \<times> memory" where
  "copy_to_user start dest sz m =
     (let (m, p, q, sz) = copy_dwords m start dest sz in (0, copy_bytes m p q sz))"

definition memset :: "DWord \<Rightarrow> Byte \<Rightarrow> int \<Rightarrow> memory \<Rightarrow> memory" where
  "memset s c sz m = fold (\<lambda>i m. m(s + of_nat i := c)) [0..<nat sz] m"

section \<open>User pointers\<close>

definition VERIFY_READ :: int where "VERIFY_READ = 0"
definition VERIFY_WRITE :: int where "VERIFY_WRITE = 1"

text \<open>
  \<open>access_ok\<close> of \<^verbatim>\<open>E1_E2\<close>, of \<^verbatim>\<open>GAME\<close> and of \<^verbatim>\<open>zeos\<close>. The \<open>case VERIFY_WRITE\<close> arm has no
  \<open>break\<close>: when its test fails, control falls into the \<open>default\<close> arm.
\<close>

definition access_ok_e :: "int \<Rightarrow> DWord \<Rightarrow> DWord \<Rightarrow> int" where
  "access_ok_e type addr sz =
     (let addr_ini = unat (drop_bit 12 addr); addr_fin = unat (drop_bit 12 (addr + sz)) in
      if addr_fin < addr_ini then 0
      else if type = VERIFY_WRITE \<and> addr_ini \<ge> USER_FIRST_PAGE \<and>
              addr_fin \<le> USER_FIRST_PAGE + NUM_PAG_DATA then 1
      else if addr_ini \<ge> USER_FIRST_PAGE \<and>
              addr_fin \<le> USER_FIRST_PAGE + NUM_PAG_CODE + NUM_PAG_DATA then 1
      else 0)"

definition access_ok :: "int \<Rightarrow> DWord \<Rightarrow> DWord \<Rightarrow> int" where
  "access_ok type addr sz =
     (let addr_ini = unat (drop_bit 12 addr); addr_fin = unat (drop_bit 12 (addr + sz)) in
      if addr_fin < addr_ini then 0
      else if type = VERIFY_WRITE \<and> addr_ini \<ge> USER_FIRST_PAGE + NUM_PAG_CODE \<and>
              addr_fin \<le> USER_FIRST_PAGE + NUM_PAG_CODE + NUM_PAG_DATA then 1
      else if addr_ini \<ge> USER_FIRST_PAGE \<and>
              addr_fin \<le> USER_FIRST_PAGE + NUM_PAG_CODE + NUM_PAG_DATA then 1
      else 0)"

definition PAG_LOG_INIT_DATA_z :: nat where
  "PAG_LOG_INIT_DATA_z = unat (drop_bit 12 (0x400000 :: DWord))"

definition access_ok_z :: "int \<Rightarrow> DWord \<Rightarrow> DWord \<Rightarrow> int" where
  "access_ok_z type addr sz =
     (let addr_ini = unat (drop_bit 12 addr); addr_fin = unat (drop_bit 12 (addr + sz)) in
      if addr_fin < addr_ini then 0
      else if type = VERIFY_WRITE \<and> addr_ini \<ge> PAG_LOG_INIT_DATA_z \<and>
              addr_fin \<le> PAG_LOG_INIT_DATA_z + NUM_PAG_DATA then 1
      else if addr_ini \<ge> PAG_LOG_INIT_DATA_z \<and>
              addr_fin \<le> PAG_LOG_INIT_DATA_z + NUM_PAG_CODE + NUM_PAG_DATA then 1
      else 0)"

section \<open>Ticks\<close>

definition CYCLESPERTICK :: DWord where "CYCLESPERTICK = 109000"

text \<open>
  \<open>do_div\<close> divides a 64-bit number in place by a 32-bit base and returns the remainder.
  The processor's \<open>divl\<close> divides \<open>upper:low\<close>; its quotient must fit in 32 bits (the
  processor traps otherwise), which \<open>None\<close> records.
\<close>

definition divl :: "DWord \<Rightarrow> DWord \<Rightarrow> DWord \<Rightarrow> (DWord \<times> DWord) option" where
  "divl upper low base =
     (let n = unat upper * 2 ^ 32 + unat low in
      if base = 0 \<or> n div unat base \<ge> 2 ^ 32 then None
      else Some (of_nat (n div unat base), of_nat (n mod unat base)))"

definition do_div :: "64 word \<Rightarrow> DWord \<Rightarrow> (64 word \<times> DWord) option" where
  "do_div n base =
     (let low = ucast n :: DWord; high = ucast (drop_bit 32 n) :: DWord;
          upper = (if high \<noteq> 0 then high mod base else high);
          high' = (if high \<noteq> 0 then high div base else high)
      in case divl upper low base of
           None \<Rightarrow> None
         | Some (q, r) \<Rightarrow> Some (push_bit 32 (ucast high') OR ucast q, r))"

definition get_ticks :: "DWord \<Rightarrow> DWord \<Rightarrow> DWord option" where
  "get_ticks a d =
     (let ticks = push_bit 32 (ucast d :: 64 word) + ucast a
      in map_option (\<lambda>(q, r). ucast q) (do_div ticks CYCLESPERTICK))"

section \<open>The copy is \<open>memcpy\<close>\<close>

text \<open>
  \<open>apart p q n\<close>: the source block of \<open>n\<close> bytes at \<open>p\<close> and the destination block at \<open>q\<close>
  do not overlap and neither wraps around the address space.
\<close>

definition apart :: "DWord \<Rightarrow> DWord \<Rightarrow> nat \<Rightarrow> bool" where
  "apart p q n \<longleftrightarrow> unat p + n \<le> 2 ^ 32 \<and> unat q + n \<le> 2 ^ 32 \<and>
     (unat p + n \<le> unat q \<or> unat q + n \<le> unat p)"

definition block_copy :: "memory \<Rightarrow> DWord \<Rightarrow> DWord \<Rightarrow> nat \<Rightarrow> memory" where
  "block_copy m p q n a =
     (if unat q \<le> unat a \<and> unat a < unat q + n then m (p + (a - q)) else m a)"

lemma block_copy_0 [simp]: "block_copy m p q 0 = m"
  by (rule ext) (auto simp: block_copy_def)

lemma unat_offset:
  "unat (p :: DWord) + n < 2 ^ 32 \<Longrightarrow> unat (p + of_nat n) = unat p + n"
  by (simp add: unat_word_ariths unsigned_of_nat take_bit_nat_eq_self)

lemma unat_shifted:
  assumes "unat (q :: DWord) \<le> unat a" and "unat p + (unat a - unat q) < 2 ^ 32"
  shows "unat (p + (a - q)) = unat p + (unat a - unat q)"
proof -
  have "unat (a - q) = unat a - unat q"
    using assms(1) by (simp add: unat_sub word_le_nat_alt)
  with assms(2) show ?thesis by (simp add: unat_word_ariths)
qed

lemma block_copy_add:
  assumes "apart p q (a + b)"
  shows "block_copy (block_copy m p q a) (p + of_nat a) (q + of_nat a) b = block_copy m p q (a + b)"
proof (cases "b = 0")
  case False
  have q: "unat (q + of_nat a) = unat q + a"
    using assms False by (simp add: apart_def unat_offset)
  show ?thesis
  proof
    fix x
    have sh: "p + of_nat a + (x - (q + of_nat a)) = p + (x - q)" by simp
    have "unat (p + (x - q)) = unat p + (unat x - unat q)"
      if "unat q \<le> unat x" "unat x < unat q + (a + b)"
      using assms that by (intro unat_shifted) (auto simp: apart_def)
    then show "block_copy (block_copy m p q a) (p + of_nat a) (q + of_nat a) b x =
        block_copy m p q (a + b) x"
      using assms unfolding block_copy_def q sh by (auto simp: apart_def)
  qed
qed simp

lemma block_copy_1: "apart p q 1 \<Longrightarrow> m(q := m p) = block_copy m p q 1"
proof
  fix x
  assume "apart p q 1"
  have "unat q \<le> unat x \<and> unat x < unat q + 1 \<longleftrightarrow> x = q"
    by (auto simp: le_antisym less_Suc_eq_le word_unat_eq_iff)
  then show "(m(q := m p)) x = block_copy m p q 1 x"
    by (simp add: block_copy_def)
qed

lemma apart_mono: "apart p q n \<Longrightarrow> k \<le> n \<Longrightarrow> apart p q k"
  by (auto simp: apart_def)

lemma apart_shift:
  assumes "apart p q (k + n)"
  shows "n = 0 \<or> apart (p + of_nat k) (q + of_nat k) n"
proof (cases "n = 0")
  case False
  with assms have "unat (p + of_nat k) = unat p + k" "unat (q + of_nat k) = unat q + k"
    by (auto simp: apart_def intro!: unat_offset)
  with assms show ?thesis by (auto simp: apart_def)
qed simp

lemma copy_bytes_block: "apart p q n \<Longrightarrow> copy_bytes m p q (int n) = block_copy m p q n"
proof (induction n arbitrary: m p q)
  case 0
  then show ?case by (simp add: copy_bytes.simps)
next
  case (Suc n)
  have "copy_bytes m p q (int (Suc n)) = copy_bytes (block_copy m p q 1) (p + 1) (q + 1) (int n)"
    using block_copy_1 [OF apart_mono [OF Suc.prems]] by (simp add: copy_bytes.simps [of m])
  also have "\<dots> = block_copy (block_copy m p q 1) (p + 1) (q + 1) n"
    using apart_shift [of p q 1 n] Suc.prems
    by (cases "n = 0") (auto simp: copy_bytes.simps [of _ _ _ 0] intro!: Suc.IH)
  also have "\<dots> = block_copy m p q (Suc n)"
    using block_copy_add [of p q 1 n m] Suc.prems by simp
  finally show ?case .
qed

lemma store32_block:
  assumes "apart p q 4"
  shows "store32 m q (load32 m p) = block_copy m p q 4"
proof
  fix x
  have off: "unat (q + of_nat i) = unat q + i" if "i < 4" for i
    using assms that by (intro unat_offset) (auto simp: apart_def)
  have eq: "x = q + of_nat i \<longleftrightarrow> unat x = unat q + i" if "i < 4" for i
    using off [OF that] by (metis word_unat_eq_iff)
  have "[0..<4] = [0, 1, 2, 3 :: nat]" by (simp add: upt_rec)
  then show "store32 m q (load32 m p) x = block_copy m p q 4 x"
    using eq [of 0] eq [of 1] eq [of 2] eq [of 3]
    by (auto simp: store32_def load32_def block_copy_def)
qed

lemma copy_dwords_block:
  assumes "apart p q n"
  shows "\<exists>k. k \<le> n \<and> copy_dwords m p q (int n) =
    (block_copy m p q k, p + of_nat k, q + of_nat k, int (n - k))"
  using assms
proof (induction n arbitrary: m p q rule: less_induct)
  case (less n)
  show ?case
  proof (cases "4 < n")
    case False
    then show ?thesis by (intro exI [of _ 0]) (simp add: copy_dwords.simps)
  next
    case True
    then obtain r where r: "n = 4 + r" "0 < r" by (metis less_imp_add_positive)
    with less.prems apart_shift [of p q 4 r] have "apart (p + 4) (q + 4) r" by auto
    from less.IH [OF _ this, of "block_copy m p q 4"] r obtain k where k: "k \<le> r"
      "copy_dwords (block_copy m p q 4) (p + 4) (q + 4) (int r) =
       (block_copy (block_copy m p q 4) (p + 4) (q + 4) k, p + 4 + of_nat k, q + 4 + of_nat k,
        int (r - k))" by auto
    have "block_copy (block_copy m p q 4) (p + 4) (q + 4) k = block_copy m p q (4 + k)"
      using block_copy_add [of p q 4 k m] apart_mono [OF less.prems, of "4 + k"] k(1) r by simp
    moreover have "store32 m q (load32 m p) = block_copy m p q 4"
      by (rule store32_block) (use apart_mono [OF less.prems] r in simp)
    ultimately have "copy_dwords m p q (int n) =
        (block_copy m p q (4 + k), p + of_nat (4 + k), q + of_nat (4 + k), int (n - (4 + k)))"
      using k(2) r by (simp add: copy_dwords.simps [of m] add.assoc)
    moreover have "4 + k \<le> n" using k(1) r by simp
    ultimately show ?thesis by blast
  qed
qed

lemma copy_data_block: "apart p q n \<Longrightarrow> copy_data p q (int n) m = block_copy m p q n"
proof -
  assume ap: "apart p q n"
  obtain k where k: "k \<le> n" "copy_dwords m p q (int n) =
      (block_copy m p q k, p + of_nat k, q + of_nat k, int (n - k))"
    using copy_dwords_block [OF ap] by blast
  have sp: "k + (n - k) = n" using k(1) by simp
  have "copy_bytes (block_copy m p q k) (p + of_nat k) (q + of_nat k) (int (n - k)) =
      block_copy (block_copy m p q k) (p + of_nat k) (q + of_nat k) (n - k)"
  proof (cases "n - k = 0")
    case True
    then show ?thesis by (simp add: copy_bytes.simps [of _ _ _ 0] del: of_nat_diff)
  next
    case False
    then show ?thesis
      using apart_shift [of p q k "n - k"] ap sp by (intro copy_bytes_block) auto
  qed
  also have "\<dots> = block_copy m p q n"
    using block_copy_add [of p q k "n - k" m] ap sp by simp
  finally show ?thesis by (simp add: copy_data_def k(2))
qed

lemma copy_user_data:
  "copy_from_user p q n m = (0, copy_data p q n m)"
  "copy_to_user p q n m = (0, copy_data p q n m)"
  by (simp_all add: copy_from_user_def copy_to_user_def copy_data_def case_prod_beta)

lemma memset_block:
  "unat s + n \<le> 2 ^ 32 \<Longrightarrow>
   memset s c (int n) m a = (if unat s \<le> unat a \<and> unat a < unat s + n then c else m a)"
proof (induction n arbitrary: m)
  case (Suc n)
  then have "a = s + of_nat n \<longleftrightarrow> unat a = unat s + n"
    using unat_offset [of s n] by (metis Suc_le_eq add_Suc_right word_unat_eq_iff)
  then show ?case using Suc by (auto simp: memset_def nat_add_distrib)
qed (auto simp: memset_def)

section \<open>User pointers and ticks\<close>

lemmas access_defs = access_ok_e_def access_ok_def access_ok_z_def Let_def

lemma access_type_irrelevant:
  "access_ok_e t a n = access_ok_e VERIFY_READ a n"
  "access_ok t a n = access_ok VERIFY_READ a n"
  "access_ok_z t a n = access_ok_z VERIFY_READ a n"
  by (auto simp: access_defs VERIFY_READ_def VERIFY_WRITE_def)

lemma drop_bit_12_div: "unat (drop_bit 12 (a :: DWord)) = unat a div 4096"
  by (simp add: unat_div drop_bit_eq_div)

lemma user_first_page [simp]: "USER_FIRST_PAGE = 256"
  by (simp add: USER_FIRST_PAGE_def L_USER_START_def)

lemma access_ok_iff:
  "access_ok t a n \<noteq> 0 \<longleftrightarrow>
     256 * 4096 \<le> unat a \<and> unat (a + n) < 285 * 4096 \<and> unat a div 4096 \<le> unat (a + n) div 4096"
proof -
  have "unat (a + n) div 4096 \<le> 284 \<longleftrightarrow> unat (a + n) < 285 * 4096"
    by (simp add: div_less_iff_less_mult flip: less_Suc_eq_le)
  moreover have "256 \<le> unat a div 4096 \<longleftrightarrow> 256 * 4096 \<le> unat a"
    by (simp add: less_eq_div_iff_mult_less_eq)
  ultimately show ?thesis
    unfolding access_type_irrelevant(2) [of t]
    by (auto simp: access_defs VERIFY_READ_def VERIFY_WRITE_def drop_bit_12_div mm_consts)
qed

lemma divl_exact:
  "0 < unat base \<Longrightarrow> unat upper < unat base \<Longrightarrow>
   divl upper low base = Some (of_nat ((unat upper * 2 ^ 32 + unat low) div unat base),
     of_nat ((unat upper * 2 ^ 32 + unat low) mod unat base))"
proof -
  assume b: "0 < unat base" and u: "unat upper < unat base"
  have "unat low < 2 ^ 32" using unsigned_less [of low, where ?'a = nat] by simp
  then have "unat upper * 2 ^ 32 + unat low < (unat upper + 1) * 2 ^ 32" by simp
  also have "\<dots> \<le> unat base * 2 ^ 32" using u by (intro mult_le_mono1) simp
  finally have "(unat upper * 2 ^ 32 + unat low) div unat base < 2 ^ 32"
    using b by (simp add: div_less_iff_less_mult mult.commute)
  then show ?thesis using b by (auto simp: divl_def Let_def)
qed

lemma join_halves:
  "unat (push_bit 32 (ucast (h :: DWord)) OR ucast (l :: DWord) :: 64 word) = unat h * 2 ^ 32 + unat l"
proof -
  have "push_bit 32 (ucast h) OR ucast l = (push_bit 32 (ucast h) + ucast l :: 64 word)"
    by (rule disjunctive_add_eq_or [symmetric], rule bit_eqI)
       (auto simp: bit_simps dest: bit_imp_le_length)
  moreover have "unat h * 2 ^ 32 + unat l < 2 ^ 64"
  proof -
    have "unat h < 2 ^ 32" "unat l < 2 ^ 32"
      using unsigned_less [of h, where ?'a = nat] unsigned_less [of l, where ?'a = nat] by simp_all
    then show ?thesis by simp
  qed
  ultimately show ?thesis
    by (simp add: unat_word_ariths push_bit_eq_mult unsigned_ucast_eq take_bit_nat_eq_self
        mult.commute)
qed

lemma split_halves:
  "unat (n :: 64 word) = unat (ucast (drop_bit 32 n) :: DWord) * 2 ^ 32 + unat (ucast n :: DWord)"
proof -
  have "push_bit 32 (ucast (ucast (drop_bit 32 n) :: DWord)) OR ucast (ucast n :: DWord) = n"
    by (rule bit_word_eqI) (auto simp: bit_simps)
  then show ?thesis using join_halves by metis
qed

lemma do_div_correct:
  assumes "0 < unat base"
  shows "\<exists>q r. do_div n base = Some (q, r) \<and> unat q = unat n div unat base \<and>
    unat r = unat n mod unat base"
proof -
  define high low b where "high = (ucast (drop_bit 32 n) :: DWord)"
    and "low = (ucast n :: DWord)" and "b = unat base"
  define rest where "rest = unat high mod b * 2 ^ 32 + unat low"
  have b: "0 < b" using assms by (simp add: b_def)
  have top: "(if high \<noteq> 0 then high mod base else high) = high mod base"
    "(if high \<noteq> 0 then high div base else high) = high div base" by auto
  have m: "unat (high mod base) = unat high mod b" and d: "unat (high div base) = unat high div b"
    by (simp_all add: unat_mod unat_div b_def)
  have low: "unat low < 2 ^ 32" using unsigned_less [of low, where ?'a = nat] by simp
  have "unat high mod b < b" using b by simp
  then have dl: "divl (high mod base) low base = Some (of_nat (rest div b), of_nat (rest mod b))"
    using divl_exact [of base "high mod base" low] b by (simp add: m b_def rest_def)
  have "rest < (unat high mod b + 1) * 2 ^ 32" using low by (simp add: rest_def)
  also have "\<dots> \<le> b * 2 ^ 32" using \<open>unat high mod b < b\<close> by (intro mult_le_mono1) simp
  finally have q: "rest div b < 2 ^ 32" using b by (simp add: div_less_iff_less_mult mult.commute)
  have "b < 2 ^ 32" using unsigned_less [of base, where ?'a = nat] by (simp add: b_def)
  with b have r: "rest mod b < 2 ^ 32" by (meson less_trans mod_less_divisor)
  have n: "unat n = (unat high div b * 2 ^ 32) * b + rest"
  proof -
    have "unat high * 2 ^ 32 = (unat high div b * b + unat high mod b) * 2 ^ 32" by simp
    also have "\<dots> = (unat high div b * 2 ^ 32) * b + unat high mod b * 2 ^ 32"
      by (simp only: distrib_right ac_simps)
    finally show ?thesis
      using split_halves [of n]
      by (simp only: high_def [symmetric] low_def [symmetric] rest_def add.assoc)
  qed
  have "do_div n base = Some (push_bit 32 (ucast (high div base)) OR
      ucast (of_nat (rest div b) :: DWord), of_nat (rest mod b))"
    unfolding do_div_def Let_def high_def [symmetric] low_def [symmetric] top dl by simp
  moreover have "unat (of_nat (rest div b) :: DWord) = rest div b"
    "unat (of_nat (rest mod b) :: DWord) = rest mod b"
    using q r by (simp_all add: unsigned_of_nat take_bit_nat_eq_self)
  ultimately show ?thesis
    using b by (simp add: join_halves d n b_def [symmetric])
qed

lemma get_ticks_total:
  "\<exists>t. get_ticks a d = Some t \<and> unat t = (unat d * 2 ^ 32 + unat a) div 109000 mod 2 ^ 32"
proof -
  define ticks where "ticks = push_bit 32 (ucast d :: 64 word) + ucast a"
  have "ticks = push_bit 32 (ucast d) OR ucast a"
    unfolding ticks_def
    by (rule disjunctive_add_eq_or, rule bit_eqI) (auto simp: bit_simps dest: bit_imp_le_length)
  then have t: "unat ticks = unat d * 2 ^ 32 + unat a" by (simp add: join_halves)
  have "0 < unat CYCLESPERTICK" "unat CYCLESPERTICK = 109000" by (simp_all add: CYCLESPERTICK_def)
  with do_div_correct [of CYCLESPERTICK ticks] obtain q r where
    "do_div ticks CYCLESPERTICK = Some (q, r)" "unat q = unat ticks div 109000" by auto
  then show ?thesis
    by (simp add: get_ticks_def ticks_def [symmetric] t unsigned_ucast_eq take_bit_eq_mod)
qed

section \<open>Properties\<close>

text \<open>C33. \<open>copy_data\<close>, which copies words and then the remaining bytes, is a byte-wise copy of non-overlapping
  blocks: every byte of the destination is the corresponding byte of the source and nothing else
  changes. \<open>copy_from_user\<close> and \<open>copy_to_user\<close> do the same and return 0.\<close>

theorem copy_data_copies:
  assumes "apart p q n"
  shows "(\<forall>i<n. copy_data p q (int n) m (q + of_nat i) = m (p + of_nat i)) \<and>
    (\<forall>a. \<not> (unat q \<le> unat a \<and> unat a < unat q + n) \<longrightarrow> copy_data p q (int n) m a = m a) \<and>
    copy_from_user p q (int n) m = (0, copy_data p q (int n) m) \<and>
    copy_to_user p q (int n) m = (0, copy_data p q (int n) m)"
proof -
  have "unat (q + of_nat i) = unat q + i" if "i < n" for i
    using assms that by (intro unat_offset) (simp add: apart_def)
  then show ?thesis using copy_data_block [OF assms, of m] by (auto simp: block_copy_def copy_user_data)
qed

theorem copy_data_copies_witness:
  "copy_data 0x1000 0x2000 7 (\<lambda>a. if a = 0x1005 then 9 else 0) 0x2005 = 9"
proof -
  have "apart 0x1000 0x2000 7" by (simp add: apart_def)
  from copy_data_copies [OF this, of "\<lambda>a. if a = 0x1005 then 9 else 0"] show ?thesis
    by (auto dest: spec [of _ 5])
qed

text \<open>C34. \<open>do_div\<close> divides a 64-bit number by any non-zero 32-bit base without overflow of the processor's
  division, and \<open>get_ticks\<close> is the time stamp counter divided by \<open>CYCLESPERTICK\<close>, modulo \<open>2 ^ 32\<close>.\<close>

theorem do_div_divides:
  assumes "base \<noteq> 0"
  shows "(\<exists>q r. do_div n base = Some (q, r) \<and> unat q = unat n div unat base \<and> unat r = unat n mod unat base) \<and>
    (\<exists>t. get_ticks a d = Some t \<and> unat t = (unat d * 2 ^ 32 + unat a) div 109000 mod 2 ^ 32)"
  using do_div_correct [of base n] get_ticks_total assms by (simp add: unat_gt_0)

theorem do_div_divides_witness:
  "\<exists>q r. do_div 0x123456789ABC 1000 = Some (q, r) \<and> unat q = 20015998343 \<and> unat r = 868"
proof -
  have "(1000 :: DWord) \<noteq> 0" by simp
  from do_div_divides [OF this, of "0x123456789ABC" 0 0] show ?thesis by auto
qed

text \<open>C35. \<open>access_ok\<close> of GAME accepts exactly the ranges that start at or after the first user page and end, as
  sums modulo \<open>2 ^ 32\<close>, at or before the page after the last one, in a page not before the first. The
  kind of access makes no difference: the case for writing falls through to the one for reading.\<close>

theorem access_ok_decides:
  "(access_ok t a n \<noteq> 0 \<longleftrightarrow> 256 * 4096 \<le> unat a \<and> unat (a + n) < 285 * 4096 \<and>
      unat a div 4096 \<le> unat (a + n) div 4096) \<and> access_ok VERIFY_WRITE a n = access_ok VERIFY_READ a n"
  using access_ok_iff access_type_irrelevant(2) by blast

end
