(* ===== verification/Zeos_List.thy ===== *)
theory Zeos_List
  imports Zeos_Prelude
begin

text \<open>
  The intrusive doubly linked lists of \<^verbatim>\<open>list.c\<close> and \<^verbatim>\<open>include/list.h\<close>, shared by every
  kernel of the repository. A \<open>struct list_head\<close> is an address of type \<open>'a\<close>; the store
  \<open>'a lheap\<close> holds the two link fields of every list head, and a pointer is an
  \<open>'a option\<close>, with \<open>None\<close> for NULL. Every routine is translated statement by
  statement, so aliasing between the heads is what the C code makes of it.

  The theory then gives the abstraction \<open>dll h hd xs\<close> (the heads \<open>xs\<close> hang in this order
  from \<open>hd\<close>), proves each routine against it, and states what the scheduler relies on as
  the locale \<open>intrusive_queue\<close>, interpreted on these routines.
\<close>

section \<open>The store and the routines\<close>

record 'a lheap =
  nxt :: "'a \<Rightarrow> 'a option"
  prv :: "'a \<Rightarrow> 'a option"

definition load_next :: "'a option \<Rightarrow> 'a lheap \<Rightarrow> 'a option option" where
  "load_next p h = (case p of None \<Rightarrow> None | Some a \<Rightarrow> Some (nxt h a))"

definition load_prev :: "'a option \<Rightarrow> 'a lheap \<Rightarrow> 'a option option" where
  "load_prev p h = (case p of None \<Rightarrow> None | Some a \<Rightarrow> Some (prv h a))"

definition store_next :: "'a option \<Rightarrow> 'a option \<Rightarrow> 'a lheap \<Rightarrow> 'a lheap option" where
  "store_next p v h =
     (case p of None \<Rightarrow> None | Some a \<Rightarrow> Some (h\<lparr>nxt := (nxt h)(a := v)\<rparr>))"

definition store_prev :: "'a option \<Rightarrow> 'a option \<Rightarrow> 'a lheap \<Rightarrow> 'a lheap option" where
  "store_prev p v h =
     (case p of None \<Rightarrow> None | Some a \<Rightarrow> Some (h\<lparr>prv := (prv h)(a := v)\<rparr>))"

definition INIT_LIST_HEAD :: "'a option \<Rightarrow> 'a lheap \<Rightarrow> 'a lheap option" where
  "INIT_LIST_HEAD l h = do {
     h \<leftarrow> store_next l l h;
     store_prev l l h
   }"

definition list_add_between ::
  "'a option \<Rightarrow> 'a option \<Rightarrow> 'a option \<Rightarrow> 'a lheap \<Rightarrow> 'a lheap option" where
  "list_add_between new prev nx h = do {
     h \<leftarrow> store_prev nx new h;
     h \<leftarrow> store_next new nx h;
     h \<leftarrow> store_prev new prev h;
     store_next prev new h
   }"

definition list_add :: "'a option \<Rightarrow> 'a option \<Rightarrow> 'a lheap \<Rightarrow> 'a lheap option" where
  "list_add new head h = do {
     n \<leftarrow> load_next head h;
     list_add_between new head n h
   }"

definition list_add_tail :: "'a option \<Rightarrow> 'a option \<Rightarrow> 'a lheap \<Rightarrow> 'a lheap option" where
  "list_add_tail new head h = do {
     p \<leftarrow> load_prev head h;
     list_add_between new p head h
   }"

definition list_del_between :: "'a option \<Rightarrow> 'a option \<Rightarrow> 'a lheap \<Rightarrow> 'a lheap option" where
  "list_del_between prev nx h = do {
     h \<leftarrow> store_prev nx prev h;
     store_next prev nx h
   }"

definition list_del :: "'a option \<Rightarrow> 'a lheap \<Rightarrow> 'a lheap option" where
  "list_del entry h = do {
     p \<leftarrow> load_prev entry h;
     n \<leftarrow> load_next entry h;
     h \<leftarrow> list_del_between p n h;
     h \<leftarrow> store_next entry None h;
     store_prev entry None h
   }"

definition list_is_last :: "'a option \<Rightarrow> 'a option \<Rightarrow> 'a lheap \<Rightarrow> bool option" where
  "list_is_last l head h = do {
     n \<leftarrow> load_next l h;
     Some (n = head)
   }"

definition list_empty :: "'a option \<Rightarrow> 'a lheap \<Rightarrow> bool option" where
  "list_empty head h = do {
     n \<leftarrow> load_next head h;
     Some (n = head)
   }"

definition list_first :: "'a option \<Rightarrow> 'a lheap \<Rightarrow> 'a option option" where
  "list_first head h = load_next head h"

text \<open>
  The macro \<open>list_for_each\<close> with its body. The body may leave the enclosing function
  (\<open>return v\<close> is \<open>Some v\<close>) and may change the store, which the loop reads afresh through
  \<open>hp\<close> to advance. \<open>list_for_each_safe\<close> reads the successor before the body runs.
\<close>

partial_function (option) list_for_each_from ::
  "('s \<Rightarrow> 'a lheap) \<Rightarrow> 'a option \<Rightarrow> ('a option \<Rightarrow> 's \<Rightarrow> ('r option \<times> 's) option) \<Rightarrow>
   'a option \<Rightarrow> 's \<Rightarrow> ('r option \<times> 's) option" where
  "list_for_each_from hp head body pos s =
     (if pos = head then Some (None, s)
      else do {
        (r, s) \<leftarrow> body pos s;
        (case r of
           Some v \<Rightarrow> Some (Some v, s)
         | None \<Rightarrow> do {
             n \<leftarrow> load_next pos (hp s);
             list_for_each_from hp head body n s
           })
      })"

definition list_for_each ::
  "('s \<Rightarrow> 'a lheap) \<Rightarrow> 'a option \<Rightarrow> ('a option \<Rightarrow> 's \<Rightarrow> ('r option \<times> 's) option) \<Rightarrow>
   's \<Rightarrow> ('r option \<times> 's) option" where
  "list_for_each hp head body s = do {
     pos \<leftarrow> load_next head (hp s);
     list_for_each_from hp head body pos s
   }"

partial_function (option) list_for_each_safe_from ::
  "('s \<Rightarrow> 'a lheap) \<Rightarrow> 'a option \<Rightarrow> ('a option \<Rightarrow> 's \<Rightarrow> 's option) \<Rightarrow>
   'a option \<Rightarrow> 'a option \<Rightarrow> 's \<Rightarrow> 's option" where
  "list_for_each_safe_from hp head body pos n s =
     (if pos = head then Some s
      else do {
        s \<leftarrow> body pos s;
        n' \<leftarrow> load_next n (hp s);
        list_for_each_safe_from hp head body n n' s
      })"

definition list_for_each_safe ::
  "('s \<Rightarrow> 'a lheap) \<Rightarrow> 'a option \<Rightarrow> ('a option \<Rightarrow> 's \<Rightarrow> 's option) \<Rightarrow> 's \<Rightarrow> 's option" where
  "list_for_each_safe hp head body s = do {
     pos \<leftarrow> load_next head (hp s);
     n \<leftarrow> load_next pos (hp s);
     list_for_each_safe_from hp head body pos n s
   }"

lemmas list_code_defs [list_code] =
  load_next_def load_prev_def store_next_def store_prev_def INIT_LIST_HEAD_def
  list_add_between_def list_add_def list_add_tail_def list_del_between_def list_del_def
  list_is_last_def list_empty_def list_first_def

section \<open>The abstraction\<close>

text \<open>
  \<open>chain h a xs b\<close>: following the links from \<open>a\<close> one meets \<open>xs\<close> and then \<open>b\<close>, and every
  backward link agrees. \<open>dll h hd xs\<close> is the circular list of the head \<open>hd\<close>.
\<close>

fun chain :: "'a lheap \<Rightarrow> 'a \<Rightarrow> 'a list \<Rightarrow> 'a \<Rightarrow> bool" where
  "chain h a [] b \<longleftrightarrow> nxt h a = Some b \<and> prv h b = Some a"
| "chain h a (x # xs) b \<longleftrightarrow> nxt h a = Some x \<and> prv h x = Some a \<and> chain h x xs b"

definition dll :: "'a lheap \<Rightarrow> 'a \<Rightarrow> 'a list \<Rightarrow> bool" where
  "dll h q xs \<longleftrightarrow> distinct (q # xs) \<and> chain h q xs q"

definition same_links :: "'a set \<Rightarrow> 'a lheap \<Rightarrow> 'a lheap \<Rightarrow> bool" where
  "same_links N h h' \<longleftrightarrow> (\<forall>a\<in>N. nxt h' a = nxt h a \<and> prv h' a = prv h a)"

lemma chain_append [simp]:
  "chain h a (xs @ y # ys) b \<longleftrightarrow> chain h a xs y \<and> chain h y ys b"
  by (induction xs arbitrary: a) auto

lemma chain_first_last:
  assumes "chain h a xs b"
  shows "nxt h a = Some (hd (xs @ [b]))" and "prv h b = Some (last (a # xs))"
proof -
  show "nxt h a = Some (hd (xs @ [b]))"
    using assms by (cases xs) auto
  show "prv h b = Some (last (a # xs))"
    using assms by (cases xs rule: rev_cases) auto
qed

lemma chain_cong:
  assumes "\<And>x. x \<in> insert a (set xs) \<Longrightarrow> nxt h' x = nxt h x"
    and "\<And>x. x \<in> insert b (set xs) \<Longrightarrow> prv h' x = prv h x"
  shows "chain h' a xs b = chain h a xs b"
  using assms
proof (induction xs arbitrary: a)
  case (Cons y ys)
  have "chain h' y ys b = chain h y ys b"
    by (rule Cons.IH) (use Cons.prems in auto)
  then show ?case using Cons.prems by simp
qed simp

lemma dll_cong:
  assumes "same_links (insert q (set xs)) h h'"
  shows "dll h' q xs = dll h q xs"
proof -
  have "chain h' q xs q = chain h q xs q"
    by (rule chain_cong) (use assms in \<open>auto simp: same_links_def\<close>)
  then show ?thesis by (simp add: dll_def)
qed

lemma chain_det:
  "chain h a xs b \<Longrightarrow> chain h a ys b \<Longrightarrow> b \<notin> set xs \<Longrightarrow> b \<notin> set ys \<Longrightarrow> xs = ys"
proof (induction xs arbitrary: a ys)
  case Nil
  then show ?case by (cases ys) auto
next
  case (Cons x xs)
  then show ?case by (cases ys) auto
qed

lemma dll_unique: "dll h q xs \<Longrightarrow> dll h q ys \<Longrightarrow> xs = ys"
  by (auto simp: dll_def dest: chain_det)

lemma dll_first: "dll h q xs \<Longrightarrow> nxt h q = Some (case xs of [] \<Rightarrow> q | x # _ \<Rightarrow> x)"
  by (cases xs) (auto simp: dll_def)

lemma dll_last: "dll h q xs \<Longrightarrow> prv h q = Some (last (q # xs))"
  by (auto simp: dll_def dest: chain_first_last)

lemma same_links_refl [simp]: "same_links N h h"
  by (simp add: same_links_def)

lemma same_links_mono: "same_links N h h' \<Longrightarrow> M \<subseteq> N \<Longrightarrow> same_links M h h'"
  by (auto simp: same_links_def)

lemma same_links_trans:
  "same_links N h h' \<Longrightarrow> same_links N h' h'' \<Longrightarrow> same_links N h h''"
  by (auto simp: same_links_def)

section \<open>The routines against the abstraction\<close>

lemma init_list_head_dll:
  "\<exists>h'. INIT_LIST_HEAD (Some a) h = Some h' \<and> dll h' a [] \<and> same_links (- {a}) h h'"
  by (auto simp: list_code dll_def same_links_def)

lemma list_empty_dll: "dll h q xs \<Longrightarrow> list_empty (Some q) h = Some (xs = [])"
  by (cases xs) (auto simp: list_code dll_def)

lemma list_first_dll:
  "dll h q (x # xs) \<Longrightarrow> list_first (Some q) h = Some (Some x)"
  by (auto simp: list_code dll_def)

lemma list_is_last_dll:
  assumes "dll h q (xs @ x # ys)"
  shows "list_is_last (Some x) (Some q) h = Some (ys = [])"
  using assms by (cases ys) (auto simp: list_code dll_def)

text \<open>
  Insertion and removal are local: they change the links of the node and of its two
  neighbours, and no other link of the store.
\<close>

lemma list_add_between_links:
  assumes "new \<noteq> a" and "new \<noteq> b"
  shows "\<exists>h'. list_add_between (Some new) (Some a) (Some b) h = Some h' \<and>
    nxt h' = (nxt h)(new := Some b, a := Some new) \<and>
    prv h' = (prv h)(b := Some new, new := Some a)"
  using assms by (auto simp: list_code)

lemma list_add_tail_dll:
  assumes q: "dll h q xs" and new: "new \<notin> insert q (set xs)"
  shows "\<exists>h'. list_add_tail (Some new) (Some q) h = Some h' \<and> dll h' q (xs @ [new]) \<and>
    same_links (- insert new (insert q (set xs))) h h'"
proof -
  define a where "a = last (q # xs)"
  have "a \<in> insert q (set xs)" unfolding a_def by (cases xs rule: rev_cases) auto
  with new have "new \<noteq> a" and "new \<noteq> q" by auto
  then obtain h' where h': "list_add_between (Some new) (Some a) (Some q) h = Some h'"
    and n': "nxt h' = (nxt h)(new := Some q, a := Some new)"
    and p': "prv h' = (prv h)(q := Some new, new := Some a)"
    using list_add_between_links by metis
  have step: "list_add_tail (Some new) (Some q) h = Some h'"
    using dll_last [OF q] h' by (simp add: list_add_tail_def load_prev_def a_def)
  have "dll h' q (xs @ [new])"
  proof (cases xs rule: rev_cases)
    case Nil
    with q new n' p' show ?thesis by (auto simp: dll_def a_def)
  next
    case (snoc ys y)
    with q have ch: "chain h q ys y" and d: "distinct (q # ys @ [y])"
      by (auto simp: dll_def)
    have "chain h' q ys y = chain h q ys y"
      by (rule chain_cong) (use d new snoc n' p' in \<open>auto simp: a_def\<close>)
    with ch d new snoc n' p' show ?thesis by (auto simp: dll_def a_def)
  qed
  moreover have "same_links (- insert new (insert q (set xs))) h h'"
    using n' p' \<open>a \<in> insert q (set xs)\<close> by (auto simp: same_links_def)
  ultimately show ?thesis using step by blast
qed

lemma list_add_dll:
  assumes q: "dll h q xs" and new: "new \<notin> insert q (set xs)"
  shows "\<exists>h'. list_add (Some new) (Some q) h = Some h' \<and> dll h' q (new # xs) \<and>
    same_links (- insert new (insert q (set xs))) h h'"
proof -
  define b where "b = (case xs of [] \<Rightarrow> q | x # _ \<Rightarrow> x)"
  have "b \<in> insert q (set xs)" unfolding b_def by (cases xs) auto
  with new have "new \<noteq> b" and "new \<noteq> q" by auto
  then obtain h' where h': "list_add_between (Some new) (Some q) (Some b) h = Some h'"
    and n': "nxt h' = (nxt h)(new := Some b, q := Some new)"
    and p': "prv h' = (prv h)(b := Some new, new := Some q)"
    using list_add_between_links by metis
  have step: "list_add (Some new) (Some q) h = Some h'"
    using dll_first [OF q] h' by (simp add: list_add_def load_next_def b_def)
  have "dll h' q (new # xs)"
  proof (cases xs)
    case Nil
    with q new n' p' show ?thesis by (auto simp: dll_def b_def)
  next
    case (Cons y ys)
    with q have ch: "chain h y ys q" and d: "distinct (q # y # ys)"
      by (auto simp: dll_def)
    have "chain h' y ys q = chain h y ys q"
      by (rule chain_cong) (use d new Cons n' p' in \<open>auto simp: b_def\<close>)
    with ch d new Cons n' p' show ?thesis by (auto simp: dll_def b_def)
  qed
  moreover have "same_links (- insert new (insert q (set xs))) h h'"
    using n' p' \<open>b \<in> insert q (set xs)\<close> by (auto simp: same_links_def)
  ultimately show ?thesis using step by blast
qed

lemma list_del_links:
  assumes "prv h x = Some a" and "nxt h x = Some b" and "x \<noteq> a" and "x \<noteq> b"
  shows "\<exists>h'. list_del (Some x) h = Some h' \<and>
    nxt h' = (nxt h)(a := Some b, x := None) \<and>
    prv h' = (prv h)(b := Some a, x := None)"
  using assms by (auto simp: list_code)

lemma chain_relink_right:
  assumes "chain h a xs b" and "distinct (a # xs)" and "c \<notin> set xs"
    and "\<And>x. x \<in> set (a # xs) \<Longrightarrow> x \<noteq> last (a # xs) \<Longrightarrow> nxt h' x = nxt h x"
    and "\<And>x. x \<in> set xs \<Longrightarrow> prv h' x = prv h x"
    and "nxt h' (last (a # xs)) = Some c" and "prv h' c = Some (last (a # xs))"
  shows "chain h' a xs c"
proof (cases xs rule: rev_cases)
  case Nil
  with assms show ?thesis by simp
next
  case (snoc ys y)
  have "chain h' a ys y = chain h a ys y"
    by (rule chain_cong) (use assms snoc in auto)
  with assms snoc show ?thesis by simp
qed

lemma list_del_dll:
  assumes q: "dll h q (xs @ x # ys)"
  shows "\<exists>h'. list_del (Some x) h = Some h' \<and> dll h' q (xs @ ys) \<and>
    nxt h' x = None \<and> prv h' x = None \<and>
    same_links (- insert q (set (xs @ x # ys))) h h'"
proof -
  define a where "a = last (q # xs)"
  define b where "b = hd (ys @ [q])"
  have l: "chain h q xs x" and r: "chain h x ys q"
    and d: "distinct (q # xs @ x # ys)"
    using q by (auto simp: dll_def)
  have ain: "a \<in> set (q # xs)" and bin: "b \<in> set (ys @ [q])"
    unfolding a_def b_def by (simp, cases ys, auto)
  have "prv h x = Some a" and "nxt h x = Some b"
    using chain_first_last(2) [OF l] chain_first_last(1) [OF r] by (simp_all add: a_def b_def)
  moreover have "x \<noteq> a" and "x \<noteq> b" using ain bin d by auto
  ultimately obtain h' where h': "list_del (Some x) h = Some h'"
    and n': "nxt h' = (nxt h)(a := Some b, x := None)"
    and p': "prv h' = (prv h)(b := Some a, x := None)"
    using list_del_links by metis
  have "dll h' q (xs @ ys)"
  proof (cases ys)
    case Nil
    have "chain h' q xs q"
      by (rule chain_relink_right [OF l])
         (use d n' p' \<open>x \<noteq> a\<close> \<open>x \<noteq> b\<close> Nil in \<open>auto simp: a_def b_def\<close>)
    with d Nil show ?thesis by (simp add: dll_def)
  next
    case (Cons y zs)
    have "chain h' q xs y"
      by (rule chain_relink_right [OF l])
         (use d n' p' \<open>x \<noteq> a\<close> \<open>x \<noteq> b\<close> Cons in \<open>auto simp: a_def b_def\<close>)
    moreover have "chain h' y zs q = chain h y zs q"
      by (rule chain_cong) (use d n' p' ain Cons in \<open>auto simp: b_def\<close>)
    ultimately show ?thesis using r d Cons by (auto simp: dll_def)
  qed
  moreover have "same_links (- insert q (set (xs @ x # ys))) h h'"
    using n' p' ain bin by (auto simp: same_links_def)
  moreover have "nxt h' x = None" and "prv h' x = None"
    using n' p' by simp_all
  ultimately show ?thesis using h' by blast
qed

section \<open>Traversal\<close>

text \<open>
  \<open>list_for_each\<close> over a well-formed list whose body leaves the links alone visits every
  element once, in order, and stops; the body may return early.
\<close>

fun visit :: "('a \<Rightarrow> 's \<Rightarrow> ('r option \<times> 's) option) \<Rightarrow> 'a list \<Rightarrow> 's \<Rightarrow> ('r option \<times> 's) option" where
  "visit body [] s = Some (None, s)"
| "visit body (x # xs) s = do {
     (r, s) \<leftarrow> body x s;
     (case r of Some v \<Rightarrow> Some (Some v, s) | None \<Rightarrow> visit body xs s)
   }"

lemma list_for_each_from_visit:
  assumes "chain (hp s) a xs q" and "q \<notin> set xs"
    and links: "\<And>x s r s'. body (Some x) s = Some (r, s') \<Longrightarrow> hp s' = hp s"
  shows "list_for_each_from hp (Some q) body (nxt (hp s) a) s =
    visit (\<lambda>x. body (Some x)) xs s"
  using assms(1,2)
proof (induction xs arbitrary: a s)
  case Nil
  then show ?case by (simp add: list_for_each_from.simps)
next
  case (Cons x xs)
  show ?case
  proof (cases "body (Some x) s")
    case None
    with Cons.prems show ?thesis by (auto simp: list_for_each_from.simps)
  next
    case (Some rs)
    obtain r s' where rs: "rs = (r, s')" by (cases rs)
    have hp': "hp s' = hp s" using links Some rs by blast
    have "list_for_each_from hp (Some q) body (nxt (hp s') x) s' =
        visit (\<lambda>x. body (Some x)) xs s'"
      by (rule Cons.IH) (use Cons.prems hp' in auto)
    with Cons.prems Some rs show ?thesis
      by (auto simp: list_for_each_from.simps [of hp "Some q" body "Some x" s] load_next_def
          split: option.split)
  qed
qed

lemma list_for_each_visit:
  assumes "dll (hp s) q xs"
    and "\<And>x s r s'. body (Some x) s = Some (r, s') \<Longrightarrow> hp s' = hp s"
  shows "list_for_each hp (Some q) body s = visit (\<lambda>x. body (Some x)) xs s"
proof -
  have "list_for_each_from hp (Some q) body (nxt (hp s) q) s = visit (\<lambda>x. body (Some x)) xs s"
    by (rule list_for_each_from_visit) (use assms in \<open>auto simp: dll_def\<close>)
  then show ?thesis by (simp add: list_for_each_def load_next_def)
qed

section \<open>The interface the scheduler uses\<close>

text \<open>
  A queue system is a store together with a map from queue heads to the nodes they hold;
  the heads and the nodes of distinct queues are disjoint.
\<close>

definition nodes :: "('n \<rightharpoonup> 'n list) \<Rightarrow> 'n set" where
  "nodes A = {x. \<exists>q xs. A q = Some xs \<and> x \<in> insert q (set xs)}"

definition queues :: "('h \<Rightarrow> 'n \<Rightarrow> 'n list \<Rightarrow> bool) \<Rightarrow> 'h \<Rightarrow> ('n \<rightharpoonup> 'n list) \<Rightarrow> bool" where
  "queues Q h A \<longleftrightarrow>
     (\<forall>q xs. A q = Some xs \<longrightarrow> Q h q xs) \<and>
     (\<forall>q r xs ys. A q = Some xs \<longrightarrow> A r = Some ys \<longrightarrow> q \<noteq> r \<longrightarrow>
        insert q (set xs) \<inter> insert r (set ys) = {})"

lemma nodes_sub: "A q = Some xs \<Longrightarrow> insert q (set xs) \<subseteq> nodes A"
  by (auto simp: nodes_def)

lemma queuesD: "queues Q h A \<Longrightarrow> A q = Some xs \<Longrightarrow> Q h q xs"
  by (simp add: queues_def)

lemma queues_disjoint:
  "queues Q h A \<Longrightarrow> A q = Some xs \<Longrightarrow> A r = Some ys \<Longrightarrow> q \<noteq> r \<Longrightarrow>
   insert q (set xs) \<inter> insert r (set ys) = {}"
  by (simp add: queues_def)

locale intrusive_queue =
  fixes Q :: "'h \<Rightarrow> 'n \<Rightarrow> 'n list \<Rightarrow> bool"
    and keep :: "'n set \<Rightarrow> 'h \<Rightarrow> 'h \<Rightarrow> bool"
    and init :: "'n option \<Rightarrow> 'h \<Rightarrow> 'h option"
    and push :: "'n option \<Rightarrow> 'n option \<Rightarrow> 'h \<Rightarrow> 'h option"
    and enq :: "'n option \<Rightarrow> 'n option \<Rightarrow> 'h \<Rightarrow> 'h option"
    and del :: "'n option \<Rightarrow> 'h \<Rightarrow> 'h option"
    and is_empty :: "'n option \<Rightarrow> 'h \<Rightarrow> bool option"
    and first :: "'n option \<Rightarrow> 'h \<Rightarrow> 'n option option"
  assumes Q_keep: "Q h q xs \<Longrightarrow> keep N h h' \<Longrightarrow> insert q (set xs) \<subseteq> N \<Longrightarrow> Q h' q xs"
    and keep_mono: "keep N h h' \<Longrightarrow> M \<subseteq> N \<Longrightarrow> keep M h h'"
    and keep_trans: "keep N h h' \<Longrightarrow> keep N h' h'' \<Longrightarrow> keep N h h''"
    and Q_distinct: "Q h q xs \<Longrightarrow> distinct (q # xs)"
    and init_law: "\<exists>h'. init (Some q) h = Some h' \<and> Q h' q [] \<and> keep (- {q}) h h'"
    and push_law: "Q h q xs \<Longrightarrow> n \<notin> insert q (set xs) \<Longrightarrow>
      \<exists>h'. push (Some n) (Some q) h = Some h' \<and> Q h' q (n # xs) \<and>
        keep (- insert n (insert q (set xs))) h h'"
    and enq_law: "Q h q xs \<Longrightarrow> n \<notin> insert q (set xs) \<Longrightarrow>
      \<exists>h'. enq (Some n) (Some q) h = Some h' \<and> Q h' q (xs @ [n]) \<and>
        keep (- insert n (insert q (set xs))) h h'"
    and del_law: "Q h q (xs @ x # ys) \<Longrightarrow>
      \<exists>h'. del (Some x) h = Some h' \<and> Q h' q (xs @ ys) \<and>
        keep (- insert q (set (xs @ x # ys))) h h'"
    and empty_law: "Q h q xs \<Longrightarrow> is_empty (Some q) h = Some (xs = [])"
    and first_law: "Q h q (x # xs) \<Longrightarrow> first (Some q) h = Some (Some x)"
begin

lemma queues_update:
  assumes "queues Q h A" and "A q = Some xs" and "Q h' q ys"
    and "keep (- (insert q (set xs) \<union> insert q (set ys))) h h'"
    and "set ys \<inter> (nodes A - insert q (set xs)) = {}"
  shows "queues Q h' (A(q \<mapsto> ys))"
proof -
  have other: "Q h' r zs" if r: "A r = Some zs" "r \<noteq> q" for r zs
  proof -
    have "insert q (set xs) \<inter> insert r (set zs) = {}"
      using queues_disjoint [OF assms(1,2)] r by blast
    moreover have "set ys \<inter> insert r (set zs) = {}"
      using assms(5) nodes_sub [of A, OF r(1)] calculation by blast
    ultimately have "insert r (set zs) \<subseteq> - (insert q (set xs) \<union> insert q (set ys))"
      by auto
    with queuesD [OF assms(1) r(1)] assms(4) show ?thesis by (rule Q_keep)
  qed
  have disj: "insert q (set ys) \<inter> insert r (set zs) = {}" if r: "A r = Some zs" "r \<noteq> q" for r zs
    using queues_disjoint [OF assms(1,2)] assms(5) nodes_sub [of A, OF r(1)] r by blast
  show ?thesis
    unfolding queues_def
    using other disj assms(3) queues_disjoint [OF assms(1)]
    by (auto simp: fun_upd_apply split: if_splits) blast+
qed

lemma queues_enq:
  assumes "queues Q h A" and "A q = Some xs" and "n \<notin> nodes A"
  shows "\<exists>h'. enq (Some n) (Some q) h = Some h' \<and> queues Q h' (A(q \<mapsto> xs @ [n])) \<and>
    keep (- insert n (nodes A)) h h'"
proof -
  have "n \<notin> insert q (set xs)" using assms(3) nodes_sub [of A, OF assms(2)] by blast
  with queuesD [OF assms(1,2)] obtain h' where
    h': "enq (Some n) (Some q) h = Some h'" "Q h' q (xs @ [n])"
      "keep (- insert n (insert q (set xs))) h h'"
    using enq_law by blast
  have "queues Q h' (A(q \<mapsto> xs @ [n]))"
  proof (rule queues_update [OF assms(1,2) h'(2)])
    show "keep (- (insert q (set xs) \<union> insert q (set (xs @ [n])))) h h'"
      by (rule keep_mono [OF h'(3)]) auto
  qed (use assms(3) in auto)
  moreover have "keep (- insert n (nodes A)) h h'"
    by (rule keep_mono [OF h'(3)]) (use nodes_sub [of A, OF assms(2)] in auto)
  ultimately show ?thesis using h'(1) by blast
qed

lemma queues_push:
  assumes "queues Q h A" and "A q = Some xs" and "n \<notin> nodes A"
  shows "\<exists>h'. push (Some n) (Some q) h = Some h' \<and> queues Q h' (A(q \<mapsto> n # xs)) \<and>
    keep (- insert n (nodes A)) h h'"
proof -
  have "n \<notin> insert q (set xs)" using assms(3) nodes_sub [of A, OF assms(2)] by blast
  with queuesD [OF assms(1,2)] obtain h' where
    h': "push (Some n) (Some q) h = Some h'" "Q h' q (n # xs)"
      "keep (- insert n (insert q (set xs))) h h'"
    using push_law by blast
  have "queues Q h' (A(q \<mapsto> n # xs))"
  proof (rule queues_update [OF assms(1,2) h'(2)])
    show "keep (- (insert q (set xs) \<union> insert q (set (n # xs)))) h h'"
      by (rule keep_mono [OF h'(3)]) auto
  qed (use assms(3) in auto)
  moreover have "keep (- insert n (nodes A)) h h'"
    by (rule keep_mono [OF h'(3)]) (use nodes_sub [of A, OF assms(2)] in auto)
  ultimately show ?thesis using h'(1) by blast
qed

lemma queues_del:
  assumes "queues Q h A" and "A q = Some (xs @ x # ys)"
  shows "\<exists>h'. del (Some x) h = Some h' \<and> queues Q h' (A(q \<mapsto> xs @ ys)) \<and>
    keep (- nodes A) h h'"
proof -
  obtain h' where h': "del (Some x) h = Some h'" "Q h' q (xs @ ys)"
      "keep (- insert q (set (xs @ x # ys))) h h'"
    using del_law [OF queuesD [OF assms]] by blast
  have "queues Q h' (A(q \<mapsto> xs @ ys))"
  proof (rule queues_update [OF assms h'(2)])
    show "keep (- (insert q (set (xs @ x # ys)) \<union> insert q (set (xs @ ys)))) h h'"
      by (rule keep_mono [OF h'(3)]) auto
  qed auto
  moreover have "keep (- nodes A) h h'"
    by (rule keep_mono [OF h'(3)]) (use nodes_sub [of A, OF assms(2)] in auto)
  ultimately show ?thesis using h'(1) by blast
qed

lemma queues_init:
  assumes "queues Q h A" and "q \<notin> nodes A"
  shows "\<exists>h'. init (Some q) h = Some h' \<and> queues Q h' (A(q \<mapsto> [])) \<and> keep (- {q}) h h'"
proof -
  obtain h' where h': "init (Some q) h = Some h'" "Q h' q []" "keep (- {q}) h h'"
    using init_law by blast
  have "Q h' r zs" if r: "A r = Some zs" for r zs
    by (rule Q_keep [OF queuesD [OF assms(1) r] h'(3)]) (use nodes_sub [of A, OF r] assms(2) in auto)
  moreover have "q \<notin> insert r (set zs)" if r: "A r = Some zs" for r zs
    using nodes_sub [of A, OF r] assms(2) by blast
  ultimately have "queues Q h' (A(q \<mapsto> []))"
    using h'(2) assms(1) by (auto simp: queues_def)
  with h' show ?thesis by blast
qed

lemma queues_keep:
  assumes "queues Q h A" and "keep (nodes A) h h'"
  shows "queues Q h' A"
  unfolding queues_def
  using Q_keep [OF queuesD [OF assms(1)] assms(2) nodes_sub] assms(1)
  by (auto simp: queues_def)

lemma queues_first:
  "queues Q h A \<Longrightarrow> A q = Some (x # xs) \<Longrightarrow> first (Some q) h = Some (Some x)"
  by (rule first_law) (rule queuesD)

lemma queues_empty:
  "queues Q h A \<Longrightarrow> A q = Some xs \<Longrightarrow> is_empty (Some q) h = Some (xs = [])"
  by (rule empty_law) (rule queuesD)

lemma queues_member_unique:
  assumes "queues Q h A" and "A q = Some (xs @ x # ys)"
  shows "x \<notin> nodes (A(q \<mapsto> xs @ ys))"
proof
  assume "x \<in> nodes (A(q \<mapsto> xs @ ys))"
  then obtain r zs where r: "(A(q \<mapsto> xs @ ys)) r = Some zs" "x \<in> insert r (set zs)"
    by (auto simp: nodes_def)
  show False
  proof (cases "r = q")
    case True
    with r Q_distinct [OF queuesD [OF assms]] show False by auto
  next
    case False
    with r have "A r = Some zs" by simp
    with queues_disjoint [OF assms] False r(2) show False by auto
  qed
qed

end

interpretation lq: intrusive_queue dll same_links INIT_LIST_HEAD list_add list_add_tail list_del
  list_empty list_first
proof (unfold_locales, goal_cases)
  case (1 h q xs N h')
  then show ?case using dll_cong [of q xs h h'] same_links_mono [of N h h'] by simp
next
  case (4 h q xs)
  then show ?case by (simp add: dll_def)
next
  case (8 h q xs x ys)
  from list_del_dll [OF this] show ?case by blast
qed (blast intro: same_links_mono same_links_trans init_list_head_dll list_add_dll
    list_add_tail_dll list_empty_dll list_first_dll)+

section \<open>Properties\<close>

text \<open>C31. The intrusive list implements a sequence: on a list that holds the nodes \<open>xs\<close>, \<open>list_add_tail\<close> and
  \<open>list_add\<close> insert a new node at the end and at the front, \<open>list_del\<close> removes any node and leaves the
  others in their order, \<open>list_empty\<close> and \<open>list_first\<close> answer for the sequence, and no routine touches
  a node of another list.\<close>

theorem list_refines_sequence:
  assumes "dll h q xs" and "n \<notin> insert q (set xs)"
  shows "(\<exists>h'. list_add_tail (Some n) (Some q) h = Some h' \<and> dll h' q (xs @ [n]) \<and>
      same_links (- insert n (insert q (set xs))) h h') \<and>
    (\<exists>h'. list_add (Some n) (Some q) h = Some h' \<and> dll h' q (n # xs) \<and>
      same_links (- insert n (insert q (set xs))) h h') \<and>
    (\<forall>x\<in>set xs. \<exists>h'. list_del (Some x) h = Some h' \<and> dll h' q (remove1 x xs) \<and>
      same_links (- insert q (set xs)) h h') \<and>
    list_empty (Some q) h = Some (xs = []) \<and> (xs \<noteq> [] \<longrightarrow> list_first (Some q) h = Some (Some (hd xs)))"
proof (intro conjI ballI impI)
  fix x assume "x \<in> set xs"
  then obtain ys zs where xs: "xs = ys @ x # zs" "x \<notin> set ys" by (metis split_list_first)
  then show "\<exists>h'. list_del (Some x) h = Some h' \<and> dll h' q (remove1 x xs) \<and> same_links (- insert q (set xs)) h h'"
    using lq.del_law [of h q ys x zs] assms(1) by (simp add: remove1_append)
next
  assume "xs \<noteq> []"
  then show "list_first (Some q) h = Some (Some (hd xs))"
    using lq.first_law [of h q "hd xs" "tl xs"] assms(1) by simp
qed (rule lq.enq_law [OF assms] lq.push_law [OF assms] lq.empty_law [OF assms(1)])+

theorem list_refines_sequence_witness:
  "\<exists>h h' h''. dll h 0 [1 :: nat] \<and> list_add_tail (Some 2) (Some 0) h = Some h' \<and> dll h' 0 [1, 2] \<and>
    list_del (Some 1) h = Some h'' \<and> dll h'' 0 []"
proof -
  obtain h0 where h0: "dll h0 0 ([] :: nat list)"
    using init_list_head_dll [of 0 "\<lparr>nxt = (\<lambda>_. None), prv = (\<lambda>_. None)\<rparr>"] by blast
  obtain h where h: "dll h 0 [1 :: nat]" using list_refines_sequence [OF h0, of 1] by auto
  from list_refines_sequence [OF h, of 2] h show ?thesis by fastforce
qed

end
