(* ===== verification/Zeos_Screen.thy ===== *)
theory Zeos_Screen
  imports Zeos_Prelude
begin

text \<open>
  The text console of \<^verbatim>\<open>io.c\<close> and the device-dependent write of \<^verbatim>\<open>devices.c\<close>. The state
  is the cursor (the two \<open>Byte\<close> globals \<open>x\<close> and \<open>y\<close>), the character cells of the video
  memory at \<open>0xb8000\<close> and the bytes sent to the Bochs debug port \<open>0xe9\<close>. The port reads
  of \<open>inb\<close> are inputs of the routines that use them.
\<close>

section \<open>State and routines\<close>

definition NUM_COLUMNS :: nat where "NUM_COLUMNS = 80"
definition NUM_ROWS :: nat where "NUM_ROWS = 25"

record screen =
  cx :: Byte
  cy :: Byte
  cell :: "nat \<Rightarrow> WORD"
  port_e9 :: "Byte list"

definition initial_screen :: "(nat \<Rightarrow> WORD) \<Rightarrow> screen" where
  "initial_screen v = \<lparr>cx = 0, cy = 19, cell = v, port_e9 = []\<rparr>"

definition newline :: "screen \<Rightarrow> screen" where
  "newline s = s\<lparr>cx := 0, cy := of_nat ((unat (cy s) + 1) mod NUM_ROWS)\<rparr>"

definition printc :: "Byte \<Rightarrow> screen \<Rightarrow> screen" where
  "printc c s =
     (let s = s\<lparr>port_e9 := port_e9 s @ [c]\<rparr> in
      if c = 10 then newline s
      else
        let ch = (ucast c AND 0x00FF) OR 0x0200;
            s = s\<lparr>cell := (cell s)(unat (cy s) * NUM_COLUMNS + unat (cx s) := ch)\<rparr>;
            s = s\<lparr>cx := cx s + 1\<rparr>
        in if unat (cx s) \<ge> NUM_COLUMNS then newline s else s)"

definition printc_xy :: "Byte \<Rightarrow> Byte \<Rightarrow> Byte \<Rightarrow> screen \<Rightarrow> screen" where
  "printc_xy mx my c s = (printc c (s\<lparr>cx := mx, cy := my\<rparr>))\<lparr>cx := cx s, cy := cy s\<rparr>"

text \<open>
  A C string is the list of its bytes up to the terminating zero; \<open>printk\<close> stops at the
  first zero byte.
\<close>

fun printk :: "Byte list \<Rightarrow> screen \<Rightarrow> screen" where
  "printk [] s = s"
| "printk (c # cs) s = (if c = 0 then s else printk cs (printc c s))"

definition clear_screen :: "screen \<Rightarrow> screen" where
  "clear_screen s =
     fold (\<lambda>i. fold (\<lambda>j. printc_xy (of_nat i) (of_nat j) 32) [0..<25]) [0..<80] s"

text \<open>\<open>sys_write_console(buffer, size)\<close>: \<open>buffer\<close> is the function \<open>i \<mapsto> buffer[i]\<close>.\<close>

definition sys_write_console :: "(nat \<Rightarrow> Byte) \<Rightarrow> int \<Rightarrow> screen \<Rightarrow> int \<times> screen" where
  "sys_write_console buffer n s = (n, fold (\<lambda>i. printc (buffer i)) [0..<nat n] s)"

section \<open>The cursor stays on the screen\<close>

definition cursor_ok :: "screen \<Rightarrow> bool" where
  "cursor_ok s \<longleftrightarrow> unat (cx s) < NUM_COLUMNS \<and> unat (cy s) < NUM_ROWS"

lemma unat_small_Byte: "n < 256 \<Longrightarrow> unat (of_nat n :: Byte) = n"
  by (simp add: unsigned_of_nat take_bit_nat_eq_self)

lemma unat_Byte_Suc: "unat (b :: Byte) < 255 \<Longrightarrow> unat (b + 1) = unat b + 1"
  by (simp add: unat_word_ariths)

lemma newline_ok: "cursor_ok (newline s)"
  by (simp add: cursor_ok_def newline_def NUM_ROWS_def NUM_COLUMNS_def unat_small_Byte)

lemma printc_ok: "cursor_ok s \<Longrightarrow> cursor_ok (printc c s)"
  by (auto simp: printc_def Let_def newline_ok)
     (auto simp: cursor_ok_def NUM_ROWS_def NUM_COLUMNS_def)

lemma printc_xy_cursor [simp]:
  "cx (printc_xy mx my c s) = cx s" "cy (printc_xy mx my c s) = cy s"
  by (simp_all add: printc_xy_def)

lemma printk_ok: "cursor_ok s \<Longrightarrow> cursor_ok (printk cs s)"
  by (induction cs s rule: printk.induct) (auto simp: printc_ok)

lemma console_ok: "cursor_ok s \<Longrightarrow> cursor_ok (snd (sys_write_console b n s))"
proof -
  have "cursor_ok s \<Longrightarrow> cursor_ok (fold (\<lambda>i. printc (b i)) is s)" for "is"
    by (induction "is" arbitrary: s) (auto simp: printc_ok)
  then show "cursor_ok s \<Longrightarrow> ?thesis" by (simp add: sys_write_console_def)
qed

section \<open>What is written\<close>

lemma newline_out [simp]: "port_e9 (newline s) = port_e9 s" "cell (newline s) = cell s"
  by (simp_all add: newline_def)

lemma port_printc [simp]: "port_e9 (printc c s) = port_e9 s @ [c]"
  by (simp add: printc_def Let_def)

lemma port_console:
  "port_e9 (snd (sys_write_console b n s)) = port_e9 s @ map b [0..<nat n]"
proof -
  have "port_e9 (fold (\<lambda>i. printc (b i)) is s) = port_e9 s @ map b is" for "is"
    by (induction "is" arbitrary: s) auto
  then show ?thesis by (simp add: sys_write_console_def)
qed

lemma port_printk: "port_e9 (printk cs s) = port_e9 s @ takeWhile (\<lambda>c. c \<noteq> 0) cs"
  by (induction cs s rule: printk.induct) auto

lemma cell_printc:
  "cell (printc c s) =
     (if c = 10 then cell s
      else (cell s)(unat (cy s) * NUM_COLUMNS + unat (cx s) := (ucast c AND 0x00FF) OR 0x0200))"
  by (simp add: printc_def Let_def)

lemma printc_cell_bounds:
  assumes "cursor_ok s" and "cell (printc c s) k \<noteq> cell s k"
  shows "k < NUM_ROWS * NUM_COLUMNS"
proof -
  from assms(2) have "k = unat (cy s) * NUM_COLUMNS + unat (cx s)"
    by (auto simp: cell_printc split: if_splits)
  with assms(1) show ?thesis
    by (auto simp: cursor_ok_def NUM_ROWS_def NUM_COLUMNS_def)
qed

definition blank :: WORD where
  "blank = (ucast (32 :: Byte) AND 0x00FF) OR 0x0200"

lemma cell_printc_xy_space:
  "i < 80 \<Longrightarrow> j < 25 \<Longrightarrow>
   cell (printc_xy (of_nat i) (of_nat j) 32 s) = (cell s)(j * 80 + i := blank)"
  by (simp add: printc_xy_def cell_printc NUM_COLUMNS_def blank_def unat_small_Byte)

lemma cell_clear_column:
  "i < 80 \<Longrightarrow> set js \<subseteq> {..<25} \<Longrightarrow>
   cell (fold (\<lambda>j. printc_xy (of_nat i) (of_nat j) 32) js s) k =
     (if \<exists>j\<in>set js. k = j * 80 + i then blank else cell s k)"
  by (induction js arbitrary: s) (auto simp: cell_printc_xy_space)

lemma cell_clear_columns:
  "set is \<subseteq> {..<80} \<Longrightarrow>
   cell (fold (\<lambda>i. fold (\<lambda>j. printc_xy (of_nat i) (of_nat j) 32) [0..<25]) is s) k =
     (if \<exists>i\<in>set is. \<exists>j<25. k = j * 80 + i then blank else cell s k)"
  by (induction "is" arbitrary: s) (auto simp: cell_clear_column atLeast0LessThan)

lemma cursor_clear_screen [simp]:
  "cx (clear_screen s) = cx s" "cy (clear_screen s) = cy s"
proof -
  have col: "cx (fold (\<lambda>j. printc_xy a (of_nat j) 32) js s) = cx s \<and>
      cy (fold (\<lambda>j. printc_xy a (of_nat j) 32) js s) = cy s" for a js s
    by (induction js arbitrary: s) auto
  have "cx (fold (\<lambda>i. fold (\<lambda>j. printc_xy (of_nat i) (of_nat j) 32) [0..<25]) is s) = cx s \<and>
      cy (fold (\<lambda>i. fold (\<lambda>j. printc_xy (of_nat i) (of_nat j) 32) [0..<25]) is s) = cy s" for "is"
    by (induction "is" arbitrary: s) (auto simp: col)
  then show "cx (clear_screen s) = cx s" and "cy (clear_screen s) = cy s"
    by (simp_all add: clear_screen_def)
qed

lemma cell_clear_screen:
  "cell (clear_screen s) k = (if k < NUM_ROWS * NUM_COLUMNS then blank else cell s k)"
proof -
  have "(\<exists>i\<in>set [0..<80]. \<exists>j<25. k = j * 80 + i) \<longleftrightarrow> k < 2000"
  proof
    assume "k < 2000"
    then have "k mod 80 < 80" "k div 80 < 25" "k = k div 80 * 80 + k mod 80" by auto
    then show "\<exists>i\<in>set [0..<80]. \<exists>j<25. k = j * 80 + i" by (metis atLeastLessThan_iff le0 set_upt)
  qed auto
  then show ?thesis
    using cell_clear_columns [of "[0..<80]" s k]
    by (simp add: clear_screen_def NUM_ROWS_def NUM_COLUMNS_def atLeast0LessThan)
qed

section \<open>Properties\<close>

text \<open>C36. Printing stays on the screen: with the cursor on it, any string leaves the cursor on it and changes
  only cells of the 25 rows of 80 columns, and every printed character, up to the first zero, goes to the
  debug port.\<close>

theorem printing_stays_on_screen:
  assumes "cursor_ok s"
  shows "cursor_ok (printk cs s) \<and> (\<forall>k. cell (printk cs s) k \<noteq> cell s k \<longrightarrow> k < NUM_ROWS * NUM_COLUMNS) \<and>
    port_e9 (printk cs s) = port_e9 s @ takeWhile (\<lambda>c. c \<noteq> 0) cs"
proof (intro conjI allI impI)
  show "cursor_ok (printk cs s)" by (rule printk_ok [OF assms])
  show "port_e9 (printk cs s) = port_e9 s @ takeWhile (\<lambda>c. c \<noteq> 0) cs" by (rule port_printk)
  fix k assume "cell (printk cs s) k \<noteq> cell s k"
  with assms show "k < NUM_ROWS * NUM_COLUMNS"
  proof (induction cs s rule: printk.induct)
    case (2 c cs s)
    show ?case
    proof (cases "cell (printk cs (printc c s)) k = cell (printc c s) k")
      case True
      with 2(3) have "cell (printc c s) k \<noteq> cell s k" by (auto split: if_splits)
      then show ?thesis by (rule printc_cell_bounds [OF 2(2)])
    next
      case False
      moreover have "c \<noteq> 0" using 2(3) by auto
      ultimately show ?thesis using 2(1) printc_ok [OF 2(2)] by blast
    qed
  qed simp
qed

theorem printing_stays_on_screen_witness:
  "cursor_ok (printk (replicate 3000 65) (initial_screen (\<lambda>_. 0))) \<and>
   port_e9 (printk (replicate 3000 65) (initial_screen (\<lambda>_. 0))) = replicate 3000 65"
proof -
  have "cursor_ok (initial_screen (\<lambda>_. 0))" by (simp add: cursor_ok_def initial_screen_def NUM_ROWS_def NUM_COLUMNS_def)
  from printing_stays_on_screen [OF this, of "replicate 3000 65"] show ?thesis
    by (simp add: initial_screen_def takeWhile_replicate)
qed

end
