(* ===== verification/Zeos_Machine.thy ===== *)
theory Zeos_Machine
  imports Zeos_Mm Zeos_Mem Zeos_List Zeos_Screen
begin

text \<open>
  The machine state the multiprocess kernels share: the memory management state, the
  contents of the physical frames, the kernel stacks of the task array, the links of every
  list head, the registers a context switch touches, the time-stamp counter and the
  console. Each kernel extends the record with its own globals.

  A word of a kernel stack is a number, the address of a routine or the address of a stack
  word, so that return addresses and frame pointers keep their meaning. The stack pointer
  is a pair of a task slot and a word index: masking it with \<open>0xfffff000\<close>, as \<open>current\<close>
  does, is taking the slot. Frames of C functions between a system call and
  \<open>task_switch\<close> are collapsed to the one return address that leads back to the handler.
\<close>

section \<open>State\<close>

datatype node = Freequeue | Readyqueue | Blocked | TaskList nat | TaskKids nat

datatype kword = Num DWord | CodeAddr string | StackAddr nat nat

datatype state_t = ST_RUN | ST_READY | ST_BLOCKED

definition KERNEL_STACK_SIZE :: nat where "KERNEL_STACK_SIZE = 1024"

record machine = mm_state +
  fmem :: "DWord \<Rightarrow> nat \<Rightarrow> Byte"     \<comment> \<open>frame number, offset\<close>
  stacks :: "nat \<Rightarrow> nat \<Rightarrow> kword"     \<comment> \<open>task slot, word index\<close>
  links :: "node lheap"
  esp :: "nat \<times> nat"
  ebp :: kword
  ebx :: kword
  esi :: kword
  edi :: kword
  eax :: int
  eip :: kword
  tss_esp0 :: "nat \<times> nat"
  msr_175 :: "nat \<times> nat"
  tsc :: "nat \<Rightarrow> DWord \<times> DWord"
  tsc_pos :: nat
  scr :: screen

section \<open>Stack, time and address translation\<close>

definition current :: "'a machine_scheme \<Rightarrow> nat" where
  "current s = fst (esp s)"

definition set_stack :: "nat \<Rightarrow> nat \<Rightarrow> kword \<Rightarrow> 'a machine_scheme \<Rightarrow> 'a machine_scheme" where
  "set_stack t i w s = s\<lparr>stacks := (stacks s)(t := (stacks s t)(i := w))\<rparr>"

definition push :: "kword \<Rightarrow> 'a machine_scheme \<Rightarrow> 'a machine_scheme" where
  "push w s = (let (t, i) = esp s in (set_stack t (i - 1) w s)\<lparr>esp := (t, i - 1)\<rparr>)"

definition top :: "'a machine_scheme \<Rightarrow> kword" where
  "top s = stacks s (fst (esp s)) (snd (esp s))"

definition drop_words :: "nat \<Rightarrow> 'a machine_scheme \<Rightarrow> 'a machine_scheme" where
  "drop_words n s = s\<lparr>esp := (fst (esp s), snd (esp s) + n)\<rparr>"

text \<open>\<open>rdtsc\<close> reads the counter, an input of the machine; each read consumes one value.\<close>

definition read_ticks :: "'a machine_scheme \<Rightarrow> (DWord \<times> 'a machine_scheme) option" where
  "read_ticks s =
     (let (lo, hi) = tsc s (tsc_pos s) in
      map_option (\<lambda>t. (t, s\<lparr>tsc_pos := tsc_pos s + 1\<rparr>)) (get_ticks lo hi))"

text \<open>
  \<open>translate s p\<close> is the frame the processor finds for the logical page \<open>p\<close> in the address
  space of \<open>cr3\<close>; \<open>None\<close> is a page fault, whose routine halts the kernel.
\<close>

definition translate :: "'a mm_state_scheme \<Rightarrow> nat \<Rightarrow> DWord option" where
  "translate s p =
     (let d = pt s (cr3 s) (p div 1024); e = pt s (pte_pbase_addr d) (p mod 1024) in
      if pte_present d = 0 \<or> pte_present e = 0 then None else Some (pte_pbase_addr e))"

text \<open>
  \<open>copy_data((void*)(src<<12), (void*)(dst<<12), PAGE_SIZE)\<close> between two pages of the
  running address space.
\<close>

definition copy_page :: "nat \<Rightarrow> nat \<Rightarrow> 'a machine_scheme \<Rightarrow> 'a machine_scheme option" where
  "copy_page src dst s = do {
     f \<leftarrow> translate s src;
     g \<leftarrow> translate s dst;
     Some (s\<lparr>fmem := (fmem s)(g := fmem s f)\<rparr>)
   }"

section \<open>The context switch of \<^verbatim>\<open>kernel-utils.S\<close>\<close>

text \<open>
  \<open>task_switch\<close> up to the body of \<open>inner_task_switch\<close>, the stack exchange of
  \<open>switch_stack\<close>, and the rest of \<open>task_switch\<close>, which runs when the suspended task is
  switched to again.
\<close>

definition push_reg :: "('a machine_scheme \<Rightarrow> kword) \<Rightarrow> 'a machine_scheme \<Rightarrow> 'a machine_scheme" where
  "push_reg r s = push (r s) s"

definition movl_esp_ebp :: "'a machine_scheme \<Rightarrow> 'a machine_scheme" where
  "movl_esp_ebp s = s\<lparr>ebp := StackAddr (fst (esp s)) (snd (esp s))\<rparr>"

definition pop_ebp :: "'a machine_scheme \<Rightarrow> 'a machine_scheme" where
  "pop_ebp s = drop_words 1 (s\<lparr>ebp := top s\<rparr>)"
definition pop_ebx :: "'a machine_scheme \<Rightarrow> 'a machine_scheme" where
  "pop_ebx s = drop_words 1 (s\<lparr>ebx := top s\<rparr>)"
definition pop_esi :: "'a machine_scheme \<Rightarrow> 'a machine_scheme" where
  "pop_esi s = drop_words 1 (s\<lparr>esi := top s\<rparr>)"
definition pop_edi :: "'a machine_scheme \<Rightarrow> 'a machine_scheme" where
  "pop_edi s = drop_words 1 (s\<lparr>edi := top s\<rparr>)"
definition ret :: "'a machine_scheme \<Rightarrow> 'a machine_scheme" where
  "ret s = drop_words 1 (s\<lparr>eip := top s\<rparr>)"

definition task_switch_entry :: "'a machine_scheme \<Rightarrow> 'a machine_scheme" where
  "task_switch_entry =
     movl_esp_ebp \<circ> push_reg ebp                     \<comment> \<open>prologue of \<open>inner_task_switch\<close>\<close>
     \<circ> push (CodeAddr ''task_switch'')               \<comment> \<open>call inner_task_switch\<close>
     \<circ> push (Num 0)                                  \<comment> \<open>the argument \<open>new\<close>\<close>
     \<circ> push_reg ebx \<circ> push_reg edi \<circ> push_reg esi \<circ> movl_esp_ebp \<circ> push_reg ebp"

definition switch_stack_load :: "nat \<times> nat \<Rightarrow> 'a machine_scheme \<Rightarrow> 'a machine_scheme" where
  "switch_stack_load new_sp s = ret (pop_ebp (s\<lparr>esp := new_sp\<rparr>))"

definition task_switch_exit :: "'a machine_scheme \<Rightarrow> 'a machine_scheme" where
  "task_switch_exit = ret \<circ> pop_ebp \<circ> pop_esi \<circ> pop_edi \<circ> pop_ebx \<circ> drop_words 1"

text \<open>The first code a forked child runs: \<open>ret_from_fork\<close> returns zero to its caller.\<close>

definition ret_from_fork :: "'a machine_scheme \<Rightarrow> 'a machine_scheme" where
  "ret_from_fork s = ret (s\<lparr>eax := 0\<rparr>)"

definition resume :: "'a machine_scheme \<Rightarrow> 'a machine_scheme" where
  "resume s =
     (if eip s = CodeAddr ''task_switch'' then task_switch_exit s
      else if eip s = CodeAddr ''ret_from_fork'' then ret_from_fork s
      else s)"

section \<open>Facts\<close>

lemma push_fields [simp]:
  "ebp (push w s) = ebp s" "ebx (push w s) = ebx s" "esi (push w s) = esi s"
  "edi (push w s) = edi s" "esp (push w s) = (fst (esp s), snd (esp s) - 1)"
  by (simp_all add: push_def set_stack_def case_prod_beta)

lemma push_at:
  "esp s = (t, Suc i) \<Longrightarrow>
   push w s = s\<lparr>stacks := (stacks s)(t := (stacks s t)(i := w)), esp := (t, i)\<rparr>"
  by (simp add: push_def set_stack_def)

lemma pop_at:
  assumes "esp s = (t, i)"
  shows "pop_ebp s = s\<lparr>ebp := stacks s t i, esp := (t, Suc i)\<rparr>"
    and "pop_ebx s = s\<lparr>ebx := stacks s t i, esp := (t, Suc i)\<rparr>"
    and "pop_esi s = s\<lparr>esi := stacks s t i, esp := (t, Suc i)\<rparr>"
    and "pop_edi s = s\<lparr>edi := stacks s t i, esp := (t, Suc i)\<rparr>"
    and "ret s = s\<lparr>eip := stacks s t i, esp := (t, Suc i)\<rparr>"
    and "drop_words 1 s = s\<lparr>esp := (t, Suc i)\<rparr>"
  using assms
  by (simp_all add: pop_ebp_def pop_ebx_def pop_esi_def pop_edi_def ret_def drop_words_def top_def)

lemma read_ticks_total: "\<exists>t. read_ticks s = Some (t, s\<lparr>tsc_pos := tsc_pos s + 1\<rparr>)"
proof -
  obtain lo hi where "tsc s (tsc_pos s) = (lo, hi)" by (cases "tsc s (tsc_pos s)")
  moreover obtain t where "get_ticks lo hi = Some t" using get_ticks_total by blast
  ultimately show ?thesis by (auto simp: read_ticks_def)
qed

text \<open>
  Suspending and resuming: with the callee-saved registers of \<open>s\<close> pushed by
  \<open>task_switch_entry\<close>, loading the saved frame pointer back and running the rest of
  \<open>task_switch\<close> restores them and returns to the caller of \<open>task_switch\<close>.
\<close>

lemma task_switch_entry_at:
  assumes "esp s = (t, k + 7)"
  shows "task_switch_entry s = s\<lparr>esp := (t, k), ebp := StackAddr t k,
    stacks := (stacks s)(t := (stacks s t)(k + 6 := ebp s, k + 5 := esi s, k + 4 := edi s,
       k + 3 := ebx s, k + 2 := Num 0, k + 1 := CodeAddr ''task_switch'',
       k := StackAddr t (k + 6)))\<rparr>"
proof -
  have i: "k + 7 = Suc (Suc (Suc (Suc (Suc (Suc (Suc k))))))" by simp
  show ?thesis
    using assms unfolding i
    by (simp add: task_switch_entry_def push_reg_def movl_esp_ebp_def push_at numeral_eq_Suc)
qed

lemma switch_round_trip:
  assumes "esp s = (t, k + 7)"
    and kept: "\<And>j. k \<le> j \<Longrightarrow> stacks s' t j = stacks (task_switch_entry s) t j"
  defines "r \<equiv> resume (switch_stack_load (t, k) s')"
  shows "ebp r = ebp s" and "ebx r = ebx s" and "esi r = esi s" and "edi r = edi s"
    and "eip r = stacks s t (k + 7)" and "esp r = (t, k + 8)"
proof -
  note st = task_switch_entry_at [OF assms(1)]
  have w: "stacks s' t k = StackAddr t (k + 6)" "stacks s' t (k + 1) = CodeAddr ''task_switch''"
    "stacks s' t (k + 3) = ebx s" "stacks s' t (k + 4) = edi s" "stacks s' t (k + 5) = esi s"
    "stacks s' t (k + 6) = ebp s" "stacks s' t (k + 7) = stacks s t (k + 7)"
    by (simp_all add: kept st)
  show "ebp r = ebp s" "ebx r = ebx s" "esi r = esi s" "edi r = edi s"
    "eip r = stacks s t (k + 7)" "esp r = (t, k + 8)"
    using w unfolding r_def
    by (simp_all add: resume_def switch_stack_load_def task_switch_exit_def pop_at
        numeral_eq_Suc drop_words_def)
qed

text \<open>What a routine of \<^verbatim>\<open>mm.c\<close> leaves alone: everything that is not of the mm state.\<close>

lemma machine_more:
  assumes "mm_state.more s' = mm_state.more s"
  shows "fmem s' = fmem s" "stacks s' = stacks s" "links s' = links s" "esp s' = esp s"
    "ebp s' = ebp s" "ebx s' = ebx s" "esi s' = esi s" "edi s' = edi s" "eax s' = eax s"
    "eip s' = eip s" "tss_esp0 s' = tss_esp0 s" "msr_175 s' = msr_175 s" "tsc s' = tsc s"
    "tsc_pos s' = tsc_pos s" "scr s' = scr s" "machine.more s' = machine.more s"
  using assms by (cases s; cases s'; simp)+

section \<open>The two queues of the task array\<close>

definition task_queues :: "node lheap \<Rightarrow> nat list \<Rightarrow> nat list \<Rightarrow> bool" where
  "task_queues h fs rs \<longleftrightarrow>
     queues dll h [Freequeue \<mapsto> map TaskList fs, Readyqueue \<mapsto> map TaskList rs]"

lemma nodes_two:
  "nodes [Freequeue \<mapsto> map TaskList fs, Readyqueue \<mapsto> map TaskList rs] =
     {Freequeue, Readyqueue} \<union> TaskList ` (set fs \<union> set rs)"
  unfolding nodes_def by (auto split: if_splits)

lemma two_upd:
  "[Freequeue \<mapsto> a, Readyqueue \<mapsto> b](Readyqueue \<mapsto> c) = [Freequeue \<mapsto> a, Readyqueue \<mapsto> c]"
  "[Freequeue \<mapsto> a, Readyqueue \<mapsto> b](Freequeue \<mapsto> c) = [Freequeue \<mapsto> c, Readyqueue \<mapsto> b]"
  by auto

lemma inj_TaskList [simp]: "inj_on TaskList A"
  by (simp add: inj_on_def)

lemma task_queues_distinct: "task_queues h fs rs \<Longrightarrow> distinct (fs @ rs)"
proof -
  assume q: "task_queues h fs rs"
  let ?A = "[Freequeue \<mapsto> map TaskList fs, Readyqueue \<mapsto> map TaskList rs]"
  have f: "?A Freequeue = Some (map TaskList fs)" and r: "?A Readyqueue = Some (map TaskList rs)"
    by auto
  from q have q': "queues dll h ?A" by (simp add: task_queues_def)
  have "distinct fs" "distinct rs"
    using lq.Q_distinct [OF queuesD [OF q' f]] lq.Q_distinct [OF queuesD [OF q' r]]
    by (auto simp: distinct_map)
  moreover have "set fs \<inter> set rs = {}"
    using queues_disjoint [OF q' f r] by auto
  ultimately show ?thesis by simp
qed

lemma ready_empty: "task_queues h fs rs \<Longrightarrow> list_empty (Some Readyqueue) h = Some (rs = [])"
  unfolding task_queues_def by (drule lq.queues_empty [of _ _ Readyqueue]) auto

lemma free_empty: "task_queues h fs rs \<Longrightarrow> list_empty (Some Freequeue) h = Some (fs = [])"
  unfolding task_queues_def by (drule lq.queues_empty [of _ _ Freequeue]) auto

lemma ready_pop:
  assumes "task_queues h fs (t # rs)"
  shows "list_first (Some Readyqueue) h = Some (Some (TaskList t))"
    and "\<exists>h'. list_del (Some (TaskList t)) h = Some h' \<and> task_queues h' fs rs"
proof -
  let ?A = "[Freequeue \<mapsto> map TaskList fs, Readyqueue \<mapsto> map TaskList (t # rs)]"
  have q: "queues dll h ?A" using assms by (simp add: task_queues_def)
  show "list_first (Some Readyqueue) h = Some (Some (TaskList t))"
    by (rule lq.queues_first [OF q]) simp
  have "?A Readyqueue = Some ([] @ TaskList t # map TaskList rs)" by simp
  from lq.queues_del [OF q this, unfolded two_upd]
  show "\<exists>h'. list_del (Some (TaskList t)) h = Some h' \<and> task_queues h' fs rs"
    unfolding task_queues_def by auto
qed

lemma free_pop:
  assumes "task_queues h (t # fs) rs"
  shows "list_first (Some Freequeue) h = Some (Some (TaskList t))"
    and "\<exists>h'. list_del (Some (TaskList t)) h = Some h' \<and> task_queues h' fs rs"
proof -
  let ?A = "[Freequeue \<mapsto> map TaskList (t # fs), Readyqueue \<mapsto> map TaskList rs]"
  have q: "queues dll h ?A" using assms by (simp add: task_queues_def)
  show "list_first (Some Freequeue) h = Some (Some (TaskList t))"
    by (rule lq.queues_first [OF q]) simp
  have "?A Freequeue = Some ([] @ TaskList t # map TaskList fs)" by simp
  from lq.queues_del [OF q this, unfolded two_upd]
  show "\<exists>h'. list_del (Some (TaskList t)) h = Some h' \<and> task_queues h' fs rs"
    unfolding task_queues_def by auto
qed

lemma ready_enq:
  assumes "task_queues h fs rs" and "t \<notin> set fs" and "t \<notin> set rs"
  shows "\<exists>h'. list_add_tail (Some (TaskList t)) (Some Readyqueue) h = Some h' \<and>
    task_queues h' fs (rs @ [t])"
proof -
  let ?A = "[Freequeue \<mapsto> map TaskList fs, Readyqueue \<mapsto> map TaskList rs]"
  have q: "queues dll h ?A" using assms by (simp add: task_queues_def)
  have "?A Readyqueue = Some (map TaskList rs)" "TaskList t \<notin> nodes ?A"
    using assms by (auto simp: nodes_two)
  from lq.queues_enq [OF q this] show ?thesis by (auto simp: task_queues_def two_upd)
qed

lemma free_enq:
  assumes "task_queues h fs rs" and "t \<notin> set fs" and "t \<notin> set rs"
  shows "\<exists>h'. list_add_tail (Some (TaskList t)) (Some Freequeue) h = Some h' \<and>
    task_queues h' (fs @ [t]) rs"
proof -
  let ?A = "[Freequeue \<mapsto> map TaskList fs, Readyqueue \<mapsto> map TaskList rs]"
  have q: "queues dll h ?A" using assms by (simp add: task_queues_def)
  have "?A Freequeue = Some (map TaskList fs)" "TaskList t \<notin> nodes ?A"
    using assms by (auto simp: nodes_two)
  from lq.queues_enq [OF q this] show ?thesis by (auto simp: task_queues_def two_upd)
qed

lemma task_queues_keep:
  assumes "task_queues h fs rs" and "same_links (- {TaskList t}) h h'"
    and "t \<notin> set fs" and "t \<notin> set rs"
  shows "task_queues h' fs rs"
  unfolding task_queues_def
  by (rule lq.queues_keep [OF assms(1) [unfolded task_queues_def]])
     (rule same_links_mono [OF assms(2)], use assms(3,4) in \<open>auto simp: nodes_two\<close>)

end
