(* ===== verification/Game_Sched.thy ===== *)
theory Game_Sched
  imports Zeos_Machine
begin

text \<open>
  Process management of \<^verbatim>\<open>so2_old/GAME/zeos/sched.c\<close> and \<^verbatim>\<open>p_stats.c\<close>: the task array,
  the free and ready queues, the round-robin policy, the per-process statistics and the
  task switch. The record \<open>game\<close> extends the machine state with the globals of that kernel.
\<close>

section \<open>State\<close>

definition DEFAULT_QUANTUM :: int where "DEFAULT_QUANTUM = 10"

record stats =
  user_ticks :: DWord
  system_ticks :: DWord
  blocked_ticks :: DWord
  ready_ticks :: DWord
  elapsed_total_ticks :: DWord
  total_trans :: DWord
  remaining_ticks :: DWord

text \<open>
  The link field \<open>list\<close> of slot \<open>t\<close> is the node \<open>TaskList t\<close> of the link store. A saved
  stack pointer is NULL (\<open>None\<close>) in a slot that was never switched out.
\<close>

record task_struct =
  PID :: int
  dir_pages_baseAddr :: DWord
  register_esp :: "(nat \<times> nat) option"
  state :: state_t
  total_quantum :: int
  p_stats :: stats

record event_t =
  pressed :: int
  scancode :: Byte

record keyboard_buffer =
  events :: "event_t list"
  kb_head :: int
  kb_tail :: int

record kcfg = mm_cfg +
  protected_tasks_at :: nat              \<comment> \<open>page of \<open>protected_tasks[0]\<close>\<close>
  frame_words :: "string \<Rightarrow> nat"         \<comment> \<open>words of the C frames below a handler\<close>
  zeos_show_clock :: "screen \<Rightarrow> screen"  \<comment> \<open>library routine of \<^verbatim>\<open>libzeos.a\<close>\<close>
  after_char_map :: "nat \<Rightarrow> Byte"        \<comment> \<open>the bytes that follow \<open>char_map\<close> in memory\<close>

record game = machine +
  tasks :: "nat \<Rightarrow> task_struct"
  remaining_quantum :: int
  idle_task :: "nat option"
  global_PID :: int
  zeos_ticks :: int
  k_buffer :: keyboard_buffer
  keyboard_vec :: "Byte list"            \<comment> \<open>\<open>keyboard_buffer[128]\<close>\<close>

definition upd_task :: "nat \<Rightarrow> (task_struct \<Rightarrow> task_struct) \<Rightarrow> game \<Rightarrow> game" where
  "upd_task t f s = s\<lparr>tasks := (tasks s)(t := f (tasks s t))\<rparr>"

section \<open>Statistics\<close>

text \<open>\<open>update_stats(&st.v, &st.elapsed_total_ticks)\<close>; \<open>upd\<close> names the field \<open>v\<close>.\<close>

definition charge :: "((DWord \<Rightarrow> DWord) \<Rightarrow> stats \<Rightarrow> stats) \<Rightarrow> DWord \<Rightarrow> stats \<Rightarrow> stats" where
  "charge upd now st =
     (upd (\<lambda>v. v + (now - elapsed_total_ticks st)) st)\<lparr>elapsed_total_ticks := now\<rparr>"

definition update_stats ::
  "((DWord \<Rightarrow> DWord) \<Rightarrow> stats \<Rightarrow> stats) \<Rightarrow> nat \<Rightarrow> game \<Rightarrow> game option" where
  "update_stats upd t s = do {
     (current_ticks, s) \<leftarrow> read_ticks s;
     Some (upd_task t (p_stats_update (charge upd current_ticks)) s)
   }"

definition init_stats :: "nat \<Rightarrow> game \<Rightarrow> game option" where
  "init_stats t s = do {
     (e, s) \<leftarrow> read_ticks s;
     (r, s) \<leftarrow> read_ticks s;
     Some (upd_task t (p_stats_update (\<lambda>_.
       \<lparr>user_ticks = 0, system_ticks = 0, blocked_ticks = 0, ready_ticks = 0,
        elapsed_total_ticks = e, total_trans = 0, remaining_ticks = r\<rparr>)) s)
   }"

section \<open>Task structures\<close>

definition get_DIR :: "nat \<Rightarrow> game \<Rightarrow> DWord" where
  "get_DIR t s = dir_pages_baseAddr (tasks s t)"

definition get_PT :: "nat \<Rightarrow> game \<Rightarrow> DWord" where
  "get_PT t s = pte_pbase_addr (pt s (dir_pages_baseAddr (tasks s t)) 0)"

definition allocate_DIR :: "kcfg \<Rightarrow> nat \<Rightarrow> game \<Rightarrow> int \<times> game" where
  "allocate_DIR C t s =
     (1, upd_task t (dir_pages_baseAddr_update (\<lambda>_. dir_page C t)) s)"

definition get_quantum :: "nat \<Rightarrow> game \<Rightarrow> int" where
  "get_quantum t s = total_quantum (tasks s t)"

definition set_quantum :: "nat \<Rightarrow> int \<Rightarrow> game \<Rightarrow> game" where
  "set_quantum t new_quantum s = upd_task t (total_quantum_update (\<lambda>_. new_quantum)) s"

definition list_head_to_task_struct :: "node option \<Rightarrow> nat option" where
  "list_head_to_task_struct l = (case l of Some (TaskList t) \<Rightarrow> Some t | _ \<Rightarrow> None)"

section \<open>The task switch\<close>

definition stack_ptr :: "kword \<Rightarrow> (nat \<times> nat) option" where
  "stack_ptr w = (case w of StackAddr t i \<Rightarrow> Some (t, i) | _ \<Rightarrow> None)"

definition inner_task_switch :: "nat \<Rightarrow> game \<Rightarrow> game option" where
  "inner_task_switch new s =
     (let new_DIR = get_DIR new s;
          s = s\<lparr>tss_esp0 := (new, KERNEL_STACK_SIZE)\<rparr>;
          s = s\<lparr>msr_175 := (new, KERNEL_STACK_SIZE)\<rparr>;
          s = set_cr3 new_DIR s
      in do {
        new_sp \<leftarrow> register_esp (tasks s new);
        let s = upd_task (current s) (register_esp_update (\<lambda>_. stack_ptr (ebp s))) s;
        Some (switch_stack_load new_sp s)
      })"

definition task_switch :: "nat \<Rightarrow> game \<Rightarrow> game option" where
  "task_switch new s = inner_task_switch new (task_switch_entry s)"

section \<open>Round robin\<close>

definition update_sched_data_rr :: "game \<Rightarrow> game" where
  "update_sched_data_rr s = s\<lparr>remaining_quantum := c_int (remaining_quantum s - 1)\<rparr>"

definition needs_sched_rr :: "game \<Rightarrow> (int \<times> game) option" where
  "needs_sched_rr s = do {
     e \<leftarrow> list_empty (Some Readyqueue) (links s);
     if remaining_quantum s = 0 \<and> \<not> e then Some (1, s)
     else if remaining_quantum s = 0
     then Some (0, s\<lparr>remaining_quantum := get_quantum (current s) s\<rparr>)
     else Some (0, s)
   }"

definition update_process_state_rr :: "nat \<Rightarrow> node option \<Rightarrow> game \<Rightarrow> game option" where
  "update_process_state_rr t dst_queue s = do {
     s \<leftarrow> (if state (tasks s t) \<noteq> ST_RUN
          then map_option (\<lambda>h. s\<lparr>links := h\<rparr>) (list_del (Some (TaskList t)) (links s))
          else Some s);
     if dst_queue \<noteq> None then do {
       h \<leftarrow> list_add_tail (Some (TaskList t)) dst_queue (links s);
       let s = s\<lparr>links := h\<rparr>;
       if dst_queue \<noteq> Some Readyqueue
       then Some (upd_task t (state_update (\<lambda>_. ST_BLOCKED)) s)
       else do {
         s \<leftarrow> update_stats system_ticks_update t s;
         Some (upd_task t (state_update (\<lambda>_. ST_READY)) s)
       }
     }
     else Some (upd_task t (state_update (\<lambda>_. ST_RUN)) s)
   }"

text \<open>The first half of \<open>sched_next_rr\<close>: the task that gets the processor.\<close>

definition pick_next :: "game \<Rightarrow> (nat \<times> game) option" where
  "pick_next s = do {
     empty \<leftarrow> list_empty (Some Readyqueue) (links s);
     if \<not> empty then do {
       e \<leftarrow> list_first (Some Readyqueue) (links s);
       h \<leftarrow> list_del e (links s);
       t \<leftarrow> list_head_to_task_struct e;
       Some (t, s\<lparr>links := h\<rparr>)
     } else do {
       t \<leftarrow> idle_task s;
       Some (t, s)
     }
   }"

definition sched_next_rr :: "game \<Rightarrow> game option" where
  "sched_next_rr s = do {
     (t, s) \<leftarrow> pick_next s;
     let s = upd_task t (state_update (\<lambda>_. ST_RUN)) s;
     let s = s\<lparr>remaining_quantum := get_quantum t s\<rparr>;
     s \<leftarrow> update_stats system_ticks_update (current s) s;
     s \<leftarrow> update_stats ready_ticks_update t s;
     let s = upd_task t (p_stats_update (total_trans_update (\<lambda>n. n + 1))) s;
     task_switch t s
   }"

definition schedule :: "game \<Rightarrow> game option" where
  "schedule s = do {
     let s = update_sched_data_rr s;
     (need, s) \<leftarrow> needs_sched_rr s;
     if need \<noteq> 0 then do {
       s \<leftarrow> update_process_state_rr (current s) (Some Readyqueue) s;
       sched_next_rr s
     } else Some s
   }"

definition force_task_switch :: "game \<Rightarrow> game option" where
  "force_task_switch s = do {
     s \<leftarrow> update_process_state_rr (current s) (Some Readyqueue) s;
     sched_next_rr s
   }"

section \<open>Initialisation\<close>

definition take_free :: "game \<Rightarrow> (nat \<times> game) option" where
  "take_free s = do {
     l \<leftarrow> list_first (Some Freequeue) (links s);
     h \<leftarrow> list_del l (links s);
     c \<leftarrow> list_head_to_task_struct l;
     Some (c, s\<lparr>links := h\<rparr>)
   }"

definition init_idle :: "kcfg \<Rightarrow> game \<Rightarrow> game option" where
  "init_idle C s = do {
     (c, s) \<leftarrow> take_free s;
     let s = upd_task c (PID_update (\<lambda>_. 0)) s;
     let s = upd_task c (total_quantum_update (\<lambda>_. DEFAULT_QUANTUM)) s;
     s \<leftarrow> init_stats c s;
     let (_, s) = allocate_DIR C c s;
     let s = set_stack c (KERNEL_STACK_SIZE - 1) (CodeAddr ''cpu_idle'') s;
     let s = set_stack c (KERNEL_STACK_SIZE - 2) (Num 0) s;
     let s = upd_task c (register_esp_update (\<lambda>_. Some (c, KERNEL_STACK_SIZE - 2))) s;
     Some (s\<lparr>idle_task := Some c\<rparr>)
   }"

definition init_task1 :: "kcfg \<Rightarrow> game \<Rightarrow> game option" where
  "init_task1 C s = do {
     (c, s) \<leftarrow> take_free s;
     let s = upd_task c (PID_update (\<lambda>_. 1)) s;
     let s = upd_task c (total_quantum_update (\<lambda>_. DEFAULT_QUANTUM)) s;
     let s = upd_task c (state_update (\<lambda>_. ST_RUN)) s;
     let s = s\<lparr>remaining_quantum := total_quantum (tasks s c)\<rparr>;
     s \<leftarrow> init_stats c s;
     let (_, s) = allocate_DIR C c s;
     let s = set_user_pages C (get_PT c s) s;
     let s = s\<lparr>tss_esp0 := (c, KERNEL_STACK_SIZE)\<rparr>;
     let s = s\<lparr>msr_175 := (c, KERNEL_STACK_SIZE)\<rparr>;
     Some (set_cr3 (dir_pages_baseAddr (tasks s c)) s)
   }"

fun init_freequeue_from :: "nat list \<Rightarrow> game \<Rightarrow> game option" where
  "init_freequeue_from [] s = Some s"
| "init_freequeue_from (i # is) s = do {
     let s = upd_task i (PID_update (\<lambda>_. -1)) s;
     h \<leftarrow> list_add_tail (Some (TaskList i)) (Some Freequeue) (links s);
     init_freequeue_from is (s\<lparr>links := h\<rparr>)
   }"

definition init_freequeue :: "game \<Rightarrow> game option" where
  "init_freequeue s = do {
     h \<leftarrow> INIT_LIST_HEAD (Some Freequeue) (links s);
     init_freequeue_from [0..<NR_TASKS] (s\<lparr>links := h\<rparr>)
   }"

definition init_sched :: "game \<Rightarrow> game option" where
  "init_sched s = do {
     s \<leftarrow> init_freequeue s;
     h \<leftarrow> INIT_LIST_HEAD (Some Readyqueue) (links s);
     Some (s\<lparr>links := h\<rparr>)
   }"

section \<open>What the scheduler leaves alone\<close>

text \<open>
  The ticks a process has been charged for add up to the time since its statistics were
  started; \<open>started\<close> recovers that instant, and the kernel never moves it.
\<close>

definition started :: "stats \<Rightarrow> DWord" where
  "started st = elapsed_total_ticks st -
     (user_ticks st + system_ticks st + blocked_ticks st + ready_ticks st)"

definition frame_sched :: "game \<Rightarrow> game \<Rightarrow> bool" where
  "frame_sched s s' \<longleftrightarrow>
     pt s' = pt s \<and> phys_mem s' = phys_mem s \<and> cr0 s' = cr0 s \<and> fmem s' = fmem s \<and>
     scr s' = scr s \<and> tsc s' = tsc s \<and> idle_task s' = idle_task s \<and>
     global_PID s' = global_PID s \<and> zeos_ticks s' = zeos_ticks s \<and>
     k_buffer s' = k_buffer s \<and> keyboard_vec s' = keyboard_vec s \<and>
     (\<forall>t. PID (tasks s' t) = PID (tasks s t) \<and>
        dir_pages_baseAddr (tasks s' t) = dir_pages_baseAddr (tasks s t) \<and>
        total_quantum (tasks s' t) = total_quantum (tasks s t) \<and>
        started (p_stats (tasks s' t)) = started (p_stats (tasks s t)))"

lemma frame_sched_refl [simp]: "frame_sched s s"
  by (simp add: frame_sched_def)

lemma frame_sched_trans: "frame_sched s s' \<Longrightarrow> frame_sched s' s'' \<Longrightarrow> frame_sched s s''"
  by (simp add: frame_sched_def)

lemma started_charge [simp]:
  "started (charge user_ticks_update now st) = started st"
  "started (charge system_ticks_update now st) = started st"
  "started (charge blocked_ticks_update now st) = started st"
  "started (charge ready_ticks_update now st) = started st"
  "started (total_trans_update f st) = started st"
  by (simp_all add: started_def charge_def)

lemma update_stats_step:
  "\<exists>now. update_stats upd t s =
     Some (upd_task t (p_stats_update (charge upd now)) (s\<lparr>tsc_pos := tsc_pos s + 1\<rparr>))"
  using read_ticks_total [of s] by (auto simp: update_stats_def)

lemma current_upd [simp]:
  "current (upd_task t f s) = current s" "current (s\<lparr>tsc_pos := n\<rparr>) = current s"
  "current (s\<lparr>links := h\<rparr>) = current s" "current (s\<lparr>remaining_quantum := q\<rparr>) = current s"
  by (simp_all add: current_def upd_task_def)

lemma task_switch_at:
  assumes "esp s = (c, k + 7)" and "register_esp (tasks s t) = Some (t', j)"
  shows "task_switch t s = Some (s\<lparr>
     stacks := stacks (task_switch_entry s),
     esp := (t', j + 2),
     ebp := stacks (task_switch_entry s) t' j,
     eip := stacks (task_switch_entry s) t' (j + 1),
     tss_esp0 := (t, KERNEL_STACK_SIZE), msr_175 := (t, KERNEL_STACK_SIZE),
     cr3 := dir_pages_baseAddr (tasks s t),
     tasks := (tasks s)(c := (tasks s c)\<lparr>register_esp := Some (c, k)\<rparr>)\<rparr>)"
  using assms
  by (simp add: task_switch_def inner_task_switch_def task_switch_entry_at Let_def get_DIR_def
      set_cr3_def upd_task_def current_def stack_ptr_def switch_stack_load_def pop_at)

section \<open>Picking the next task\<close>

definition next_task :: "nat list \<Rightarrow> nat \<Rightarrow> nat" where
  "next_task rs idle = (case rs of [] \<Rightarrow> idle | t # _ \<Rightarrow> t)"

lemma pick_next_spec:
  assumes "task_queues (links s) fs rs" and "idle_task s = Some idle"
  shows "\<exists>h. task_queues h fs (tl rs) \<and>
    pick_next s = Some (next_task rs idle, s\<lparr>links := h\<rparr>)"
proof (cases rs)
  case Nil
  with assms show ?thesis
    by (intro exI [of _ "links s"]) (simp add: next_task_def pick_next_def ready_empty)
next
  case (Cons t rs')
  with assms(1) obtain h where "list_del (Some (TaskList t)) (links s) = Some h"
      "task_queues h fs rs'"
    using ready_pop(2) by metis
  moreover have "list_first (Some Readyqueue) (links s) = Some (Some (TaskList t))"
    using ready_pop(1) assms(1) Cons by metis
  ultimately show ?thesis
    using Cons ready_empty [OF assms(1)]
    by (intro exI [of _ h]) (simp add: next_task_def pick_next_def list_head_to_task_struct_def)
qed

lemma sched_next_rr_spec:
  assumes q: "task_queues (links s) fs rs" and idle: "idle_task s = Some idle"
    and t: "t = next_task rs idle" and sp: "register_esp (tasks s t) = Some (t', j)"
    and c: "esp s = (c, k + 7)"
  obtains s' where "sched_next_rr s = Some s'" and "task_queues (links s') fs (tl rs)"
    and "frame_sched s s'" and "esp s' = (t', j + 2)"
    and "stacks s' = stacks (task_switch_entry s)"
    and "eip s' = stacks s' t' (j + 1)" and "ebp s' = stacks s' t' j"
    and "ebx s' = ebx s" and "esi s' = esi s" and "edi s' = edi s" and "eax s' = eax s"
    and "tss_esp0 s' = (t, KERNEL_STACK_SIZE)" and "msr_175 s' = (t, KERNEL_STACK_SIZE)"
    and "cr3 s' = dir_pages_baseAddr (tasks s t)"
    and "remaining_quantum s' = total_quantum (tasks s t)"
    and "\<And>u. state (tasks s' u) = (if u = t then ST_RUN else state (tasks s u))"
    and "\<And>u. register_esp (tasks s' u) =
      (if u = c then Some (c, k) else register_esp (tasks s u))"
proof -
  obtain h where h: "task_queues h fs (tl rs)" and pick: "pick_next s = Some (t, s\<lparr>links := h\<rparr>)"
    using pick_next_spec [OF q idle] t by blast
  define s1 where "s1 = (upd_task t (state_update (\<lambda>_. ST_RUN)) (s\<lparr>links := h\<rparr>))
     \<lparr>remaining_quantum := total_quantum (tasks s t)\<rparr>"
  obtain n1 where n1: "update_stats system_ticks_update (current s) s1 =
      Some (upd_task (current s) (p_stats_update (charge system_ticks_update n1))
        (s1\<lparr>tsc_pos := tsc_pos s1 + 1\<rparr>))"
    using update_stats_step by blast
  define s2 where "s2 = upd_task (current s) (p_stats_update (charge system_ticks_update n1))
        (s1\<lparr>tsc_pos := tsc_pos s1 + 1\<rparr>)"
  obtain n2 where n2: "update_stats ready_ticks_update t s2 =
      Some (upd_task t (p_stats_update (charge ready_ticks_update n2))
        (s2\<lparr>tsc_pos := tsc_pos s2 + 1\<rparr>))"
    using update_stats_step by blast
  define s3 where "s3 = upd_task t (p_stats_update (total_trans_update (\<lambda>n. n + 1)))
     (upd_task t (p_stats_update (charge ready_ticks_update n2))
        (s2\<lparr>tsc_pos := tsc_pos s2 + 1\<rparr>))"
  have gq: "get_quantum t (upd_task t (state_update (\<lambda>_. ST_RUN)) (s\<lparr>links := h\<rparr>)) =
      total_quantum (tasks s t)"
    by (simp add: get_quantum_def upd_task_def)
  have cur1: "current s1 = current s" by (simp add: s1_def)
  have step: "sched_next_rr s = task_switch t s3"
    unfolding sched_next_rr_def pick
    by (simp add: Let_def gq s1_def [symmetric] cur1 n1 [folded s2_def] n2 s3_def)
  have c3: "esp s3 = (c, k + 7)" using c by (simp add: s3_def s2_def s1_def upd_task_def)
  have sp3: "register_esp (tasks s3 t) = Some (t', j)"
    using sp by (auto simp: s3_def s2_def s1_def upd_task_def)
  have ent: "stacks (task_switch_entry s3) = stacks (task_switch_entry s)"
    using c c3 by (simp add: task_switch_entry_at) (simp add: s3_def s2_def s1_def upd_task_def)
  have fr: "frame_sched s s3"
    by (auto simp: frame_sched_def s3_def s2_def s1_def upd_task_def)
  have st: "state (tasks s3 u) = (if u = t then ST_RUN else state (tasks s u))"
    "register_esp (tasks s3 u) = register_esp (tasks s u)"
    "dir_pages_baseAddr (tasks s3 u) = dir_pages_baseAddr (tasks s u)" for u
    by (auto simp: s3_def s2_def s1_def upd_task_def)
  have misc: "links s3 = h" "remaining_quantum s3 = total_quantum (tasks s t)"
    "ebx s3 = ebx s" "esi s3 = esi s" "edi s3 = edi s" "eax s3 = eax s"
    by (simp_all add: s3_def s2_def s1_def upd_task_def)
  show thesis
    by (rule that, unfold step, rule task_switch_at [OF c3 sp3])
       (use h fr st misc in \<open>auto simp: ent frame_sched_def\<close>)
qed

end
