(* ===== verification/Zeos_Addr.thy ===== *)
theory Zeos_Addr
  imports Zeos_Machine
begin

text \<open>
  The loops by which \<open>sys_fork\<close> and \<open>sys_exit\<close> build and dismantle an address space: the
  data pages of the child are taken from the frame allocator (and given back when one is
  missing), the kernel and code pages are shared with the parent, and the data are copied
  through a temporary mapping in the parent. The loops are the same in \<^verbatim>\<open>GAME\<close> and, up to
  their order, in \<^verbatim>\<open>E1_E2\<close>; they are stated on the common machine state.
\<close>

section \<open>The loops\<close>

definition release_page :: "DWord \<Rightarrow> nat \<Rightarrow> 'a mm_state_scheme \<Rightarrow> 'a mm_state_scheme" where
  "release_page PT p m = del_ss_pag PT p (free_frame (get_frame PT p m) m)"

definition release_data_pages ::
  "'c mm_cfg_scheme \<Rightarrow> DWord \<Rightarrow> nat \<Rightarrow> 'a mm_state_scheme \<Rightarrow> 'a mm_state_scheme" where
  "release_data_pages C PT n m = fold (\<lambda>i. release_page PT (PAG_LOG_INIT_DATA C + i)) [0..<n] m"

fun alloc_data_pages_from ::
  "'c mm_cfg_scheme \<Rightarrow> DWord \<Rightarrow> nat list \<Rightarrow> 'a mm_state_scheme \<Rightarrow> bool \<times> 'a mm_state_scheme" where
  "alloc_data_pages_from C PT [] m = (True, m)"
| "alloc_data_pages_from C PT (pag # pags) m =
     (let (new_ph_pag, m) = alloc_frame m in
      if new_ph_pag \<noteq> -1
      then alloc_data_pages_from C PT pags
             (set_ss_pag PT (PAG_LOG_INIT_DATA C + pag) (word_of_int new_ph_pag) m)
      else (False, release_data_pages C PT pag m))"

definition alloc_data_pages ::
  "'c mm_cfg_scheme \<Rightarrow> DWord \<Rightarrow> 'a mm_state_scheme \<Rightarrow> bool \<times> 'a mm_state_scheme" where
  "alloc_data_pages C PT m = alloc_data_pages_from C PT [0..<NUM_PAG_DATA] m"

definition share_page :: "DWord \<Rightarrow> DWord \<Rightarrow> nat \<Rightarrow> 'a mm_state_scheme \<Rightarrow> 'a mm_state_scheme" where
  "share_page child_PT parent_PT p m = set_ss_pag child_PT p (get_frame parent_PT p m) m"

definition share_kernel_and_code ::
  "'c mm_cfg_scheme \<Rightarrow> DWord \<Rightarrow> DWord \<Rightarrow> 'a mm_state_scheme \<Rightarrow> 'a mm_state_scheme" where
  "share_kernel_and_code C child_PT parent_PT m =
     (let m = fold (share_page child_PT parent_PT) [0..<NUM_PAG_KERNEL] m
      in fold (\<lambda>pag. share_page child_PT parent_PT (PAG_LOG_INIT_CODE C + pag))
           [0..<NUM_PAG_CODE] m)"

text \<open>One page copied through the temporary logical page \<open>tmp\<close> of the parent.\<close>

definition copy_through ::
  "DWord \<Rightarrow> nat \<Rightarrow> nat \<Rightarrow> DWord \<Rightarrow> 'a machine_scheme \<Rightarrow> 'a machine_scheme option" where
  "copy_through parent_PT src tmp frame s = do {
     let s = set_ss_pag parent_PT tmp frame s;
     s \<leftarrow> copy_page src tmp s;
     Some (del_ss_pag parent_PT tmp s)
   }"

fun copy_data_pages ::
  "DWord \<Rightarrow> (nat \<Rightarrow> nat) \<Rightarrow> (nat \<Rightarrow> nat) \<Rightarrow> (nat \<Rightarrow> 'a machine_scheme \<Rightarrow> DWord) \<Rightarrow> nat list \<Rightarrow>
   'a machine_scheme \<Rightarrow> 'a machine_scheme option" where
  "copy_data_pages parent_PT src tmp fr [] s = Some s"
| "copy_data_pages parent_PT src tmp fr (i # is) s = do {
     s \<leftarrow> copy_through parent_PT (src i) (tmp i) (fr i s) s;
     copy_data_pages parent_PT src tmp fr is s
   }"

section \<open>Sharing\<close>

lemma alloc_frame_fields [simp]:
  "pt (snd (alloc_frame m)) = pt m" "cr3 (snd (alloc_frame m)) = cr3 m"
  "cr0 (snd (alloc_frame m)) = cr0 m"
  "mm_state.more (snd (alloc_frame m)) = mm_state.more m"
proof -
  obtain r m' where a: "alloc_frame m = (r, m')" by (cases "alloc_frame m")
  then have "m' = m \<or> (\<exists>f. m' = m\<lparr>phys_mem := (phys_mem m)[f := USED_FRAME]\<rparr>)"
    by (cases rule: alloc_frame_cases) auto
  then show "pt (snd (alloc_frame m)) = pt m" "cr3 (snd (alloc_frame m)) = cr3 m"
    "cr0 (snd (alloc_frame m)) = cr0 m" "mm_state.more (snd (alloc_frame m)) = mm_state.more m"
    by (auto simp: a)
qed

lemma free_frame_fields [simp]:
  "pt (free_frame f m) = pt m" "cr3 (free_frame f m) = cr3 m" "cr0 (free_frame f m) = cr0 m"
  "mm_state.more (free_frame f m) = mm_state.more m"
  by (simp_all add: free_frame_def)

lemma share_page_fields [simp]:
  "phys_mem (share_page c p i m) = phys_mem m" "cr3 (share_page c p i m) = cr3 m"
  "mm_state.more (share_page c p i m) = mm_state.more m" "cr0 (share_page c p i m) = cr0 m"
  by (simp_all add: share_page_def) (simp add: set_ss_pag_def)

lemma pt_share_page:
  "pt (share_page c p i m) q j =
     (if q = c \<and> j = i then user_entry (get_frame p i m) else pt m q j)"
  by (simp add: share_page_def pt_set_ss_pag)

lemma pt_share_pages:
  assumes "c \<noteq> p"
  shows "pt (fold (share_page c p) ps m) q j =
    (if q = c \<and> j \<in> set ps then user_entry (get_frame p j m) else pt m q j)"
proof (induction ps arbitrary: m)
  case (Cons i ps)
  have "get_frame p j (share_page c p i m) = get_frame p j m"
    using assms by (simp add: get_frame_def pt_share_page)
  with Cons show ?case by (auto simp: pt_share_page)
qed simp

lemma share_kernel_and_code_alt:
  "share_kernel_and_code C c p m =
     fold (share_page c p) ([0..<NUM_PAG_KERNEL] @ map ((+) (PAG_LOG_INIT_CODE C)) [0..<NUM_PAG_CODE]) m"
  by (simp add: share_kernel_and_code_def fold_map comp_def)

definition shared_pages :: "'c mm_cfg_scheme \<Rightarrow> nat set" where
  "shared_pages C = {..<NUM_PAG_KERNEL} \<union>
     {PAG_LOG_INIT_CODE C ..< PAG_LOG_INIT_CODE C + NUM_PAG_CODE}"

lemma pt_share_kernel_and_code:
  "c \<noteq> p \<Longrightarrow> pt (share_kernel_and_code C c p m) q j =
     (if q = c \<and> j \<in> shared_pages C then user_entry (get_frame p j m) else pt m q j)"
proof -
  have "set ([0..<NUM_PAG_KERNEL] @ map ((+) (PAG_LOG_INIT_CODE C)) [0..<NUM_PAG_CODE]) =
      shared_pages C"
    by (auto simp: shared_pages_def image_iff le_iff_add)
  then show "c \<noteq> p \<Longrightarrow> ?thesis"
    by (simp add: share_kernel_and_code_alt pt_share_pages del: fold_append)
qed

lemma share_fields [simp]:
  "phys_mem (share_kernel_and_code C c p m) = phys_mem m"
  "cr3 (share_kernel_and_code C c p m) = cr3 m"
  "mm_state.more (share_kernel_and_code C c p m) = mm_state.more m"
  "cr0 (share_kernel_and_code C c p m) = cr0 m"
proof -
  have "phys_mem (fold (share_page c p) ps m) = phys_mem m \<and>
      cr0 (fold (share_page c p) ps m) = cr0 m \<and>
      cr3 (fold (share_page c p) ps m) = cr3 m \<and>
      mm_state.more (fold (share_page c p) ps m) = mm_state.more m" for ps
    by (induction ps arbitrary: m) auto
  then show "phys_mem (share_kernel_and_code C c p m) = phys_mem m"
    "cr3 (share_kernel_and_code C c p m) = cr3 m"
    "mm_state.more (share_kernel_and_code C c p m) = mm_state.more m"
    "cr0 (share_kernel_and_code C c p m) = cr0 m"
    unfolding share_kernel_and_code_alt by blast+
qed

section \<open>Allocating the data pages\<close>

lemma word_of_int_frame: "word_of_int (int f) = (of_nat f :: DWord)"
  by simp

lemma unat_frame: "f < TOTAL_PAGES \<Longrightarrow> unat (of_nat f :: DWord) = f"
  by (simp add: TOTAL_PAGES_def unsigned_of_nat take_bit_nat_eq_self)

lemma take_bit_frame [simp]:
  "f < TOTAL_PAGES \<Longrightarrow> take_bit 20 (of_nat f :: DWord) = of_nat f"
  by (rule take_bit_20_small) (simp add: TOTAL_PAGES_def)

lemma avail_bound: "f \<in> avail m \<Longrightarrow> f < TOTAL_PAGES"
  by (simp add: avail_def)

lemma freeable_bound: "f \<in> freeable \<Longrightarrow> f < TOTAL_PAGES"
  by (simp add: freeable_def)

text \<open>
  With enough frames left, the loop fills the entries with distinct available frames and
  takes exactly these from the allocator.
\<close>

lemma alloc_data_pages_from_enough:
  assumes "frames_ok m" and "length pags \<le> card (avail m)" and "distinct pags"
  shows "\<exists>fs m'. alloc_data_pages_from C PT pags m = (True, m') \<and> length fs = length pags \<and>
    distinct fs \<and> set fs \<subseteq> avail m \<and> avail m' = avail m - set fs \<and> frames_ok m' \<and>
    mm_state.more m' = mm_state.more m \<and> cr3 m' = cr3 m \<and> cr0 m' = cr0 m \<and>
    (\<forall>k<length pags. pt m' PT (PAG_LOG_INIT_DATA C + pags ! k) = user_entry (of_nat (fs ! k))) \<and>
    (\<forall>q j. q \<noteq> PT \<or> j \<notin> (+) (PAG_LOG_INIT_DATA C) ` set pags \<longrightarrow> pt m' q j = pt m q j)"
  using assms
proof (induction pags arbitrary: m)
  case Nil
  then show ?case by (intro exI [of _ "[]"] exI [of _ m]) simp
next
  case (Cons pag pags)
  then have "avail m \<noteq> {}" by auto
  then obtain f where f: "f \<in> avail m" "fst (alloc_frame m) = int f"
      "avail (snd (alloc_frame m)) = avail m - {f}"
    using fa.alloc_takes [OF Cons.prems(1)] by blast
  define m1 where "m1 = set_ss_pag PT (PAG_LOG_INIT_DATA C + pag) (of_nat f) (snd (alloc_frame m))"
  have step: "alloc_data_pages_from C PT (pag # pags) m = alloc_data_pages_from C PT pags m1"
    using f(2) by (simp add: case_prod_beta m1_def)
  have m1: "frames_ok m1" "avail m1 = avail m - {f}" "mm_state.more m1 = mm_state.more m"
    "cr3 m1 = cr3 m" "cr0 m1 = cr0 m"
    using fa.alloc_ok [OF Cons.prems(1)] f(3) by (simp_all add: m1_def set_ss_pag_def)
  have pt1: "pt m1 q j = (if q = PT \<and> j = PAG_LOG_INIT_DATA C + pag then user_entry (of_nat f)
      else pt m q j)" for q j
    by (simp add: m1_def pt_set_ss_pag)
  have "length pags \<le> card (avail m1)"
    using Cons.prems(2) f(1) by (simp add: m1(2))
  from Cons.IH [OF m1(1) this] Cons.prems(3) obtain fs m' where
    IH: "alloc_data_pages_from C PT pags m1 = (True, m')" "length fs = length pags" "distinct fs"
      "set fs \<subseteq> avail m1" "avail m' = avail m1 - set fs" "frames_ok m'"
      "mm_state.more m' = mm_state.more m1" "cr3 m' = cr3 m1" "cr0 m' = cr0 m1"
      "\<forall>k<length pags. pt m' PT (PAG_LOG_INIT_DATA C + pags ! k) = user_entry (of_nat (fs ! k))"
      "\<forall>q j. q \<noteq> PT \<or> j \<notin> (+) (PAG_LOG_INIT_DATA C) ` set pags \<longrightarrow> pt m' q j = pt m1 q j"
    by auto
  have "PAG_LOG_INIT_DATA C + pag \<notin> (+) (PAG_LOG_INIT_DATA C) ` set pags"
    using Cons.prems(3) by auto
  with IH(11) have "pt m' PT (PAG_LOG_INIT_DATA C + pag) = user_entry (of_nat f)"
    by (simp add: pt1)
  then have "\<forall>k<length (pag # pags). pt m' PT (PAG_LOG_INIT_DATA C + (pag # pags) ! k) =
      user_entry (of_nat ((f # fs) ! k))"
    using IH(10) by (auto simp: less_Suc_eq_0_disj)
  moreover have "pt m' q j = pt m q j"
    if "q \<noteq> PT \<or> j \<notin> (+) (PAG_LOG_INIT_DATA C) ` set (pag # pags)" for q j
    using IH(11) that by (auto simp: pt1)
  ultimately show ?case
    unfolding step using IH m1 f(1) by (intro exI [of _ "f # fs"] exI [of _ m']) auto
qed

section \<open>Releasing the data pages\<close>

lemma release_page_fields [simp]:
  "cr3 (release_page PT p m) = cr3 m" "mm_state.more (release_page PT p m) = mm_state.more m"
  "frames_ok (release_page PT p m) = frames_ok m" "cr0 (release_page PT p m) = cr0 m"
  by (simp_all add: release_page_def) (simp add: del_ss_pag_def)

lemma pt_release_page:
  "pt (release_page PT p m) q j = (if q = PT \<and> j = p then 0 else pt m q j)"
  by (simp add: release_page_def pt_del_ss_pag)

lemma avail_release_page:
  assumes "frames_ok m" and "get_frame PT p m = of_nat f" and "f \<in> freeable"
  shows "avail (release_page PT p m) = insert f (avail m)"
  using assms by (simp add: release_page_def avail_free_frame)

text \<open>
  Releasing the pages \<open>ps\<close>, whose frames are \<open>fs\<close>, puts \<open>fs\<close> back and clears the entries.
\<close>

lemma release_pages:
  assumes "frames_ok m" and "distinct ps" and "length fs = length ps" and "set fs \<subseteq> freeable"
    and "\<forall>k<length ps. get_frame PT (ps ! k) m = of_nat (fs ! k)"
  defines "m' \<equiv> fold (release_page PT) ps m"
  shows "avail m' = avail m \<union> set fs" and "frames_ok m'"
    and "mm_state.more m' = mm_state.more m" and "cr3 m' = cr3 m" and "cr0 m' = cr0 m"
    and "pt m' q j = (if q = PT \<and> j \<in> set ps then 0 else pt m q j)"
proof -
  have "avail m' = avail m \<union> set fs \<and> frames_ok m' \<and> mm_state.more m' = mm_state.more m \<and>
    cr3 m' = cr3 m \<and> cr0 m' = cr0 m \<and>
    (\<forall>q j. pt m' q j = (if q = PT \<and> j \<in> set ps then 0 else pt m q j))"
    using assms(1-5) unfolding m'_def
  proof (induction ps arbitrary: m fs)
    case (Cons p ps)
    then obtain f gs where fs: "fs = f # gs" by (cases fs) auto
    let ?m = "release_page PT p m"
    have av: "avail ?m = insert f (avail m)"
      using Cons.prems by (intro avail_release_page) (auto simp: fs)
    have "get_frame PT (ps ! k) ?m = of_nat (gs ! k)" if "k < length ps" for k
    proof -
      have "ps ! k \<noteq> p" using Cons.prems(2) that by (auto simp: in_set_conv_nth)
      with Cons.prems(5) that show ?thesis
        by (auto simp: fs get_frame_def pt_release_page dest!: spec [of _ "Suc k"])
    qed
    then have "avail (fold (release_page PT) ps ?m) = avail ?m \<union> set gs \<and>
        frames_ok (fold (release_page PT) ps ?m) \<and>
        mm_state.more (fold (release_page PT) ps ?m) = mm_state.more ?m \<and>
        cr3 (fold (release_page PT) ps ?m) = cr3 ?m \<and> cr0 (fold (release_page PT) ps ?m) = cr0 ?m \<and>
        (\<forall>q j. pt (fold (release_page PT) ps ?m) q j =
          (if q = PT \<and> j \<in> set ps then 0 else pt ?m q j))"
      using Cons.prems by (intro Cons.IH) (auto simp: fs)
    with av show ?case by (auto simp: fs pt_release_page)
  qed simp
  then show "avail m' = avail m \<union> set fs" "frames_ok m'" "mm_state.more m' = mm_state.more m"
    "cr3 m' = cr3 m" "cr0 m' = cr0 m" "pt m' q j = (if q = PT \<and> j \<in> set ps then 0 else pt m q j)"
    by blast+
qed

lemma release_data_pages_alt:
  "release_data_pages C PT n m = fold (release_page PT) (map ((+) (PAG_LOG_INIT_DATA C)) [0..<n]) m"
  by (simp add: release_data_pages_def fold_map comp_def)

definition data_pages :: "'c mm_cfg_scheme \<Rightarrow> nat list" where
  "data_pages C = map ((+) (PAG_LOG_INIT_DATA C)) [0..<NUM_PAG_DATA]"

lemma distinct_data_pages [simp]: "distinct (map ((+) (a :: nat)) [0..<n])"
  by (simp add: distinct_map inj_on_def)

lemma release_data_pages_ok:
  assumes "frames_ok m" and "length fs = n" and "set fs \<subseteq> freeable"
    and "\<forall>k<n. get_frame PT (PAG_LOG_INIT_DATA C + k) m = of_nat (fs ! k)"
  defines "m' \<equiv> release_data_pages C PT n m"
  shows "avail m' = avail m \<union> set fs" and "frames_ok m'"
    and "mm_state.more m' = mm_state.more m" and "cr3 m' = cr3 m" and "cr0 m' = cr0 m"
    and "pt m' q j = (if q = PT \<and> j \<in> {PAG_LOG_INIT_DATA C ..< PAG_LOG_INIT_DATA C + n}
           then 0 else pt m q j)"
proof -
  let ?ps = "map ((+) (PAG_LOG_INIT_DATA C)) [0..<n]"
  have ps: "set ?ps = {PAG_LOG_INIT_DATA C ..< PAG_LOG_INIT_DATA C + n}"
    by (auto simp: image_iff le_iff_add)
  have "distinct ?ps" "length fs = length ?ps"
    "\<forall>k<length ?ps. get_frame PT (?ps ! k) m = of_nat (fs ! k)"
    using assms by auto
  note r = release_pages [OF assms(1) this(1,2) assms(3) this(3)]
  show "avail m' = avail m \<union> set fs" "frames_ok m'" "mm_state.more m' = mm_state.more m"
    "cr3 m' = cr3 m" "cr0 m' = cr0 m"
    "pt m' q j = (if q = PT \<and> j \<in> {PAG_LOG_INIT_DATA C ..< PAG_LOG_INIT_DATA C + n}
           then 0 else pt m q j)"
    unfolding m'_def release_data_pages_alt using r ps by simp_all
qed

text \<open>
  With too few frames left, the loop gives back every frame it took: the allocator is as it
  was, and only entries of the child's table changed.
\<close>

lemma alloc_data_pages_from_exhausted:
  assumes "frames_ok m" and "card (avail m) < length pags" and "pags = [d..<n]"
    and "length fs = d" and "set fs \<subseteq> freeable" and "avail m \<subseteq> freeable"
    and "\<forall>k<d. get_frame PT (PAG_LOG_INIT_DATA C + k) m = of_nat (fs ! k)"
  shows "\<exists>m'. alloc_data_pages_from C PT pags m = (False, m') \<and> frames_ok m' \<and>
    avail m' = avail m \<union> set fs \<and> mm_state.more m' = mm_state.more m \<and> cr3 m' = cr3 m \<and>
    cr0 m' = cr0 m \<and> (\<forall>q j. q \<noteq> PT \<longrightarrow> pt m' q j = pt m q j)"
  using assms
proof (induction pags arbitrary: m d fs)
  case (Cons pag pags)
  from Cons.prems(3) have "[d..<n] = pag # pags" by simp
  then have pag: "pag = d" "pags = [Suc d..<n]" by (auto simp: upt_eq_Cons_conv)
  show ?case
  proof (cases "avail m = {}")
    case True
    then have "alloc_frame m = (-1, m)" using fa.alloc_fails [OF Cons.prems(1)] by blast
    then have "alloc_data_pages_from C PT (pag # pags) m = (False, release_data_pages C PT d m)"
      by (simp add: pag)
    with release_data_pages_ok [OF Cons.prems(1,4,5,7)] show ?thesis by auto
  next
    case False
    then obtain f where f: "f \<in> avail m" "fst (alloc_frame m) = int f"
        "avail (snd (alloc_frame m)) = avail m - {f}"
      using fa.alloc_takes [OF Cons.prems(1)] by blast
    define m1 where "m1 = set_ss_pag PT (PAG_LOG_INIT_DATA C + d) (of_nat f) (snd (alloc_frame m))"
    have step: "alloc_data_pages_from C PT (pag # pags) m = alloc_data_pages_from C PT pags m1"
      using f(2) by (simp add: case_prod_beta m1_def pag)
    have m1: "frames_ok m1" "avail m1 = avail m - {f}" "mm_state.more m1 = mm_state.more m"
      "cr3 m1 = cr3 m" "cr0 m1 = cr0 m"
      using fa.alloc_ok [OF Cons.prems(1)] f(3) by (simp_all add: m1_def set_ss_pag_def)
    have pt1: "pt m1 q j = (if q = PT \<and> j = PAG_LOG_INIT_DATA C + d then user_entry (of_nat f)
        else pt m q j)" for q j
      by (simp add: m1_def pt_set_ss_pag)
    have "\<forall>k<Suc d. get_frame PT (PAG_LOG_INIT_DATA C + k) m1 = of_nat ((fs @ [f]) ! k)"
      using Cons.prems(4,7) avail_bound [OF f(1)]
      by (auto simp: get_frame_def pt1 nth_append less_Suc_eq)
    moreover have "card (avail m1) < length pags"
      using Cons.prems(2) f(1) card_gt_0_iff [of "avail m"] by (auto simp: m1(2))
    ultimately have "\<exists>m'. alloc_data_pages_from C PT pags m1 = (False, m') \<and> frames_ok m' \<and>
      avail m' = avail m1 \<union> set (fs @ [f]) \<and> mm_state.more m' = mm_state.more m1 \<and>
      cr3 m' = cr3 m1 \<and> cr0 m' = cr0 m1 \<and> (\<forall>q j. q \<noteq> PT \<longrightarrow> pt m' q j = pt m1 q j)"
      using Cons.prems f(1) pag m1 by (intro Cons.IH [of _ "Suc d"]) auto
    then show ?thesis unfolding step using m1 f(1) by (auto simp: pt1)
  qed
qed simp

section \<open>Copying the data pages\<close>

text \<open>
  The copy returns when the parent's directory and source pages are present; the frames
  \<open>b i\<close> then hold what the parent's frames \<open>a i\<close> hold, no other frame changes, and the
  temporary entries of the parent's table are clear.
\<close>

lemma copy_through_ok:
  assumes dir: "pte_present (pt s (cr3 s) 0) = 1" "pte_pbase_addr (pt s (cr3 s) 0) = P"
    and src: "src < 1024" "pte_present (pt s P src) = 1" "pte_pbase_addr (pt s P src) = a"
    and tmp: "tmp < 1024" "0 < tmp" "tmp \<noteq> src" "take_bit 20 b = b"
  shows "copy_through P src tmp b s =
    Some (s\<lparr>fmem := (fmem s)(b := fmem s a), pt := (pt s)(P := (pt s P)(tmp := 0))\<rparr>)"
proof -
  let ?s = "set_ss_pag P tmp b s"
  have s: "?s = s\<lparr>pt := (pt s)(P := (pt s P)(tmp := user_entry b))\<rparr>"
    by (simp add: set_ss_pag_def user_entry_def set_pte_def)
  have "translate ?s src = Some a" "translate ?s tmp = Some b"
    using assms by (auto simp: translate_def s Let_def)
  then show ?thesis
    by (simp add: copy_through_def copy_page_def del_ss_pag_def set_pte_def s)
qed

lemma copy_data_pages_ok:
  assumes "pte_present (pt s (cr3 s) 0) = 1" "pte_pbase_addr (pt s (cr3 s) 0) = P"
    and "\<forall>i\<in>set is. src i < 1024 \<and> pte_present (pt s P (src i)) = 1 \<and>
      pte_pbase_addr (pt s P (src i)) = a i"
    and "\<forall>i\<in>set is. tmp i < 1024 \<and> 0 < tmp i \<and> take_bit 20 (b i) = b i"
    and "\<forall>i\<in>set is. \<forall>j\<in>set is. tmp i \<noteq> src j \<and> b i \<noteq> a j"
    and "\<forall>i\<in>set is. \<forall>s'. (\<forall>q j. q \<noteq> P \<longrightarrow> pt s' q j = pt s q j) \<longrightarrow> fr i s' = b i"
    and "distinct (map b is)"
  shows "\<exists>s'. copy_data_pages P src tmp fr is s = Some s' \<and>
    (\<forall>i\<in>set is. fmem s' (b i) = fmem s (a i)) \<and>
    (\<forall>f. f \<notin> b ` set is \<longrightarrow> fmem s' f = fmem s f) \<and>
    (\<forall>q j. pt s' q j = (if q = P \<and> j \<in> tmp ` set is then 0 else pt s q j)) \<and>
    s' = s\<lparr>fmem := fmem s', pt := pt s'\<rparr>"
  using assms
proof (induction "is" arbitrary: s)
  case (Cons i "is")
  let ?s = "s\<lparr>fmem := (fmem s)(b i := fmem s (a i)), pt := (pt s)(P := (pt s P)(tmp i := 0))\<rparr>"
  have "fr i s = b i" using Cons.prems(6) by simp
  moreover have "copy_through P (src i) (tmp i) (b i) s = Some ?s"
    using Cons.prems by (intro copy_through_ok) auto
  ultimately have step: "copy_data_pages P src tmp fr (i # is) s =
      copy_data_pages P src tmp fr is ?s" by simp
  have "pt ?s q j = pt s q j" if "q \<noteq> P" for q j using that by simp
  then have fr: "\<forall>i\<in>set is. \<forall>s'. (\<forall>q j. q \<noteq> P \<longrightarrow> pt s' q j = pt ?s q j) \<longrightarrow> fr i s' = b i"
    using Cons.prems(6) by simp
  have src: "\<forall>j\<in>set is. src j < 1024 \<and> pte_present (pt ?s P (src j)) = 1 \<and>
      pte_pbase_addr (pt ?s P (src j)) = a j"
    using Cons.prems(3,5) by (simp add: fun_upd_def) metis
  have dir: "pte_present (pt ?s (cr3 ?s) 0) = 1" "pte_pbase_addr (pt ?s (cr3 ?s) 0) = P"
    using Cons.prems(1,2,4) by auto
  from Cons.IH [OF dir src _ _ fr] Cons.prems(4,5,7) obtain s' where
    IH: "copy_data_pages P src tmp fr is ?s = Some s'"
      "\<forall>j\<in>set is. fmem s' (b j) = fmem ?s (a j)"
      "\<forall>f. f \<notin> b ` set is \<longrightarrow> fmem s' f = fmem ?s f"
      "\<forall>q j. pt s' q j = (if q = P \<and> j \<in> tmp ` set is then 0 else pt ?s q j)"
      "s' = ?s\<lparr>fmem := fmem s', pt := pt s'\<rparr>"
    by auto
  have "b i \<notin> b ` set is" using Cons.prems(7) by auto
  then have "fmem s' (b i) = fmem s (a i)" using IH(3) by simp
  moreover have "fmem s' (b j) = fmem s (a j)" if "j \<in> set is" for j
    using IH(2) Cons.prems(5) that by (auto dest!: bspec [of "set is" _ j])
  moreover have "fmem s' f = fmem s f" if "f \<notin> b ` set (i # is)" for f
    using IH(3) that by auto
  moreover have "pt s' q j = (if q = P \<and> j \<in> tmp ` set (i # is) then 0 else pt s q j)" for q j
    using IH(4) by auto
  moreover have "s' = s\<lparr>fmem := fmem s', pt := pt s'\<rparr>"
    by (subst IH(5)) simp
  ultimately show ?case unfolding step using IH(1) by auto
qed simp

text \<open>
  \<open>copy_page\<close> is \<open>copy_data\<close> on the linear addresses of the running address space: \<open>lin\<close> is
  the memory a routine sees through the page tables, and no other logical page may be
  mapped to the frame that is written.
\<close>

definition lin :: "'a machine_scheme \<Rightarrow> memory" where
  "lin s a = (case translate s (unat a div PAGE_SIZE) of
     None \<Rightarrow> 0 | Some f \<Rightarrow> fmem s f (unat a mod PAGE_SIZE))"

lemma unat_page_addr: "p < 1024 \<Longrightarrow> unat (push_bit 12 (of_nat p) :: DWord) = p * 4096"
  by (simp add: push_bit_eq_mult unat_word_ariths unsigned_of_nat take_bit_nat_eq_self)

lemma copy_page_is_copy_data:
  assumes "src < 1024" and "dst < 1024" and "src \<noteq> dst"
    and f: "translate s src = Some f" and g: "translate s dst = Some g"
    and only: "\<And>p. translate s p = Some g \<Longrightarrow> p = dst"
  shows "\<exists>s'. copy_page src dst s = Some s' \<and>
    lin s' = copy_data (push_bit 12 (of_nat src)) (push_bit 12 (of_nat dst)) (int PAGE_SIZE) (lin s)"
proof -
  define s' where "s' = s\<lparr>fmem := (fmem s)(g := fmem s f)\<rparr>"
  define p q :: DWord where "p = push_bit 12 (of_nat src)" and "q = push_bit 12 (of_nat dst)"
  have p: "unat p = src * 4096" and q: "unat q = dst * 4096"
    using assms(1,2) by (simp_all add: p_def q_def unat_page_addr)
  have ap: "apart p q PAGE_SIZE"
    using assms(1-3) by (auto simp: apart_def p q PAGE_SIZE_def)
  have tr: "translate s' = translate s"
    by (rule ext) (simp add: s'_def translate_def)
  have "lin s' x = block_copy (lin s) p q PAGE_SIZE x" for x
  proof (cases "unat x div PAGE_SIZE = dst")
    case True
    then have x: "unat q \<le> unat x" "unat x < unat q + PAGE_SIZE"
      by (auto simp: q PAGE_SIZE_def)
    have "unat (p + (x - q)) = unat p + (unat x - unat q)"
      using x assms(1) by (intro unat_shifted) (auto simp: p PAGE_SIZE_def)
    moreover have "unat x - unat q = unat x mod PAGE_SIZE"
      using True by (auto simp: q PAGE_SIZE_def minus_div_mult_eq_mod [symmetric])
    ultimately have "lin s (p + (x - q)) = fmem s f (unat x mod PAGE_SIZE)"
      using f by (simp add: lin_def p PAGE_SIZE_def)
    moreover have "lin s' x = fmem s f (unat x mod PAGE_SIZE)"
      using True g by (simp add: lin_def tr) (simp add: s'_def)
    ultimately show ?thesis using x by (simp add: block_copy_def)
  next
    case False
    then have "\<not> (unat q \<le> unat x \<and> unat x < unat q + PAGE_SIZE)"
      by (auto simp: q PAGE_SIZE_def)
    moreover have "translate s (unat x div PAGE_SIZE) \<noteq> Some g" using False only by blast
    then have "lin s' x = lin s x"
      by (auto simp: lin_def tr split: option.split) (simp add: s'_def)
    ultimately show ?thesis by (auto simp: block_copy_def)
  qed
  then have "lin s' = copy_data p q (int PAGE_SIZE) (lin s)"
    by (simp add: copy_data_block [OF ap] ext)
  moreover have "copy_page src dst s = Some s'"
    using f g by (simp add: copy_page_def s'_def)
  ultimately show ?thesis by (simp add: p_def q_def)
qed

end
