(* ===== verification/Zeos_User.thy ===== *)
theory Zeos_User
  imports Zeos_Addr
begin

text \<open>
  The accesses of a system call to user memory, through the page tables of the running
  process: \<open>copy_in\<close> for \<open>copy_from_user\<close> and \<open>copy_out\<close> for \<open>copy_to_user\<close> of \<^verbatim>\<open>utils.c\<close>. An
  access to a page that is not present is a page fault, after which the kernel does not
  continue (\<open>None\<close>).
\<close>

section \<open>User memory\<close>

definition readable :: "DWord \<Rightarrow> nat \<Rightarrow> 'a mm_state_scheme \<Rightarrow> bool" where
  "readable a n s =
     list_all (\<lambda>i. translate s (unat (a + of_nat i) div PAGE_SIZE) \<noteq> None) [0..<n]"

text \<open>\<open>copy_from_user(a, localbuffer, n)\<close>: the resulting contents of \<open>localbuffer\<close>.\<close>

definition copy_in :: "DWord \<Rightarrow> nat \<Rightarrow> 'a machine_scheme \<Rightarrow> (nat \<Rightarrow> Byte) option" where
  "copy_in a n s = (if readable a n s then Some (\<lambda>i. lin s (a + of_nat i)) else None)"

definition poke :: "DWord \<Rightarrow> Byte \<Rightarrow> 'a machine_scheme \<Rightarrow> 'a machine_scheme option" where
  "poke a b s = do {
     f \<leftarrow> translate s (unat a div PAGE_SIZE);
     Some (s\<lparr>fmem := (fmem s)(f := (fmem s f)(unat a mod PAGE_SIZE := b))\<rparr>)
   }"

text \<open>\<open>copy_to_user(bs, a, length bs)\<close>.\<close>

fun copy_out :: "DWord \<Rightarrow> Byte list \<Rightarrow> 'a machine_scheme \<Rightarrow> 'a machine_scheme option" where
  "copy_out a [] s = Some s"
| "copy_out a (b # bs) s = do {
     s \<leftarrow> poke a b s;
     copy_out (a + 1) bs s
   }"

section \<open>What a write to the console reads\<close>

definition out_bytes :: "memory \<Rightarrow> DWord \<Rightarrow> nat \<Rightarrow> Byte list" where
  "out_bytes m a n = map (\<lambda>i. m (a + of_nat i)) [0..<n]"

lemma length_out_bytes [simp]: "length (out_bytes m a n) = n"
  by (simp add: out_bytes_def)

lemma upt_split: "[0..<k + n] = [0..<k] @ map ((+) k) [0..<n]"
  by (rule nth_equalityI) (auto simp: nth_append)

lemma out_bytes_split:
  "out_bytes m a (k + n) = out_bytes m a k @ out_bytes m (a + of_nat k) n"
proof -
  show ?thesis by (simp add: out_bytes_def upt_split comp_def add.assoc)
qed

lemma console_out:
  "sys_write_console (\<lambda>i. m (a + of_nat i)) (int n) sc = (int n, fold printc (out_bytes m a n) sc)"
  by (simp add: sys_write_console_def out_bytes_def fold_map comp_def)

lemma lin_scr [simp]: "lin (s\<lparr>scr := sc\<rparr>) = lin s" "readable a n (s\<lparr>scr := sc\<rparr>) = readable a n s"
  "translate (s\<lparr>scr := sc\<rparr>) = translate s"
proof -
  show tr: "translate (s\<lparr>scr := sc\<rparr>) = translate s" by (rule ext) (simp add: translate_def)
  show "lin (s\<lparr>scr := sc\<rparr>) = lin s" by (rule ext) (simp add: lin_def tr split: option.split)
  show "readable a n (s\<lparr>scr := sc\<rparr>) = readable a n s" by (simp add: readable_def tr)
qed

lemma readable_add:
  "readable a (k + n) s \<longleftrightarrow> readable a k s \<and> readable (a + of_nat k) n s"
proof -
  show ?thesis by (simp add: readable_def upt_split list.pred_map comp_def add.assoc)
qed

section \<open>What a copy to user memory stores\<close>

lemma copy_out_writes:
  assumes "\<And>i. i < length bs \<Longrightarrow> translate s (unat (a + of_nat i) div PAGE_SIZE) = Some (fr i)"
    and "inj_on (\<lambda>i. (fr i, unat (a + of_nat i) mod PAGE_SIZE)) {..<length bs}"
  shows "\<exists>s'. copy_out a bs s = Some s' \<and> s' = s\<lparr>fmem := fmem s'\<rparr> \<and>
    (\<forall>i<length bs. fmem s' (fr i) (unat (a + of_nat i) mod PAGE_SIZE) = bs ! i) \<and>
    (\<forall>f k. (f, k) \<notin> (\<lambda>i. (fr i, unat (a + of_nat i) mod PAGE_SIZE)) ` {..<length bs} \<longrightarrow>
       fmem s' f k = fmem s f k)"
  using assms
proof (induction bs arbitrary: a s fr)
  case (Cons b bs)
  let ?s = "s\<lparr>fmem := (fmem s)(fr 0 := (fmem s (fr 0))(unat a mod PAGE_SIZE := b))\<rparr>"
  let ?at = "\<lambda>i. (fr i, unat (a + of_nat i) mod PAGE_SIZE)"
  have tr: "translate ?s = translate s" by (rule ext) (simp add: translate_def)
  have sh: "a + 1 + of_nat i = a + of_nat (Suc i)" for i by simp
  have "\<exists>s'. copy_out (a + 1) bs ?s = Some s' \<and> s' = ?s\<lparr>fmem := fmem s'\<rparr> \<and>
    (\<forall>i<length bs. fmem s' (fr (Suc i)) (unat (a + 1 + of_nat i) mod PAGE_SIZE) = bs ! i) \<and>
    (\<forall>f k. (f, k) \<notin> (\<lambda>i. (fr (Suc i), unat (a + 1 + of_nat i) mod PAGE_SIZE)) ` {..<length bs} \<longrightarrow>
       fmem s' f k = fmem ?s f k)"
  proof (rule Cons.IH)
    show "translate ?s (unat (a + 1 + of_nat i) div PAGE_SIZE) = Some (fr (Suc i))" if "i < length bs" for i
      using Cons.prems(1) [of "Suc i"] that by (simp only: tr sh) simp
    show "inj_on (\<lambda>i. (fr (Suc i), unat (a + 1 + of_nat i) mod PAGE_SIZE)) {..<length bs}"
      unfolding sh using Cons.prems(2) by (auto simp: inj_on_def simp del: of_nat_Suc)
  qed
  then obtain s' where s': "copy_out (a + 1) bs ?s = Some s'" "s' = ?s\<lparr>fmem := fmem s'\<rparr>"
    "\<And>i. i < length bs \<Longrightarrow> fmem s' (fr (Suc i)) (unat (a + of_nat (Suc i)) mod PAGE_SIZE) = bs ! i"
    "\<And>f k. (f, k) \<notin> (?at \<circ> Suc) ` {..<length bs} \<Longrightarrow> fmem s' f k = fmem ?s f k"
    unfolding sh comp_def by blast
  have im: "?at ` {..<length (b # bs)} = insert (?at 0) ((?at \<circ> Suc) ` {..<length bs})"
    by (simp add: lessThan_Suc_eq_insert_0 image_comp del: of_nat_Suc)
  have "?at 0 \<notin> (?at \<circ> Suc) ` {..<length bs}"
  proof
    assume "?at 0 \<in> (?at \<circ> Suc) ` {..<length bs}"
    then obtain i where "i < length bs" "?at 0 = ?at (Suc i)" by (auto simp del: of_nat_Suc)
    with inj_onD [OF Cons.prems(2), of 0 "Suc i"] show False by simp
  qed
  then have "fmem s' (fr 0) (unat a mod PAGE_SIZE) = b"
    using s'(4) [of "fr 0" "unat a mod PAGE_SIZE"] by simp
  with s'(3) have w: "fmem s' (fr i) (unat (a + of_nat i) mod PAGE_SIZE) = (b # bs) ! i"
    if "i < length (b # bs)" for i
    using that by (cases i) simp_all
  have "fmem s' f k = fmem s f k" if "(f, k) \<notin> ?at ` {..<length (b # bs)}" for f k
    using s'(4) [of f k] that unfolding im by (auto split: if_splits)
  moreover have "s' = s\<lparr>fmem := fmem s'\<rparr>" using s'(2) by (cases s; cases s'; simp)
  moreover have "copy_out a (b # bs) s = Some s'"
    using s'(1) Cons.prems(1) [of 0] by (simp add: poke_def)
  ultimately show ?case using w by blast
qed simp

end
