(* ===== verification/Game_Sys.thy ===== *)
theory Game_Sys
  imports Game_Sched Zeos_User
begin

text \<open>
  The system calls of \<^verbatim>\<open>so2_old/GAME/zeos/sys.c\<close>. User memory is read and written through
  the page tables of the running process (\<open>copy_in\<close>, \<open>copy_out\<close> of \<open>Zeos_User\<close>); an access to a page
  that is not present is a page fault, after which the kernel does not continue (\<open>None\<close>).
\<close>

section \<open>Statistics as bytes\<close>

definition dword_bytes :: "DWord \<Rightarrow> Byte list" where
  "dword_bytes w = map (\<lambda>i. ucast (drop_bit (8 * i) w)) [0..<4]"

definition stats_bytes :: "stats \<Rightarrow> Byte list" where
  "stats_bytes st = concat (map dword_bytes
     [user_ticks st, system_ticks st, blocked_ticks st, ready_ticks st,
      elapsed_total_ticks st, total_trans st, remaining_ticks st])"

section \<open>Simple calls\<close>

definition LECTURA :: int where "LECTURA = 0"
definition ESCRIPTURA :: int where "ESCRIPTURA = 1"

definition check_fd :: "int \<Rightarrow> int \<Rightarrow> int" where
  "check_fd fd permissions =
     (if fd \<noteq> 1 then - EBADF else if permissions \<noteq> ESCRIPTURA then - EACCES else 0)"

definition user_to_system :: "game \<Rightarrow> game option" where
  "user_to_system s = update_stats user_ticks_update (current s) s"

definition system_to_user :: "game \<Rightarrow> game option" where
  "system_to_user s = update_stats system_ticks_update (current s) s"

definition sys_ni_syscall :: int where
  "sys_ni_syscall = - ENOSYS"

definition sys_getpid :: "game \<Rightarrow> int" where
  "sys_getpid s = PID (tasks s (current s))"

definition sys_gettime :: "game \<Rightarrow> int" where
  "sys_gettime s = zeos_ticks s"

section \<open>\<open>sys_fork\<close>\<close>

text \<open>\<open>copy_data(current(), uchild, sizeof(union task_union))\<close>: structure, links and stack.\<close>

definition copy_task_union :: "nat \<Rightarrow> nat \<Rightarrow> game \<Rightarrow> game" where
  "copy_task_union p c s = s\<lparr>
     tasks := (tasks s)(c := tasks s p),
     stacks := (stacks s)(c := stacks s p),
     links := (links s)\<lparr>
       nxt := (nxt (links s))(TaskList c := nxt (links s) (TaskList p)),
       prv := (prv (links s))(TaskList c := prv (links s) (TaskList p))\<rparr>\<rparr>"

text \<open>
  The child resumes in \<open>ret_from_fork\<close>, with the frame pointer the parent's caller had.
  \<open>get_ebp\<close> reads the frame pointer of \<open>sys_fork\<close>, an address in the parent's stack.
\<close>

definition prepare_child_stack :: "nat \<Rightarrow> game \<Rightarrow> game option" where
  "prepare_child_stack c s = do {
     (_, ix) \<leftarrow> stack_ptr (ebp s);
     let temp_ebp = stacks s c ix;
     let s = set_stack c ix (CodeAddr ''ret_from_fork'') s;
     let s = set_stack c (ix - 1) temp_ebp s;
     Some (upd_task c (register_esp_update (\<lambda>_. Some (c, ix - 1))) s)
   }"

definition start_child :: "nat \<Rightarrow> game \<Rightarrow> (int \<times> game) option" where
  "start_child c s = do {
     let s = s\<lparr>global_PID := c_int (global_PID s + 1)\<rparr>;
     let s = upd_task c (PID_update (\<lambda>_. global_PID s)) s;
     let s = upd_task c (state_update (\<lambda>_. ST_READY)) s;
     s \<leftarrow> prepare_child_stack c s;
     s \<leftarrow> init_stats c s;
     let s = upd_task c (state_update (\<lambda>_. ST_READY)) s;
     h \<leftarrow> list_add_tail (Some (TaskList c)) (Some Readyqueue) (links s);
     Some (PID (tasks s c), s\<lparr>links := h\<rparr>)
   }"

definition copy_child_pages :: "DWord \<Rightarrow> DWord \<Rightarrow> 'a machine_scheme \<Rightarrow> 'a machine_scheme option" where
  "copy_child_pages parent_PT process_PT s =
     copy_data_pages parent_PT (\<lambda>pag. pag) (\<lambda>pag. pag + NUM_PAG_DATA)
       (\<lambda>pag s. get_frame process_PT pag s)
       [NUM_PAG_KERNEL + NUM_PAG_CODE ..< NUM_PAG_KERNEL + NUM_PAG_CODE + NUM_PAG_DATA] s"

definition fork_child :: "kcfg \<Rightarrow> nat \<Rightarrow> DWord \<Rightarrow> game \<Rightarrow> (int \<times> game) option" where
  "fork_child C c process_PT s = do {
     let parent_PT = get_PT (current s) s;
     let s = share_kernel_and_code C process_PT parent_PT s;
     s \<leftarrow> copy_child_pages parent_PT process_PT s;
     let s = set_cr3 (get_DIR (current s) s) s;
     start_child c s
   }"

definition sys_fork :: "kcfg \<Rightarrow> game \<Rightarrow> (int \<times> game) option" where
  "sys_fork C s = do {
     empty \<leftarrow> list_empty (Some Freequeue) (links s);
     if empty then Some (- ENOMEM, s)
     else do {
       (c, s) \<leftarrow> take_free s;
       let s = copy_task_union (current s) c s;
       let s = snd (allocate_DIR C c s);
       let process_PT = get_PT c s;
       let (ok, s) = alloc_data_pages C process_PT s;
       if \<not> ok then do {
         h \<leftarrow> list_add_tail (Some (TaskList c)) (Some Freequeue) (links s);
         Some (- EAGAIN, s\<lparr>links := h\<rparr>)
       } else fork_child C c process_PT s
     }
   }"

section \<open>\<open>sys_write\<close>\<close>

definition TAM_BUFFER :: int where "TAM_BUFFER = 512"

function write_chunks :: "DWord \<Rightarrow> int \<Rightarrow> game \<Rightarrow> (DWord \<times> int \<times> game) option" where
  "write_chunks buffer bytes_left s =
     (if bytes_left > TAM_BUFFER then
        (case copy_in buffer (nat TAM_BUFFER) s of
           None \<Rightarrow> None
         | Some localbuffer \<Rightarrow>
             (let (r, sc) = sys_write_console localbuffer TAM_BUFFER (scr s)
              in write_chunks (buffer + word_of_int r) (bytes_left - r) (s\<lparr>scr := sc\<rparr>)))
      else Some (buffer, bytes_left, s))"
  by pat_completeness auto
termination
  by (relation "measure (\<lambda>(b, n, s). nat n)") (auto simp: sys_write_console_def TAM_BUFFER_def)

declare write_chunks.simps [simp del]

definition sys_write :: "int \<Rightarrow> DWord \<Rightarrow> int \<Rightarrow> game \<Rightarrow> (int \<times> game) option" where
  "sys_write fd buffer nbytes s =
     (let r = check_fd fd ESCRIPTURA in
      if r \<noteq> 0 then Some (r, s)
      else if nbytes < 0 then Some (- EINVAL, s)
      else if access_ok VERIFY_READ buffer (word_of_int nbytes) = 0 then Some (- EFAULT, s)
      else do {
        (buffer, bytes_left, s) \<leftarrow> write_chunks buffer nbytes s;
        if bytes_left > 0 then do {
          localbuffer \<leftarrow> copy_in buffer (nat bytes_left) s;
          let (r, sc) = sys_write_console localbuffer bytes_left (scr s);
          Some (nbytes - (bytes_left - r), s\<lparr>scr := sc\<rparr>)
        } else Some (nbytes - bytes_left, s)
      })"

section \<open>\<open>sys_exit\<close>, \<open>sys_yield\<close>, \<open>sys_get_stats\<close>, \<open>sys_pollEvent\<close>\<close>

definition sys_exit :: "kcfg \<Rightarrow> game \<Rightarrow> game option" where
  "sys_exit C s = do {
     let process_PT = get_PT (current s) s;
     let s = release_data_pages C process_PT NUM_PAG_DATA s;
     h \<leftarrow> list_add_tail (Some (TaskList (current s))) (Some Freequeue) (links s);
     let s = s\<lparr>links := h\<rparr>;
     let s = upd_task (current s) (PID_update (\<lambda>_. -1)) s;
     sched_next_rr s
   }"

text \<open>\<open>sys_yield\<close> returns 0 once the process runs again; see the handlers.\<close>

definition sys_yield :: "game \<Rightarrow> game option" where
  "sys_yield s = force_task_switch s"

definition find_pid :: "int \<Rightarrow> game \<Rightarrow> nat option" where
  "find_pid pid s = List.find (\<lambda>i. PID (tasks s i) = pid) [0..<NR_TASKS]"

definition sys_get_stats :: "int \<Rightarrow> DWord \<Rightarrow> game \<Rightarrow> (int \<times> game) option" where
  "sys_get_stats pid st s =
     (if access_ok VERIFY_WRITE st 28 = 0 then Some (- EFAULT, s)
      else if pid < 0 then Some (- EINVAL, s)
      else (case find_pid pid s of
          None \<Rightarrow> Some (- ESRCH, s)
        | Some i \<Rightarrow> do {
            let s = upd_task i (p_stats_update
                      (remaining_ticks_update (\<lambda>_. word_of_int (remaining_quantum s)))) s;
            s \<leftarrow> copy_out st (stats_bytes (p_stats (tasks s i))) s;
            Some (0, s)
          }))"

definition sys_pollEvent :: "DWord \<Rightarrow> game \<Rightarrow> (int \<times> game) option" where
  "sys_pollEvent keyboard s =
     (if access_ok VERIFY_WRITE keyboard 128 = 0 then Some (- EFAULT, s)
      else do {
        s \<leftarrow> copy_out keyboard (keyboard_vec s) s;
        Some (0, s)
      })"

end
