(* ===== verification/Zeos_Kbd.thy ===== *)
theory Zeos_Kbd
  imports Zeos_Prelude
begin

text \<open>
  The scan-code table \<open>char_map\<close> of \<^verbatim>\<open>interrupt.c\<close>. The five kernels have the same table but
  for four non-ASCII letters, whose bytes depend on the encoding of the source file: a
  multi-byte character constant is truncated to its last byte. The table has 98 entries;
  a scan code has seven bits, so the routines can index past its end, and what they find
  there (\<open>beyond\<close>) is whatever the linker placed after the table.
\<close>

definition char_map_with :: "Byte \<Rightarrow> Byte \<Rightarrow> Byte \<Rightarrow> Byte \<Rightarrow> Byte list" where
  "char_map_with excl enye ord cedilla =
     [0, 0] @ map of_char ''1234567'' @ map of_char ''890'' @ [39, excl, 0, 0] @
     map of_char ''qwertyuiop'' @ [96] @ map of_char ''+'' @ [0, 0] @
     map of_char ''asdfghjkl'' @ [enye, 0, ord, 0, cedilla] @
     map of_char ''zxcvbnm,.-'' @ [0] @ map of_char ''*'' @ replicate 15 0 @
     map of_char ''789-456+1230'' @ [0, 0, 0] @ map of_char ''<'' @ replicate 11 0"

definition char_map_game :: "Byte list" where
  "char_map_game = char_map_with 0xA1 0xB1 0xBA 0xA7"

definition char_map :: "Byte list" where
  "char_map = char_map_with 0xBD 0xBD 0xBD 0xBD"

definition char_map_ex2 :: "Byte list" where
  "char_map_ex2 = char_map_with 0xA1 0xF1 0xBA 0xE7"

definition char_at :: "(nat \<Rightarrow> Byte) \<Rightarrow> Byte list \<Rightarrow> Byte \<Rightarrow> Byte" where
  "char_at beyond cm c = (if unat c < length cm then cm ! unat c else beyond (unat c - length cm))"

lemma length_char_map: "length (char_map_with a b c d) = 98"
  by (simp add: char_map_with_def)

text \<open>Only the make codes 98 to 127 fall outside the table.\<close>

lemma char_at_inside: "unat c < 98 \<Longrightarrow> char_at f (char_map_with a b e d) c =
    char_map_with a b e d ! unat c"
  by (simp add: char_at_def length_char_map)

end
