(* ===== verification/Game_Handlers.thy ===== *)
theory Game_Handlers
  imports Game_Sys Zeos_Kbd
begin

text \<open>
  The interrupt routines of \<^verbatim>\<open>so2_old/GAME/zeos/interrupt.c\<close>, the entry points of
  \<^verbatim>\<open>entry.S\<close> that call them, the system call table and the boot sequence of \<^verbatim>\<open>system.c\<close>.

  At rest the kernel stack of the running task is empty: \<open>esp\<close> is \<open>(current, 1024)\<close>. An
  interrupt taken in user mode starts at \<open>tss.esp0\<close> and saves 16 words, one taken in the
  idle task stays on its stack and saves 14; \<open>sysenter\<close> starts at \<open>MSR 0x175\<close>.
\<close>

section \<open>Keyboard and clock\<close>

definition KB_BUFFER_SIZE :: int where "KB_BUFFER_SIZE = 16"

definition keyboard_init :: "game \<Rightarrow> game" where
  "keyboard_init s = s\<lparr>k_buffer := (k_buffer s)\<lparr>kb_head := 0, kb_tail := 0\<rparr>\<rparr>"

definition kb_put :: "event_t \<Rightarrow> keyboard_buffer \<Rightarrow> keyboard_buffer" where
  "kb_put ev b =
     (let next_head = (kb_head b + 1) mod KB_BUFFER_SIZE in
      if next_head \<noteq> kb_tail b
      then b\<lparr>events := (events b)[nat (kb_head b) := ev], kb_head := next_head\<rparr>
      else b)"

definition kb_get :: "keyboard_buffer \<Rightarrow> (event_t \<times> keyboard_buffer) option" where
  "kb_get b =
     (if kb_head b \<noteq> kb_tail b
      then Some (events b ! nat (kb_tail b), b\<lparr>kb_tail := (kb_tail b + 1) mod KB_BUFFER_SIZE\<rparr>)
      else None)"

definition scan_event :: "Byte \<Rightarrow> event_t" where
  "scan_event c =
     (if c AND 0x80 \<noteq> 0 then \<lparr>pressed = 0, scancode = c AND 0x7F\<rparr>
      else \<lparr>pressed = 1, scancode = c\<rparr>)"

definition keyboard_routine :: "Byte \<Rightarrow> game \<Rightarrow> game" where
  "keyboard_routine c s = s\<lparr>k_buffer := kb_put (scan_event c) (k_buffer s)\<rparr>"

definition show_event :: "kcfg \<Rightarrow> event_t \<Rightarrow> screen \<Rightarrow> screen" where
  "show_event C ev sc =
     (if pressed ev \<noteq> 0 then
        let c = char_at (after_char_map C) char_map_game (scancode ev) in
        if c \<noteq> 0 then printc 10 (printc c (printk (str ''Buffer OK: '') sc))
        else printk (str ''Buffer OK: [Special Key]'' @ [10]) sc
      else sc)"

definition clock_routine :: "kcfg \<Rightarrow> game \<Rightarrow> game option" where
  "clock_routine C s = do {
     let s = s\<lparr>scr := zeos_show_clock C (scr s)\<rparr>;
     let s = s\<lparr>zeos_ticks := c_int (zeos_ticks s + 1)\<rparr>;
     let s = (case kb_get (k_buffer s) of
          None \<Rightarrow> s
        | Some (ev, b) \<Rightarrow> s\<lparr>k_buffer := b, scr := show_event C ev (scr s)\<rparr>);
     schedule s
   }"

section \<open>Entry and exit\<close>

definition in_idle :: "game \<Rightarrow> bool" where
  "in_idle s \<longleftrightarrow> idle_task s = Some (current s)"

definition entry_words :: "game \<Rightarrow> nat" where
  "entry_words s = (if in_idle s then 14 else 16)"

definition enter_interrupt :: "game \<Rightarrow> game" where
  "enter_interrupt s =
     (if in_idle s then s\<lparr>esp := (fst (esp s), snd (esp s) - 14), eip := CodeAddr ''kernel''\<rparr>
      else s\<lparr>esp := (fst (tss_esp0 s), snd (tss_esp0 s) - 16), eip := CodeAddr ''kernel''\<rparr>)"

definition sysenter :: "game \<Rightarrow> game" where
  "sysenter s = s\<lparr>esp := (fst (msr_175 s), snd (msr_175 s) - 16), eip := CodeAddr ''kernel''\<rparr>"

text \<open>The frames between a handler and \<open>task_switch\<close>, and the way back through them.\<close>

definition call_path :: "kcfg \<Rightarrow> string \<Rightarrow> game \<Rightarrow> game" where
  "call_path C h s =
     push (CodeAddr h) (s\<lparr>esp := (fst (esp s), snd (esp s) - frame_words C h)\<rparr>)"

definition back_to_handler :: "kcfg \<Rightarrow> game \<Rightarrow> game option" where
  "back_to_handler C s =
     (if eip s = CodeAddr ''clock_handler'' then do {
        let s = drop_words (frame_words C ''clock_handler'') s;
        s \<leftarrow> system_to_user s;
        Some (drop_words (entry_words s) s)
      }
      else if eip s = CodeAddr ''sys_yield'' then
        Some (drop_words 16 (drop_words (frame_words C ''sys_yield'') (s\<lparr>eax := 0\<rparr>)))
      else if eip s = CodeAddr ''system_call_handler'' then Some (drop_words 16 s)
      else if eip s = CodeAddr ''cpu_idle'' then Some s
      else None)"

definition return_path :: "kcfg \<Rightarrow> game \<Rightarrow> game option" where
  "return_path C s =
     back_to_handler C (if eip s = CodeAddr ''kernel'' then ret s else resume s)"

definition clock_handler :: "kcfg \<Rightarrow> game \<Rightarrow> game option" where
  "clock_handler C s = do {
     s \<leftarrow> user_to_system (enter_interrupt s);
     s \<leftarrow> clock_routine C (call_path C ''clock_handler'' s);
     return_path C s
   }"

definition keyboard_handler :: "Byte \<Rightarrow> game \<Rightarrow> game option" where
  "keyboard_handler c s = do {
     s \<leftarrow> user_to_system (enter_interrupt s);
     s \<leftarrow> system_to_user (keyboard_routine c s);
     Some (drop_words (entry_words s) s)
   }"

section \<open>System calls\<close>

datatype syscall = NiSyscall | Exit | Fork | Write | PollEvent | Gettime | Yield | Getpid | GetStats

definition sys_call_table :: "syscall list" where
  "sys_call_table = (replicate 36 NiSyscall)[1 := Exit, 2 := Fork, 4 := Write, 5 := PollEvent,
     10 := Gettime, 13 := Yield, 20 := Getpid, 35 := GetStats]"

definition MAX_SYSCALL :: int where "MAX_SYSCALL = int (length sys_call_table)"

definition sysexit :: "(int \<times> game) option \<Rightarrow> game option" where
  "sysexit r = map_option (\<lambda>(v, s). drop_words 16 (s\<lparr>eax := v\<rparr>)) r"

text \<open>\<open>sys_fork\<close> reads its own frame pointer: the call and its prologue are explicit.\<close>

definition call_sys_fork :: "kcfg \<Rightarrow> game \<Rightarrow> (int \<times> game) option" where
  "call_sys_fork C s = do {
     let s = movl_esp_ebp (push_reg ebp (push (CodeAddr ''system_call_handler'') s));
     (v, s) \<leftarrow> sys_fork C s;
     Some (v, drop_words 1 (pop_ebp s))
   }"

fun do_syscall :: "kcfg \<Rightarrow> syscall \<Rightarrow> int \<times> DWord \<times> int \<Rightarrow> game \<Rightarrow> game option" where
  "do_syscall C NiSyscall _ s = sysexit (Some (sys_ni_syscall, s))"
| "do_syscall C Exit _ s = do {
     s \<leftarrow> sys_exit C (call_path C ''sys_exit'' s);
     return_path C s
   }"
| "do_syscall C Fork _ s = sysexit (call_sys_fork C s)"
| "do_syscall C Write (fd, buffer, n) s = sysexit (sys_write fd buffer n s)"
| "do_syscall C PollEvent (keyboard, _, _) s = sysexit (sys_pollEvent (word_of_int keyboard) s)"
| "do_syscall C Gettime _ s = sysexit (Some (sys_gettime s, s))"
| "do_syscall C Yield _ s = do {
     s \<leftarrow> sys_yield (call_path C ''sys_yield'' s);
     return_path C s
   }"
| "do_syscall C Getpid _ s = sysexit (Some (sys_getpid s, s))"
| "do_syscall C GetStats (pid, st, _) s = sysexit (sys_get_stats pid st s)"

text \<open>
  The bound test lets \<open>MAX_SYSCALL\<close> itself through (\<open>jg\<close>): the call then goes through the
  word after the table.
\<close>

definition system_call_handler :: "kcfg \<Rightarrow> int \<Rightarrow> int \<times> DWord \<times> int \<Rightarrow> game \<Rightarrow> game option" where
  "system_call_handler C n args s =
     (let s = sysenter s in
      if n < 0 \<or> n > MAX_SYSCALL then sysexit (Some (- ENOSYS, s))
      else if nat n < length sys_call_table then do_syscall C (sys_call_table ! nat n) args s
      else None)"

section \<open>Boot\<close>

definition protect_page :: "DWord \<Rightarrow> nat \<Rightarrow> 'a mm_state_scheme \<Rightarrow> 'a mm_state_scheme" where
  "protect_page PT p m = set_pte PT p (set_present 0 (pt m PT p)) m"

definition init_table_pages_game :: "kcfg \<Rightarrow> game \<Rightarrow> game" where
  "init_table_pages_game C s =
     fold (\<lambda>j s.
       let PT = pagusr_page C j;
           s = fold (\<lambda>i. set_pte PT i 0) [0..<TOTAL_PAGES] s;
           s = fold (init_kernel_page PT) [1..<NUM_PAG_KERNEL] s;
           s = protect_page PT (protected_tasks_at C) s
       in protect_page PT (protected_tasks_at C + 11) s)
       [0..<NR_TASKS] s"

definition init_mm :: "kcfg \<Rightarrow> game \<Rightarrow> game" where
  "init_mm C s =
     (let s = init_table_pages_game C s;
          s = snd (init_frames s);
          s = init_dir_pages C s;
          s = snd (allocate_DIR C 0 s);
          s = set_cr3 (get_DIR 0 s) s
      in set_pe_flag s)"

text \<open>
  The part of \<open>main\<close> after the descriptor tables; \<open>user_image\<close> is the user program the loader
  left behind the kernel, copied to \<open>L_USER_START\<close>.
\<close>

definition main :: "kcfg \<Rightarrow> Byte list \<Rightarrow> game \<Rightarrow> game option" where
  "main C user_image s = do {
     let s = s\<lparr>scr := printk (str ''Kernel Loaded!    '') (scr s)\<rparr>;
     let s = init_mm C s;
     s \<leftarrow> init_sched s;
     s \<leftarrow> init_idle C s;
     s \<leftarrow> init_task1 C s;
     let s = keyboard_init s;
     s \<leftarrow> copy_out L_USER_START user_image s;
     let s = s\<lparr>scr := printk (str ''Entering user mode...'') (scr s)\<rparr>;
     Some (s\<lparr>esp := tss_esp0 s\<rparr>)
   }"

end
