(* ===== verification/Game_Kbd.thy ===== *)
theory Game_Kbd
  imports Game_Handlers
begin

text \<open>
  The keyboard ring buffer of \<^verbatim>\<open>GAME\<close> implements a bounded first-in first-out queue of 15
  events (one of the 16 cells stays empty to tell full from empty). The contract of such a
  queue is the locale \<open>bounded_fifo\<close>; the interrupt routine is the producer and the clock
  routine the consumer.
\<close>

section \<open>Contract\<close>

fun put_all :: "('e \<Rightarrow> 'b \<Rightarrow> 'b) \<Rightarrow> 'e list \<Rightarrow> 'b \<Rightarrow> 'b" where
  "put_all put [] b = b"
| "put_all put (e # es) b = put_all put es (put e b)"

fun get_all :: "('b \<Rightarrow> ('e \<times> 'b) option) \<Rightarrow> nat \<Rightarrow> 'b \<Rightarrow> 'e list \<times> 'b" where
  "get_all get 0 b = ([], b)"
| "get_all get (Suc n) b =
     (case get b of None \<Rightarrow> ([], b)
      | Some (e, b) \<Rightarrow> let (es, b) = get_all get n b in (e # es, b))"

locale bounded_fifo =
  fixes ok :: "'b \<Rightarrow> bool"
    and abs :: "'b \<Rightarrow> 'e list"
    and put :: "'e \<Rightarrow> 'b \<Rightarrow> 'b"
    and get :: "'b \<Rightarrow> ('e \<times> 'b) option"
    and cap :: nat
  assumes abs_bound: "ok b \<Longrightarrow> length (abs b) \<le> cap"
    and put_ok: "ok b \<Longrightarrow> ok (put e b)"
    and put_abs: "ok b \<Longrightarrow> abs (put e b) = (if length (abs b) < cap then abs b @ [e] else abs b)"
    and get_none: "ok b \<Longrightarrow> get b = None \<longleftrightarrow> abs b = []"
    and get_some: "ok b \<Longrightarrow> get b = Some (e, b') \<Longrightarrow> ok b' \<and> abs b = e # abs b'"
begin

lemma put_all_abs:
  "ok b \<Longrightarrow> ok (put_all put es b) \<and> abs (put_all put es b) = take cap (abs b @ es)"
proof (induction es arbitrary: b)
  case Nil
  then show ?case using abs_bound by simp
next
  case (Cons e es)
  note IH = Cons.IH [OF put_ok [OF Cons.prems, of e]]
  show ?case
    using IH Cons.prems abs_bound [OF Cons.prems] by (auto simp: put_abs take_Cons')
qed

lemma get_all_abs:
  "ok b \<Longrightarrow> \<exists>b'. get_all get n b = (take n (abs b), b') \<and> ok b' \<and> abs b' = drop n (abs b)"
proof (induction n arbitrary: b)
  case (Suc n)
  show ?case
  proof (cases "get b")
    case None
    with get_none [OF Suc.prems] Suc.prems show ?thesis by simp
  next
    case (Some p)
    obtain e b1 where p: "p = (e, b1)" by (cases p)
    with get_some [OF Suc.prems] Some have b1: "ok b1" "abs b = e # abs b1" by blast+
    from Suc.IH [OF b1(1)] obtain b' where
      "get_all get n b1 = (take n (abs b1), b')" "ok b'" "abs b' = drop n (abs b1)" by blast
    then show ?thesis by (simp add: Some p b1)
  qed
qed simp

text \<open>Whatever is produced comes out in order, up to the capacity; the excess is dropped.\<close>

lemma produce_consume:
  assumes "ok b" and "abs b = []"
  shows "fst (get_all get n (put_all put es b)) = take n (take cap es)"
  using put_all_abs [OF assms(1), of es] get_all_abs [of "put_all put es b" n] assms(2) by auto

end

section \<open>The ring buffer\<close>

definition kb_ok :: "keyboard_buffer \<Rightarrow> bool" where
  "kb_ok b \<longleftrightarrow> length (events b) = 16 \<and> 0 \<le> kb_head b \<and> kb_head b < 16 \<and>
     0 \<le> kb_tail b \<and> kb_tail b < 16"

definition kb_count :: "keyboard_buffer \<Rightarrow> nat" where
  "kb_count b = nat ((kb_head b - kb_tail b) mod 16)"

definition kb_abs :: "keyboard_buffer \<Rightarrow> event_t list" where
  "kb_abs b = map (\<lambda>i. events b ! nat ((kb_tail b + int i) mod 16)) [0..<kb_count b]"

lemma kb_count_bound: "kb_count b \<le> 15"
proof -
  have "(kb_head b - kb_tail b) mod 16 < 16" by simp
  then show ?thesis by (simp add: kb_count_def)
qed

lemma kb_put_ok: "kb_ok b \<Longrightarrow> kb_ok (kb_put e b)"
  by (auto simp: kb_ok_def kb_put_def KB_BUFFER_SIZE_def Let_def)

lemma mod_16:
  assumes "0 \<le> (h :: int)" "h < 16" "0 \<le> t" "t < 16"
  shows "(h - t) mod 16 = (if t \<le> h then h - t else h - t + 16)"
    and "(h + t) mod 16 = (if h + t < 16 then h + t else h + t - 16)"
proof -
  have "(h - t) mod 16 = (h - t + 16) mod 16" by simp
  then show "(h - t) mod 16 = (if t \<le> h then h - t else h - t + 16)"
    using assms mod_pos_pos_trivial [of "h - t" 16] mod_pos_pos_trivial [of "h - t + 16" 16] by auto
  have "(h + t) mod 16 = (h + t - 16) mod 16" by simp
  then show "(h + t) mod 16 = (if h + t < 16 then h + t else h + t - 16)"
    using assms mod_pos_pos_trivial [of "h + t" 16] mod_pos_pos_trivial [of "h + t - 16" 16] by auto
qed

lemma kb_full_iff:
  assumes "kb_ok b"
  shows "(kb_head b + 1) mod KB_BUFFER_SIZE = kb_tail b \<longleftrightarrow> kb_count b = 15"
  using assms mod_16 [of "kb_head b" "kb_tail b"] mod_16(2) [of "kb_head b" 1]
  by (auto simp: kb_ok_def kb_count_def KB_BUFFER_SIZE_def split: if_splits)

lemma kb_cell_distinct:
  assumes "kb_ok b" and "i < kb_count b"
  shows "nat ((kb_tail b + int i) mod 16) \<noteq> nat (kb_head b)"
  using assms mod_16(1) [of "kb_head b" "kb_tail b"] mod_16(2) [of "kb_tail b" "int i"]
    kb_count_bound [of b]
  by (auto simp: kb_ok_def kb_count_def split: if_splits)

lemma kb_put_abs:
  assumes "kb_ok b"
  shows "kb_abs (kb_put e b) = (if length (kb_abs b) < 15 then kb_abs b @ [e] else kb_abs b)"
proof (cases "kb_count b = 15")
  case True
  with kb_full_iff [OF assms] have "kb_put e b = b" by (simp add: kb_put_def Let_def)
  with True show ?thesis by (simp add: kb_abs_def)
next
  case False
  with kb_full_iff [OF assms] have put: "kb_put e b = b\<lparr>
      events := (events b)[nat (kb_head b) := e], kb_head := (kb_head b + 1) mod 16\<rparr>"
    by (simp add: kb_put_def Let_def KB_BUFFER_SIZE_def)
  have cnt: "kb_count (kb_put e b) = Suc (kb_count b)"
    using False assms mod_16(1) [of "kb_head b" "kb_tail b"] mod_16(2) [of "kb_head b" 1]
      mod_16(1) [of "(kb_head b + 1) mod 16" "kb_tail b"]
    by (auto simp: put kb_count_def kb_ok_def split: if_splits)
  have old: "map (\<lambda>i. events (kb_put e b) ! nat ((kb_tail b + int i) mod 16)) [0..<kb_count b] =
      kb_abs b"
    unfolding kb_abs_def put
    using kb_cell_distinct [OF assms, THEN not_sym] by (simp cong: map_cong)
  have "(kb_tail b + int (kb_count b)) mod 16 = kb_head b"
    using assms by (simp add: kb_count_def kb_ok_def mod_add_right_eq)
  then have new: "events (kb_put e b) ! nat ((kb_tail b + int (kb_count b)) mod 16) = e"
    using assms by (simp add: put kb_ok_def)
  have "kb_tail (kb_put e b) = kb_tail b" by (simp add: put)
  then have "kb_abs (kb_put e b) = kb_abs b @ [e]"
    using old new by (simp add: kb_abs_def [of "kb_put e b"] cnt)
  moreover have "length (kb_abs b) < 15"
    using False kb_count_bound [of b] by (simp add: kb_abs_def)
  ultimately show ?thesis by simp
qed

lemma kb_empty_iff: "kb_ok b \<Longrightarrow> kb_head b = kb_tail b \<longleftrightarrow> kb_abs b = []"
proof -
  assume b: "kb_ok b"
  have "(kb_head b - kb_tail b) mod 16 = 0 \<longleftrightarrow> kb_head b = kb_tail b"
    using b mod_16(1) [of "kb_head b" "kb_tail b"] by (auto simp: kb_ok_def)
  moreover have "kb_count b = 0 \<longleftrightarrow> (kb_head b - kb_tail b) mod 16 = 0"
    using pos_mod_sign [of 16 "kb_head b - kb_tail b"] by (auto simp: kb_count_def)
  ultimately show ?thesis by (simp add: kb_abs_def)
qed

lemma kb_get_abs:
  assumes b: "kb_ok b" and "kb_get b = Some (e, b')"
  shows "kb_ok b' \<and> kb_abs b = e # kb_abs b'"
proof -
  from assms(2) have ne: "kb_head b \<noteq> kb_tail b" and e: "e = events b ! nat (kb_tail b)"
    and b': "b' = b\<lparr>kb_tail := (kb_tail b + 1) mod 16\<rparr>"
    by (auto simp: kb_get_def KB_BUFFER_SIZE_def split: if_splits)
  have cnt: "kb_count b = Suc (kb_count b')"
  proof -
    have "(kb_head b - kb_tail b) mod 16 = (kb_head b - (kb_tail b + 1) mod 16) mod 16 + 1"
      using ne b mod_16(1) [of "kb_head b" "kb_tail b"] mod_16(2) [of "kb_tail b" 1]
        mod_16(1) [of "kb_head b" "(kb_tail b + 1) mod 16"]
      by (auto simp: kb_ok_def split: if_splits)
    then show ?thesis by (simp add: kb_count_def b' nat_add_distrib)
  qed
  have shift: "((kb_tail b + 1) mod 16 + int i) mod 16 = (kb_tail b + int (Suc i)) mod 16" for i
    by (simp add: mod_add_left_eq add.assoc)
  have "[0..<kb_count b] = 0 # map Suc [0..<kb_count b']"
    by (simp add: cnt upt_conv_Cons map_Suc_upt del: upt_Suc)
  then have "kb_abs b = events b ! nat (kb_tail b mod 16) # kb_abs b'"
    by (simp add: kb_abs_def comp_def b' shift)
  with b show ?thesis by (simp add: e b' kb_ok_def)
qed

interpretation kb: bounded_fifo kb_ok kb_abs kb_put kb_get 15
proof
  fix b e b'
  assume b: "kb_ok b"
  show "length (kb_abs b) \<le> 15" by (simp add: kb_abs_def kb_count_bound)
  show "kb_ok (kb_put e b)" by (rule kb_put_ok [OF b])
  show "kb_abs (kb_put e b) = (if length (kb_abs b) < 15 then kb_abs b @ [e] else kb_abs b)"
    by (rule kb_put_abs [OF b])
  show "kb_get b = None \<longleftrightarrow> kb_abs b = []"
    using kb_empty_iff [OF b] by (auto simp: kb_get_def)
  show "kb_get b = Some (e, b') \<Longrightarrow> kb_ok b' \<and> kb_abs b = e # kb_abs b'"
    by (rule kb_get_abs [OF b])
qed

text \<open>A sequence of keyboard interrupts is a sequence of insertions.\<close>

lemma fold_keyboard_routine:
  "k_buffer (fold keyboard_routine cs s) = put_all kb_put (map scan_event cs) (k_buffer s)"
  by (induction cs arbitrary: s) (simp_all add: keyboard_routine_def)

end
