(* ===== verification/Game_Inv.thy ===== *)
theory Game_Inv
  imports Game_Kbd
begin

text \<open>
  The invariant of the \<^verbatim>\<open>GAME\<close> kernel between two entries into it, part one: scheduling.
  The task array is divided between the free queue, the ready queue, the running task and
  the idle task; every task that waits for the processor can be resumed; the registers the
  next entry will use (\<open>tss.esp0\<close>, \<open>MSR 0x175\<close>, \<open>cr3\<close>) are those of the running task.
\<close>

section \<open>The scheduling invariant\<close>

definition live :: "nat list \<Rightarrow> nat set" where
  "live fs = {..<NR_TASKS} - set fs"

text \<open>
  What \<open>switch_stack\<close> finds at a saved stack pointer \<open>(t, k)\<close>: a frame of \<open>task_switch\<close>
  under the clock handler or under \<open>sys_yield\<close>, the frame \<open>sys_fork\<close> prepared, or the
  initial frame of the idle task. The word counts say that unwinding it empties the stack.
\<close>

definition resume_shape :: "kcfg \<Rightarrow> nat \<Rightarrow> (nat \<Rightarrow> kword) \<Rightarrow> nat \<Rightarrow> nat \<Rightarrow> bool" where
  "resume_shape C idle st t k \<longleftrightarrow>
     (st (k + 1) = CodeAddr ''task_switch'' \<and> st (k + 7) = CodeAddr ''clock_handler'' \<and>
        k + 8 + frame_words C ''clock_handler'' + (if t = idle then 14 else 16) = KERNEL_STACK_SIZE) \<or>
     (st (k + 1) = CodeAddr ''task_switch'' \<and> st (k + 7) = CodeAddr ''sys_yield'' \<and>
        k + 8 + frame_words C ''sys_yield'' + 16 = KERNEL_STACK_SIZE) \<or>
     (st (k + 1) = CodeAddr ''ret_from_fork'' \<and> st (k + 2) = CodeAddr ''system_call_handler'' \<and>
        k + 3 + 16 = KERNEL_STACK_SIZE) \<or>
     (st (k + 1) = CodeAddr ''cpu_idle'' \<and> k + 2 = KERNEL_STACK_SIZE)"

definition resumable :: "kcfg \<Rightarrow> nat \<Rightarrow> game \<Rightarrow> nat \<Rightarrow> bool" where
  "resumable C idle s t \<longleftrightarrow>
     (\<exists>k. register_esp (tasks s t) = Some (t, k) \<and> resume_shape C idle (stacks s t) t k)"

definition live_ok :: "kcfg \<Rightarrow> nat list \<Rightarrow> game \<Rightarrow> bool" where
  "live_ok C fs s \<longleftrightarrow> (\<forall>t\<in>live fs. total_quantum (tasks s t) = DEFAULT_QUANTUM \<and>
     dir_pages_baseAddr (tasks s t) = dir_page C t)"

definition waiting_ok :: "kcfg \<Rightarrow> nat list \<Rightarrow> nat \<Rightarrow> nat \<Rightarrow> game \<Rightarrow> bool" where
  "waiting_ok C rs idle c s \<longleftrightarrow>
     (\<forall>t\<in>set rs. state (tasks s t) = ST_READY) \<and>
     (\<forall>t\<in>insert idle (set rs) - {c}. resumable C idle s t)"

definition sched_inv :: "kcfg \<Rightarrow> nat list \<Rightarrow> nat list \<Rightarrow> nat \<Rightarrow> game \<Rightarrow> bool" where
  "sched_inv C fs rs idle s \<longleftrightarrow>
     task_queues (links s) fs rs \<and> idle_task s = Some idle \<and>
     insert (current s) (insert idle (set fs \<union> set rs)) = {..<NR_TASKS} \<and>
     current s \<notin> set fs \<and> current s \<notin> set rs \<and> idle \<notin> set fs \<and>
     state (tasks s (current s)) = ST_RUN \<and> waiting_ok C rs idle (current s) s \<and>
     live_ok C fs s \<and>
     tss_esp0 s = (current s, KERNEL_STACK_SIZE) \<and> msr_175 s = (current s, KERNEL_STACK_SIZE) \<and>
     cr3 s = dir_page C (current s)"

lemma sched_invD:
  assumes "sched_inv C fs rs idle s"
  shows "task_queues (links s) fs rs" "idle_task s = Some idle"
    "insert (current s) (insert idle (set fs \<union> set rs)) = {..<NR_TASKS}"
    "current s \<notin> set fs" "current s \<notin> set rs" "idle \<notin> set fs"
    "state (tasks s (current s)) = ST_RUN" "waiting_ok C rs idle (current s) s" "live_ok C fs s"
    "tss_esp0 s = (current s, KERNEL_STACK_SIZE)" "msr_175 s = (current s, KERNEL_STACK_SIZE)"
    "cr3 s = dir_page C (current s)"
  using assms by (simp_all add: sched_inv_def)

definition quantum_ok :: "game \<Rightarrow> bool" where
  "quantum_ok s \<longleftrightarrow> 0 < remaining_quantum s \<and> remaining_quantum s \<le> DEFAULT_QUANTUM"

section \<open>What does not disturb it\<close>

definition frame_queue :: "game \<Rightarrow> game \<Rightarrow> bool" where
  "frame_queue s s' \<longleftrightarrow>
     links s' = links s \<and> stacks s' = stacks s \<and> remaining_quantum s' = remaining_quantum s \<and>
     tss_esp0 s' = tss_esp0 s \<and> msr_175 s' = msr_175 s \<and> cr3 s' = cr3 s \<and>
     (\<forall>t. state (tasks s' t) = state (tasks s t) \<and>
        register_esp (tasks s' t) = register_esp (tasks s t))"

lemma frame_queue_refl [simp]: "frame_queue s s"
  by (simp add: frame_queue_def)

lemma frame_queue_trans: "frame_queue s s' \<Longrightarrow> frame_queue s' s'' \<Longrightarrow> frame_queue s s''"
  by (simp add: frame_queue_def)

lemma sched_inv_frame:
  assumes "sched_inv C fs rs idle s" and "frame_queue s s'" and "current s' = current s"
    and "idle_task s' = idle_task s"
    and "\<And>t. total_quantum (tasks s' t) = total_quantum (tasks s t)"
    and "\<And>t. dir_pages_baseAddr (tasks s' t) = dir_pages_baseAddr (tasks s t)"
  shows "sched_inv C fs rs idle s'"
  using assms unfolding sched_inv_def frame_queue_def waiting_ok_def resumable_def live_ok_def
  by simp

lemma update_stats_frame:
  assumes "upd \<in> {user_ticks_update, system_ticks_update, ready_ticks_update}"
  obtains s' where "update_stats upd t s = Some s'" and "frame_sched s s'" and "frame_queue s s'"
    and "esp s' = esp s" and "ebp s' = ebp s" and "eip s' = eip s" and "eax s' = eax s"
    and "ebx s' = ebx s" and "esi s' = esi s" and "edi s' = edi s"
proof -
  obtain now where "update_stats upd t s =
      Some (upd_task t (p_stats_update (charge upd now)) (s\<lparr>tsc_pos := tsc_pos s + 1\<rparr>))"
    using update_stats_step by blast
  then show thesis
    by (rule that) (use assms in \<open>auto simp: frame_sched_def frame_queue_def upd_task_def\<close>)
qed

lemma user_to_system_frame:
  obtains s' where "user_to_system s = Some s'" and "frame_sched s s'" and "frame_queue s s'"
    and "esp s' = esp s" and "ebp s' = ebp s" and "eip s' = eip s" and "eax s' = eax s"
    and "ebx s' = ebx s" and "esi s' = esi s" and "edi s' = edi s"
  by (rule update_stats_frame [of user_ticks_update "current s" s])
     (simp_all add: that user_to_system_def)

lemma system_to_user_frame:
  obtains s' where "system_to_user s = Some s'" and "frame_sched s s'" and "frame_queue s s'"
    and "esp s' = esp s" and "ebp s' = ebp s" and "eip s' = eip s" and "eax s' = eax s"
    and "ebx s' = ebx s" and "esi s' = esi s" and "edi s' = edi s"
  by (rule update_stats_frame [of system_ticks_update "current s" s])
     (simp_all add: that system_to_user_def)

section \<open>Switching to the next task\<close>

lemma switch_inv:
  assumes q: "task_queues (links s) fs rs" and idle: "idle_task s = Some idle"
    and c: "esp s = (c, k + 7)" and t: "t = next_task rs idle" "t \<noteq> c"
    and cover: "insert idle (set fs \<union> set rs) = {..<NR_TASKS}" and "idle \<notin> set fs"
    and w: "waiting_ok C rs idle c s" and l: "live_ok C fs s"
    and shape: "c \<notin> set fs \<Longrightarrow> resume_shape C idle (stacks (task_switch_entry s) c) c k"
  obtains s' j where "sched_next_rr s = Some s'" and "sched_inv C fs (tl rs) idle s'"
    and "frame_sched s s'" and "current s' = t" and "esp s' = (t, j + 2)"
    and "eip s' = stacks s' t (j + 1)" and "resume_shape C idle (stacks s' t) t j"
    and "remaining_quantum s' = DEFAULT_QUANTUM"
proof -
  have tin: "t \<in> insert idle (set rs)" and tl: "set (tl rs) \<subseteq> set rs"
    using t by (cases rs; auto simp: next_task_def)+
  have fresh: "t \<notin> set fs" "t \<notin> set (tl rs)" "insert t (insert idle (set (tl rs))) = insert idle (set rs)"
    using t(1) task_queues_distinct [OF q] \<open>idle \<notin> set fs\<close>
    by (cases rs; auto simp: next_task_def)+
  have tl_live: "t \<in> live fs" using tin fresh(1) cover by (auto simp: live_def)
  from w tin t(2) have "resumable C idle s t" by (auto simp: waiting_ok_def)
  then obtain j where j: "register_esp (tasks s t) = Some (t, j)"
      "resume_shape C idle (stacks s t) t j" by (auto simp: resumable_def)
  obtain s' where s': "sched_next_rr s = Some s'" "task_queues (links s') fs (tl rs)"
    "frame_sched s s'" "esp s' = (t, j + 2)" "stacks s' = stacks (task_switch_entry s)"
    "eip s' = stacks s' t (j + 1)" "tss_esp0 s' = (t, KERNEL_STACK_SIZE)"
    "msr_175 s' = (t, KERNEL_STACK_SIZE)" "cr3 s' = dir_pages_baseAddr (tasks s t)"
    "remaining_quantum s' = total_quantum (tasks s t)"
    "\<And>u. state (tasks s' u) = (if u = t then ST_RUN else state (tasks s u))"
    "\<And>u. register_esp (tasks s' u) = (if u = c then Some (c, k) else register_esp (tasks s u))"
    by (rule sched_next_rr_spec [OF q idle t(1) j(1) c]) (rule that; assumption)
  have stack: "stacks s' u = stacks s u" if "u \<noteq> c" for u
    using that by (simp add: s'(5) task_switch_entry_at [OF c])
  have cur: "current s' = t" using s'(4) by (simp add: current_def)
  have res: "resumable C idle s' u" if u: "u \<in> insert idle (set (tl rs)) - {t}" for u
  proof (cases "u = c")
    case True
    have "c \<notin> set fs"
      using u True tl task_queues_distinct [OF q] \<open>idle \<notin> set fs\<close> by (auto simp: disjoint_iff)
    then show ?thesis
      using True s'(12) [of c] shape by (auto simp: resumable_def s'(5))
  next
    case False
    with u tl w have "resumable C idle s u" by (auto simp: waiting_ok_def)
    then show ?thesis using False s'(12) [of u] stack by (auto simp: resumable_def)
  qed
  have "waiting_ok C (tl rs) idle t s'"
    using w tl fresh(2) res s'(11) by (auto simp: waiting_ok_def)
  moreover have "live_ok C fs s'"
    using l s'(3) by (simp add: live_ok_def frame_sched_def)
  moreover have "insert t (insert idle (set fs \<union> set (tl rs))) = {..<NR_TASKS}"
    using cover fresh(3) by blast
  moreover have q: "remaining_quantum s' = DEFAULT_QUANTUM" "cr3 s' = dir_page C t"
    using l tl_live s'(9,10) by (auto simp: live_ok_def)
  ultimately have "sched_inv C fs (tl rs) idle s'"
    using s' fresh \<open>idle \<notin> set fs\<close> idle cur
    by (simp add: sched_inv_def frame_sched_def)
  moreover have "resume_shape C idle (stacks s' t) t j" using j(2) stack [OF t(2)] by simp
  ultimately show thesis using that s' cur q by blast
qed

section \<open>The way back to the interrupted program\<close>

definition at_rest :: "game \<Rightarrow> bool" where
  "at_rest s \<longleftrightarrow> snd (esp s) = KERNEL_STACK_SIZE"

lemma drop_words_frames [simp]:
  "frame_sched s (drop_words n s)" "frame_queue s (drop_words n s)"
  "esp (drop_words n s) = (fst (esp s), snd (esp s) + n)" "current (drop_words n s) = current s"
  "eip (drop_words n s) = eip s" "idle_task (drop_words n s) = idle_task s"
  by (simp_all add: drop_words_def frame_sched_def frame_queue_def current_def)

lemma back_to_clock:
  assumes "eip s = CodeAddr ''clock_handler''"
    and "snd (esp s) + frame_words C ''clock_handler'' + (if in_idle s then 14 else 16) = KERNEL_STACK_SIZE"
  obtains s' where "back_to_handler C s = Some s'" and "frame_sched s s'" and "frame_queue s s'"
    and "current s' = current s" and "at_rest s'"
proof -
  let ?s = "drop_words (frame_words C ''clock_handler'') s"
  obtain s1 where s1: "system_to_user ?s = Some s1" "frame_sched ?s s1" "frame_queue ?s s1"
      "esp s1 = esp ?s"
    by (rule system_to_user_frame) (rule that; assumption)
  have cur: "current s1 = current s" using s1(4) by (simp add: current_def)
  have "in_idle s1 = in_idle s" using s1(2) cur by (simp add: in_idle_def frame_sched_def drop_words_def)
  then have "at_rest (drop_words (entry_words s1) s1)"
    using assms(2) s1(4) by (simp add: at_rest_def entry_words_def)
  moreover have "back_to_handler C s = Some (drop_words (entry_words s1) s1)"
    using assms(1) s1(1) by (simp add: back_to_handler_def Let_def)
  moreover have "frame_sched s s1" "frame_queue s s1"
    using s1(2,3) frame_sched_trans frame_queue_trans drop_words_frames(1,2) by blast+
  ultimately show thesis
    using that cur frame_sched_trans frame_queue_trans drop_words_frames(1,2,4) by metis
qed

lemma frames_resume:
  "frame_sched s (resume s)" "frame_queue s (resume s)"
  by (simp_all add: resume_def task_switch_exit_def ret_from_fork_def ret_def pop_ebp_def
      pop_ebx_def pop_esi_def pop_edi_def drop_words_def frame_sched_def frame_queue_def)

lemma resume_exit_at:
  assumes "esp s = (t, j + 2)" and "eip s = CodeAddr ''task_switch''"
  shows "esp (resume s) = (t, j + 8)" and "eip (resume s) = stacks s t (j + 7)"
  using assms
  by (simp_all add: resume_def task_switch_exit_def pop_at drop_words_def numeral_eq_Suc)

lemma resume_fork_at:
  assumes "esp s = (t, j + 2)" and "eip s = CodeAddr ''ret_from_fork''"
  shows "esp (resume s) = (t, j + 3)" and "eip (resume s) = stacks s t (j + 2)"
    and "eax (resume s) = 0"
  using assms by (simp_all add: resume_def ret_from_fork_def pop_at)

lemma back_from_yield:
  assumes "eip s = CodeAddr ''sys_yield''" and "snd (esp s) + frame_words C ''sys_yield'' + 16 = KERNEL_STACK_SIZE"
  obtains s' where "back_to_handler C s = Some s'" and "frame_sched s s'" and "frame_queue s s'"
    and "current s' = current s" and "at_rest s'"
proof -
  let ?s = "drop_words 16 (drop_words (frame_words C ''sys_yield'') (s\<lparr>eax := 0\<rparr>))"
  have "back_to_handler C s = Some ?s" using assms(1) by (simp add: back_to_handler_def)
  moreover have "frame_sched s ?s" "frame_queue s ?s" "current ?s = current s" "at_rest ?s"
    using assms(2) by (simp_all add: frame_sched_def frame_queue_def drop_words_def current_def at_rest_def)
  ultimately show thesis by (rule that)
qed

lemma back_from_fork:
  assumes "eip s = CodeAddr ''system_call_handler''" and "snd (esp s) + 16 = KERNEL_STACK_SIZE"
  obtains s' where "back_to_handler C s = Some s'" and "frame_sched s s'" and "frame_queue s s'"
    and "current s' = current s" and "at_rest s'"
proof -
  let ?s = "drop_words 16 s"
  have "back_to_handler C s = Some ?s" using assms(1) by (simp add: back_to_handler_def)
  moreover have "current ?s = current s" "at_rest ?s"
    using assms(2) by (simp_all add: drop_words_def current_def at_rest_def)
  ultimately show thesis using that drop_words_frames(1,2) by metis
qed

lemma return_path_resume:
  assumes "idle_task s = Some idle" and e: "esp s = (t, j + 2)" "eip s = stacks s t (j + 1)"
    and sh: "resume_shape C idle (stacks s t) t j"
  obtains (returns) s' where "return_path C s = Some s'" and "frame_sched s s'" and "frame_queue s s'"
    and "current s' = t" and "at_rest s'"
proof -
  have cur: "current (resume s) = t" if "esp (resume s) = (t, n)" for n
    using that by (simp add: current_def)
  have ret: "return_path C s = back_to_handler C (resume s)"
    using e(2) sh by (auto simp: return_path_def resume_shape_def)
  have idle: "idle_task (resume s) = Some idle"
    using assms(1) frames_resume(1) [of s] by (simp add: frame_sched_def)
  have finish: thesis if "back_to_handler C (resume s) = Some s'" "frame_sched (resume s) s'"
      "frame_queue (resume s) s'" "current s' = t" "at_rest s'" for s'
    using that frames_resume [of s] frame_sched_trans frame_queue_trans ret
    by (intro returns [of s']) metis+
  from sh consider
    (clock) "stacks s t (j + 1) = CodeAddr ''task_switch''" "stacks s t (j + 7) = CodeAddr ''clock_handler''"
      "j + 8 + frame_words C ''clock_handler'' + (if t = idle then 14 else 16) = KERNEL_STACK_SIZE"
  | (yield) "stacks s t (j + 1) = CodeAddr ''task_switch''" "stacks s t (j + 7) = CodeAddr ''sys_yield''"
      "j + 8 + frame_words C ''sys_yield'' + 16 = KERNEL_STACK_SIZE"
  | (fork) "stacks s t (j + 1) = CodeAddr ''ret_from_fork''"
      "stacks s t (j + 2) = CodeAddr ''system_call_handler''" "j + 3 + 16 = KERNEL_STACK_SIZE"
  | (idle) "stacks s t (j + 1) = CodeAddr ''cpu_idle''" "j + 2 = KERNEL_STACK_SIZE"
    by (auto simp: resume_shape_def)
  then show thesis
  proof cases
    case clock
    note r = resume_exit_at [OF e(1)] e(2) clock
    have "in_idle (resume s) = (t = idle)" using r idle by (auto simp: in_idle_def current_def)
    with r have "eip (resume s) = CodeAddr ''clock_handler''" "snd (esp (resume s)) +
        frame_words C ''clock_handler'' + (if in_idle (resume s) then 14 else 16) = KERNEL_STACK_SIZE"
      by simp_all
    then show thesis by (rule back_to_clock) (rule finish, use r cur in simp_all)
  next
    case yield
    note r = resume_exit_at [OF e(1)] e(2) yield
    have "eip (resume s) = CodeAddr ''sys_yield''"
      "snd (esp (resume s)) + frame_words C ''sys_yield'' + 16 = KERNEL_STACK_SIZE" using r by simp_all
    then show thesis by (rule back_from_yield) (rule finish, use r cur in simp_all)
  next
    case fork
    note r = resume_fork_at [OF e(1)] e(2) fork
    have "eip (resume s) = CodeAddr ''system_call_handler''" "snd (esp (resume s)) + 16 = KERNEL_STACK_SIZE"
      using r by simp_all
    then show thesis by (rule back_from_fork) (rule finish, use r cur in simp_all)
  next
    case idle
    then have "resume s = s" using e(2) by (simp add: resume_def)
    then show thesis
      using idle e by (intro finish [of s]) (simp_all add: back_to_handler_def at_rest_def current_def)
  qed
qed

section \<open>Preemption\<close>

lemma update_process_ready:
  assumes q: "task_queues (links s) fs rs" and t: "t \<notin> set fs" "t \<notin> set rs"
    and run: "state (tasks s t) = ST_RUN"
  obtains s' where "update_process_state_rr t (Some Readyqueue) s = Some s'"
    and "task_queues (links s') fs (rs @ [t])" and "frame_sched s s'"
    and "frame_queue (s\<lparr>links := links s', tasks := (tasks s)(t := (tasks s t)\<lparr>state := ST_READY\<rparr>)\<rparr>) s'"
    and "esp s' = esp s" and "ebp s' = ebp s" and "ebx s' = ebx s" and "esi s' = esi s"
    and "edi s' = edi s" and "eip s' = eip s"
proof -
  obtain h where h: "list_add_tail (Some (TaskList t)) (Some Readyqueue) (links s) = Some h"
      "task_queues h fs (rs @ [t])"
    using ready_enq [OF q t] by blast
  obtain now where now: "update_stats system_ticks_update t (s\<lparr>links := h\<rparr>) =
      Some (upd_task t (p_stats_update (charge system_ticks_update now))
        (s\<lparr>links := h, tsc_pos := tsc_pos s + 1\<rparr>))"
    using update_stats_step [of system_ticks_update t "s\<lparr>links := h\<rparr>"] by auto
  let ?s = "upd_task t (state_update (\<lambda>_. ST_READY))
    (upd_task t (p_stats_update (charge system_ticks_update now)) (s\<lparr>links := h, tsc_pos := tsc_pos s + 1\<rparr>))"
  have step: "update_process_state_rr t (Some Readyqueue) s = Some ?s"
    using run h now by (simp add: update_process_state_rr_def)
  show thesis
    by (rule that [OF step]) (use h in \<open>auto simp: upd_task_def frame_sched_def frame_queue_def\<close>)
qed

lemma force_switch_inv:
  assumes inv: "sched_inv C fs (t # rs) idle s" and c: "esp s = (c, k + 7)"
    and shape: "resume_shape C idle (stacks (task_switch_entry s) c) c k"
  obtains s' j where "force_task_switch s = Some s'" and "sched_inv C fs (rs @ [c]) idle s'"
    and "frame_sched s s'" and "current s' = t" and "esp s' = (t, j + 2)"
    and "eip s' = stacks s' t (j + 1)" and "resume_shape C idle (stacks s' t) t j"
    and "remaining_quantum s' = DEFAULT_QUANTUM"
proof -
  note i = sched_invD [OF inv]
  have cur: "current s = c" using c by (simp add: current_def)
  obtain s1 where s1: "update_process_state_rr c (Some Readyqueue) s = Some s1"
    "task_queues (links s1) fs ((t # rs) @ [c])" "frame_sched s s1"
    "frame_queue (s\<lparr>links := links s1, tasks := (tasks s)(c := (tasks s c)\<lparr>state := ST_READY\<rparr>)\<rparr>) s1"
    "esp s1 = esp s" "ebp s1 = ebp s" "ebx s1 = ebx s" "esi s1 = esi s" "edi s1 = edi s"
    using update_process_ready [OF i(1)] i(4,5,7) cur by metis
  have st1: "state (tasks s1 u) = (if u = c then ST_READY else state (tasks s u))"
    "register_esp (tasks s1 u) = register_esp (tasks s u)" "stacks s1 = stacks s" for u
    using s1(4) by (auto simp: frame_queue_def)
  have c1: "esp s1 = (c, k + 7)" using s1(5) c by simp
  have ent: "stacks (task_switch_entry s1) = stacks (task_switch_entry s)"
    using s1(5-9) st1(3) by (simp add: task_switch_entry_at [OF c] task_switch_entry_at [OF c1])
  have w1: "waiting_ok C (t # rs @ [c]) idle c s1"
    using i(8) unfolding cur by (auto simp: waiting_ok_def resumable_def st1)
  have l1: "live_ok C fs s1" using i(9) s1(3) by (simp add: live_ok_def frame_sched_def)
  have "t \<noteq> c" using i(5) cur by auto
  obtain s' j where s': "sched_next_rr s1 = Some s'" "sched_inv C fs (tl (t # rs @ [c])) idle s'"
    "frame_sched s1 s'" "current s' = t" "esp s' = (t, j + 2)" "eip s' = stacks s' t (j + 1)"
    "resume_shape C idle (stacks s' t) t j" "remaining_quantum s' = DEFAULT_QUANTUM"
  proof (rule switch_inv [OF _ _ c1 _ \<open>t \<noteq> c\<close> _ i(6) w1 l1])
    show "task_queues (links s1) fs (t # rs @ [c])" using s1(2) by simp
    show "idle_task s1 = Some idle" using i(2) s1(3) by (simp add: frame_sched_def)
    show "t = next_task (t # rs @ [c]) idle" by (simp add: next_task_def)
    show "insert idle (set fs \<union> set (t # rs @ [c])) = {..<NR_TASKS}" using i(3) cur by auto
    show "resume_shape C idle (stacks (task_switch_entry s1) c) c k" using shape ent by simp
  qed (rule that; assumption)
  have "force_task_switch s = Some s'" using s1(1) s'(1) cur by (simp add: force_task_switch_def)
  with s' frame_sched_trans [OF s1(3) s'(3)] show thesis using that by simp
qed

end
