(* ===== verification/Game_Clock.thy ===== *)
theory Game_Clock
  imports Game_Inv
begin

text \<open>
  The clock and keyboard interrupts and \<open>sys_yield\<close> against the scheduling invariant: each
  returns to some program with the invariant restored, and the clock implements the
  abstract round-robin step \<open>rr_tick\<close> on the queue of ready tasks.
\<close>

section \<open>Entering the kernel\<close>

definition frame_proc :: "game \<Rightarrow> game \<Rightarrow> bool" where
  "frame_proc s s' \<longleftrightarrow>
     pt s' = pt s \<and> phys_mem s' = phys_mem s \<and> fmem s' = fmem s \<and>
     idle_task s' = idle_task s \<and> global_PID s' = global_PID s \<and>
     keyboard_vec s' = keyboard_vec s \<and>
     (\<forall>t. PID (tasks s' t) = PID (tasks s t) \<and>
        dir_pages_baseAddr (tasks s' t) = dir_pages_baseAddr (tasks s t) \<and>
        total_quantum (tasks s' t) = total_quantum (tasks s t) \<and>
        started (p_stats (tasks s' t)) = started (p_stats (tasks s t)))"

lemma frame_proc_refl [simp]: "frame_proc s s"
  by (simp add: frame_proc_def)

lemma frame_proc_trans: "frame_proc s s' \<Longrightarrow> frame_proc s' s'' \<Longrightarrow> frame_proc s s''"
  by (simp add: frame_proc_def)

lemma frame_sched_proc: "frame_sched s s' \<Longrightarrow> frame_proc s s'"
  by (simp add: frame_sched_def frame_proc_def)

definition stack_room :: "kcfg \<Rightarrow> bool" where
  "stack_room C \<longleftrightarrow> (\<forall>h. frame_words C h \<le> 900)"

lemma enter_interrupt_at:
  assumes "sched_inv C fs rs idle s" and "at_rest s"
  shows "enter_interrupt s = s\<lparr>esp := (current s, KERNEL_STACK_SIZE - (if current s = idle then 14 else 16)),
    eip := CodeAddr ''kernel''\<rparr>"
  using sched_invD [OF assms(1)] assms(2)
  by (cases "esp s") (auto simp: enter_interrupt_def in_idle_def at_rest_def current_def)

lemma sysenter_at:
  assumes "sched_inv C fs rs idle s"
  shows "sysenter s = s\<lparr>esp := (current s, KERNEL_STACK_SIZE - 16), eip := CodeAddr ''kernel''\<rparr>"
  using sched_invD [OF assms] by (simp add: sysenter_def)

text \<open>Only the running task's own stack changes below a handler.\<close>

lemma sched_inv_own_stack:
  assumes "sched_inv C fs rs idle s" and "fst p = current s"
  shows "sched_inv C fs rs idle (s\<lparr>stacks := (stacks s)(current s := st), esp := p, eip := e\<rparr>)"
  using assms unfolding sched_inv_def waiting_ok_def resumable_def live_ok_def current_def by auto

lemma call_path_at:
  assumes "esp s = (c, frame_words C h + k + 8)"
  shows "call_path C h s =
    s\<lparr>stacks := (stacks s)(c := (stacks s c)(k + 7 := CodeAddr h)), esp := (c, k + 7)\<rparr>"
  using assms by (simp add: call_path_def push_def set_stack_def add.commute)

lemma call_path_shape:
  assumes "esp s = (c, k + 7)" and "stacks s c (k + 7) = CodeAddr h"
    and "h = ''clock_handler'' \<and>
       k + 8 + frame_words C ''clock_handler'' + (if c = idle then 14 else 16) = KERNEL_STACK_SIZE \<or>
     h = ''sys_yield'' \<and> k + 8 + frame_words C ''sys_yield'' + 16 = KERNEL_STACK_SIZE"
  shows "resume_shape C idle (stacks (task_switch_entry s) c) c k"
  using assms by (auto simp: resume_shape_def task_switch_entry_at)

section \<open>The clock\<close>

lemma schedule_keeps:
  assumes "sched_inv C fs rs idle s" and "quantum_ok s" and "remaining_quantum s \<noteq> 1 \<or> rs = []"
  shows "schedule s = Some (s\<lparr>remaining_quantum :=
    if remaining_quantum s = 1 then DEFAULT_QUANTUM else remaining_quantum s - 1\<rparr>)"
proof -
  note i = sched_invD [OF assms(1)]
  have c: "c_int (remaining_quantum s - 1) = remaining_quantum s - 1"
    using assms(2) by (simp add: quantum_ok_def DEFAULT_QUANTUM_def)
  have "current s \<in> live fs" using i(3,4) by (auto simp: live_def)
  then have "total_quantum (tasks s (current s)) = DEFAULT_QUANTUM"
    using i(9) by (simp add: live_ok_def)
  with assms(3) c ready_empty [OF i(1)] show ?thesis
    by (auto simp: schedule_def update_sched_data_rr_def needs_sched_rr_def get_quantum_def)
qed

lemma schedule_switches:
  assumes "sched_inv C fs (t # rs) idle s" and "remaining_quantum s = 1"
  shows "schedule s = force_task_switch (s\<lparr>remaining_quantum := 0\<rparr>)"
  using assms ready_empty [OF sched_invD(1) [OF assms(1)]]
  by (simp add: schedule_def update_sched_data_rr_def needs_sched_rr_def force_task_switch_def)

text \<open>The abstract scheduler: the running task, the ready queue and the quantum left.\<close>

type_synonym rr_state = "nat \<times> nat list \<times> int"

fun rr_tick :: "rr_state \<Rightarrow> rr_state" where
  "rr_tick (c, rs, q) =
     (if q = 1 then (case rs of [] \<Rightarrow> (c, [], DEFAULT_QUANTUM)
                     | t # rs \<Rightarrow> (t, rs @ [c], DEFAULT_QUANTUM))
      else (c, rs, q - 1))"

definition rr_abs :: "game \<Rightarrow> nat list \<Rightarrow> rr_state" where
  "rr_abs s rs = (current s, rs, remaining_quantum s)"

text \<open>Quantum left, or nobody to switch to: the running task goes on.\<close>

lemma clock_body_keeps:
  assumes inv: "sched_inv C fs rs idle s" and q: "quantum_ok s" and c: "esp s = (c, k + 7)"
    and top: "stacks s c (k + 7) = CodeAddr ''clock_handler''" and e: "eip s = CodeAddr ''kernel''"
    and words: "k + 8 + frame_words C ''clock_handler'' + (if c = idle then 14 else 16) = KERNEL_STACK_SIZE"
    and False: "\<not> (remaining_quantum s = 1 \<and> rs \<noteq> [])"
  obtains s' rs' where "schedule s \<bind> return_path C = Some s'" and "sched_inv C fs rs' idle s'"
    and "rr_abs s' rs' = rr_tick (rr_abs s rs)" and "at_rest s'" and "frame_sched s s'"
proof -
  let ?s = "s\<lparr>remaining_quantum := if remaining_quantum s = 1 then DEFAULT_QUANTUM
    else remaining_quantum s - 1\<rparr>"
  have sch: "schedule s = Some ?s" using schedule_keeps [OF inv q] False by blast
  have inv': "sched_inv C fs rs idle ?s"
    using inv by (simp add: sched_inv_def current_def waiting_ok_def resumable_def live_ok_def)
  have ret: "esp (ret ?s) = (c, k + 8)" "eip (ret ?s) = CodeAddr ''clock_handler''"
    "frame_sched s (ret ?s)" "frame_queue ?s (ret ?s)" "in_idle (ret ?s) = (c = idle)"
    using c top sched_invD(2) [OF inv]
    by (auto simp: pop_at frame_sched_def frame_queue_def in_idle_def current_def)
  then have w: "snd (esp (ret ?s)) + frame_words C ''clock_handler'' +
      (if in_idle (ret ?s) then 14 else 16) = KERNEL_STACK_SIZE" using words by simp
  obtain s' where s': "back_to_handler C (ret ?s) = Some s'" "frame_sched (ret ?s) s'"
      "frame_queue (ret ?s) s'" "current s' = current (ret ?s)" "at_rest s'"
    by (rule back_to_clock [OF ret(2) w])
  have "return_path C ?s = Some s'" using e s'(1) by (simp add: return_path_def)
  moreover have fr: "frame_queue ?s s'" "frame_sched s s'"
    using ret s' frame_queue_trans frame_sched_trans by blast+
  moreover have cur: "current s' = current s" using s'(4) ret(1) c by (simp add: current_def)
  moreover have "sched_inv C fs rs idle s'"
    by (rule sched_inv_frame [OF inv' fr(1)]) (use cur fr(2) in \<open>auto simp: frame_sched_def current_def\<close>)
  moreover have "rr_abs s' rs = rr_tick (rr_abs s rs)"
    using fr(1) cur False by (auto simp: rr_abs_def frame_queue_def split: list.splits)
  ultimately show thesis using that sch s'(5) by simp
qed

text \<open>Quantum expired and a task is ready: the context is exchanged.\<close>

lemma clock_body_switches:
  assumes inv: "sched_inv C fs rs idle s" and q: "quantum_ok s" and c: "esp s = (c, k + 7)"
    and top: "stacks s c (k + 7) = CodeAddr ''clock_handler''" and e: "eip s = CodeAddr ''kernel''"
    and words: "k + 8 + frame_words C ''clock_handler'' + (if c = idle then 14 else 16) = KERNEL_STACK_SIZE"
    and True: "remaining_quantum s = 1 \<and> rs \<noteq> []"
  obtains s' rs' where "schedule s \<bind> return_path C = Some s'" and "sched_inv C fs rs' idle s'"
    and "rr_abs s' rs' = rr_tick (rr_abs s rs)" and "at_rest s'" and "frame_sched s s'"
proof -
  from True obtain t rs' where rs: "rs = t # rs'" by (cases rs) auto
  let ?s = "s\<lparr>remaining_quantum := 0\<rparr>"
  have inv0: "sched_inv C fs (t # rs') idle ?s"
    using inv rs by (simp add: sched_inv_def current_def waiting_ok_def resumable_def live_ok_def)
  have shape: "resume_shape C idle (stacks (task_switch_entry ?s) c) c k"
    by (rule call_path_shape) (use c top words in auto)
  have c0: "esp ?s = (c, k + 7)" using c by simp
  obtain s1 j where s1: "force_task_switch ?s = Some s1" "sched_inv C fs (rs' @ [c]) idle s1"
    "frame_sched ?s s1" "current s1 = t" "esp s1 = (t, j + 2)" "eip s1 = stacks s1 t (j + 1)"
    "resume_shape C idle (stacks s1 t) t j" "remaining_quantum s1 = DEFAULT_QUANTUM"
    by (rule force_switch_inv [OF inv0 c0 shape])
  obtain s' where s': "return_path C s1 = Some s'" "frame_sched s1 s'" "frame_queue s1 s'"
      "current s' = t" "at_rest s'"
    by (rule return_path_resume [OF sched_invD(2) [OF s1(2)] s1(5-7)])
  have "schedule s \<bind> return_path C = Some s'"
    using schedule_switches [of C fs t rs' idle s] inv rs True s1(1) s'(1) by simp
  moreover have "sched_inv C fs (rs' @ [c]) idle s'"
    by (rule sched_inv_frame [OF s1(2) s'(3)]) (use s1(4) s'(2,4) in \<open>auto simp: frame_sched_def\<close>)
  moreover have "rr_abs s' (rs' @ [c]) = rr_tick (rr_abs s rs)"
    using s'(3,4) s1(8) True rs c by (simp add: rr_abs_def frame_queue_def current_def)
  moreover have "frame_sched s ?s" by (simp add: frame_sched_def)
  ultimately show thesis
    using that s'(5) s1(3) s'(2) frame_sched_trans by blast
qed

lemma clock_body:
  assumes inv: "sched_inv C fs rs idle s" and q: "quantum_ok s" and c: "esp s = (c, k + 7)"
    and top: "stacks s c (k + 7) = CodeAddr ''clock_handler''" and e: "eip s = CodeAddr ''kernel''"
    and words: "k + 8 + frame_words C ''clock_handler'' + (if c = idle then 14 else 16) = KERNEL_STACK_SIZE"
  obtains s' rs' where "schedule s \<bind> return_path C = Some s'" and "sched_inv C fs rs' idle s'"
    and "rr_abs s' rs' = rr_tick (rr_abs s rs)" and "at_rest s'" and "frame_sched s s'"
proof (cases "remaining_quantum s = 1 \<and> rs \<noteq> []")
  case False
  show thesis by (rule clock_body_keeps [OF assms False]) (rule that)
next
  case True
  show thesis by (rule clock_body_switches [OF assms True]) (rule that)
qed

text \<open>
  The common start of the interrupt handlers: after \<open>user_to_system\<close> the invariant holds on
  the stack of the running task.
\<close>

lemma interrupt_start:
  assumes inv: "sched_inv C fs rs idle s" and "at_rest s"
  obtains s' where "user_to_system (enter_interrupt s) = Some s'" and "sched_inv C fs rs idle s'"
    and "frame_sched s s'" and "remaining_quantum s' = remaining_quantum s"
    and "esp s' = (current s, KERNEL_STACK_SIZE - (if current s = idle then 14 else 16))"
    and "eip s' = CodeAddr ''kernel''"
proof -
  let ?p = "(current s, KERNEL_STACK_SIZE - (if current s = idle then 14 else 16))"
  let ?s = "s\<lparr>esp := ?p, eip := CodeAddr ''kernel''\<rparr>"
  have ent: "enter_interrupt s = ?s" by (rule enter_interrupt_at [OF inv assms(2)])
  have i1: "sched_inv C fs rs idle ?s"
    using sched_inv_own_stack [OF inv, where p = ?p and st = "stacks s (current s)"] by simp
  show thesis
  proof (rule user_to_system_frame [of ?s])
    fix s' assume s': "user_to_system ?s = Some s'" "frame_sched ?s s'" "frame_queue ?s s'"
      "esp s' = esp ?s" "eip s' = eip ?s"
    have "sched_inv C fs rs idle s'"
      by (rule sched_inv_frame [OF i1 s'(3)]) (use s'(2,4) in \<open>auto simp: current_def frame_sched_def\<close>)
    with s' show thesis
      by (intro that [of s']) (simp_all add: ent frame_sched_def frame_queue_def)
  qed
qed

text \<open>
  What the interrupt routines do besides scheduling touches only the screen, the tick counter
  and the keyboard buffer. The two lemmas hold for every such routine, so they serve the exam
  kernels too.
\<close>

definition console_only :: "(game \<Rightarrow> game) \<Rightarrow> bool" where
  "console_only f \<longleftrightarrow>
     (\<forall>s. f s = s\<lparr>scr := scr (f s), zeos_ticks := zeos_ticks (f s), k_buffer := k_buffer (f s)\<rparr>)"

lemma console_onlyE:
  assumes "console_only f"
  obtains sc z b where "f s = s\<lparr>scr := sc, zeos_ticks := z, k_buffer := b\<rparr>"
    and "zeos_ticks (f s) = z" and "k_buffer (f s) = b"
  by (rule that [OF _ refl refl]) (rule spec [OF assms [unfolded console_only_def]])

lemma timer_interrupt:
  assumes inv: "sched_inv C fs rs idle s" and rest: "at_rest s" and q: "quantum_ok s"
    and room: "stack_room C" and f: "console_only f"
  obtains s0 s' rs' where "do { s \<leftarrow> user_to_system (enter_interrupt s);
      s \<leftarrow> schedule (f (call_path C ''clock_handler'' s)); return_path C s } = Some s'"
    and "sched_inv C fs rs' idle s'"
    and "rr_abs s' rs' = rr_tick (rr_abs s rs)" and "at_rest s'" and "quantum_ok s'"
    and "frame_proc s s'" and "zeos_ticks s0 = zeos_ticks s" and "k_buffer s0 = k_buffer s"
    and "zeos_ticks s' = zeos_ticks (f s0)" and "k_buffer s' = k_buffer (f s0)"
proof -
  define w :: nat where "w = (if current s = idle then 14 else 16)"
  define c where "c = current s"
  obtain s1 where s1: "user_to_system (enter_interrupt s) = Some s1" "sched_inv C fs rs idle s1"
    "frame_sched s s1" "remaining_quantum s1 = remaining_quantum s"
    "esp s1 = (c, KERNEL_STACK_SIZE - w)" "eip s1 = CodeAddr ''kernel''"
    by (rule interrupt_start [OF inv rest, folded w_def, folded c_def])
  define k where "k = KERNEL_STACK_SIZE - w - frame_words C ''clock_handler'' - 8"
  have "frame_words C ''clock_handler'' \<le> 900" using room by (simp add: stack_room_def)
  then have k: "KERNEL_STACK_SIZE - w = frame_words C ''clock_handler'' + k + 8"
    and words: "k + 8 + frame_words C ''clock_handler'' + (if c = idle then 14 else 16) = KERNEL_STACK_SIZE"
    by (simp_all add: k_def KERNEL_STACK_SIZE_def w_def c_def)
  define s2 where "s2 = s1\<lparr>stacks := (stacks s1)(c := (stacks s1 c)(k + 7 := CodeAddr ''clock_handler'')),
    esp := (c, k + 7)\<rparr>"
  have cp: "call_path C ''clock_handler'' s1 = s2"
    unfolding s2_def by (rule call_path_at) (simp add: s1(5) k)
  have cur1: "current s1 = c" using s1(5) by (simp add: current_def)
  have i2: "sched_inv C fs rs idle s2"
    using sched_inv_own_stack [OF s1(2), where p = "(c, k + 7)" and e = "eip s1"] cur1 by (simp add: s2_def)
  obtain sc z b where s3: "f s2 = s2\<lparr>scr := sc, zeos_ticks := z, k_buffer := b\<rparr>"
      "zeos_ticks (f s2) = z" "k_buffer (f s2) = b"
    by (rule console_onlyE [OF f])
  have i3: "sched_inv C fs rs idle (f s2)"
    by (rule sched_inv_frame [OF i2]) (auto simp: s3(1) frame_queue_def current_def)
  have f2: "esp s2 = (c, k + 7)" "eip s2 = CodeAddr ''kernel''" "frame_proc s s2"
    "stacks s2 c (k + 7) = CodeAddr ''clock_handler''" "remaining_quantum s2 = remaining_quantum s"
    "zeos_ticks s2 = zeos_ticks s" "k_buffer s2 = k_buffer s"
    using s1 by (auto simp: s2_def frame_proc_def frame_sched_def)
  have f3: "esp (f s2) = (c, k + 7)" "eip (f s2) = CodeAddr ''kernel''" "frame_proc s (f s2)"
    "stacks (f s2) c (k + 7) = CodeAddr ''clock_handler''" "remaining_quantum (f s2) = remaining_quantum s"
    using f2 by (simp_all add: s3(1) frame_proc_def)
  have q3: "quantum_ok (f s2)" using q f3(5) by (simp add: quantum_ok_def)
  obtain s' rs' where s': "schedule (f s2) \<bind> return_path C = Some s'" "sched_inv C fs rs' idle s'"
      "rr_abs s' rs' = rr_tick (rr_abs (f s2) rs)" "at_rest s'" "frame_sched (f s2) s'"
    by (rule clock_body [OF i3 q3 f3(1,4,2) words])
  have "rr_abs (f s2) rs = rr_abs s rs" using f3(1,5) by (simp add: rr_abs_def current_def c_def)
  moreover from this s'(3) q have "quantum_ok s'"
    by (auto simp: rr_abs_def quantum_ok_def DEFAULT_QUANTUM_def split: list.splits if_splits)
  moreover have "frame_proc s s'" using f3(3) frame_sched_proc [OF s'(5)] by (rule frame_proc_trans)
  ultimately show thesis
    using that [of s' rs' s2] s' s1(1) f2(6,7) by (simp add: cp frame_sched_def)
qed

lemma quiet_interrupt:
  assumes inv: "sched_inv C fs rs idle s" and rest: "at_rest s" and f: "console_only f"
  obtains s0 s' where "do { s \<leftarrow> user_to_system (enter_interrupt s); s \<leftarrow> system_to_user (f s);
      Some (drop_words (entry_words s) s) } = Some s'"
    and "sched_inv C fs rs idle s'" and "rr_abs s' rs = rr_abs s rs" and "at_rest s'" and "frame_proc s s'"
    and "scr s0 = scr s" and "k_buffer s0 = k_buffer s" and "scr s' = scr (f s0)" and "k_buffer s' = k_buffer (f s0)"
proof -
  obtain s1 where s1: "user_to_system (enter_interrupt s) = Some s1" "sched_inv C fs rs idle s1"
    "frame_sched s s1" "remaining_quantum s1 = remaining_quantum s"
    "esp s1 = (current s, KERNEL_STACK_SIZE - (if current s = idle then 14 else 16))"
    by (rule interrupt_start [OF inv rest])
  obtain sc z b where s2: "f s1 = s1\<lparr>scr := sc, zeos_ticks := z, k_buffer := b\<rparr>" by (rule console_onlyE [OF f])
  have i2: "sched_inv C fs rs idle (f s1)"
    by (rule sched_inv_frame [OF s1(2)]) (auto simp: s2 frame_queue_def current_def)
  obtain s3 where s3: "system_to_user (f s1) = Some s3" "frame_sched (f s1) s3" "frame_queue (f s1) s3"
      "esp s3 = esp (f s1)"
    by (rule system_to_user_frame) (rule that; assumption)
  have cur: "current s3 = current s" "current s1 = current s"
    using s3(4) s1(5) by (simp_all add: current_def s2)
  have i3: "sched_inv C fs rs idle s3"
    by (rule sched_inv_frame [OF i2 s3(3)]) (use s3(2,4) in \<open>auto simp: frame_sched_def current_def\<close>)
  let ?s4 = "drop_words (entry_words s3) s3"
  have "sched_inv C fs rs idle ?s4"
    by (rule sched_inv_frame [OF i3]) (auto simp: drop_words_def frame_queue_def current_def)
  moreover have "at_rest ?s4"
    using s3(4) s1(5) cur sched_invD(2) [OF i3]
    by (auto simp: at_rest_def entry_words_def in_idle_def s2 KERNEL_STACK_SIZE_def)
  moreover have "frame_proc s ?s4" "scr ?s4 = scr (f s1)" "k_buffer ?s4 = k_buffer (f s1)"
    "remaining_quantum ?s4 = remaining_quantum s" "scr s1 = scr s" "k_buffer s1 = k_buffer s"
    using s1(3,4) s3(2,3)
    by (auto simp: frame_proc_def frame_sched_def frame_queue_def s2 drop_words_def)
  ultimately show thesis
    using that [of ?s4 s1] cur s1(1) s3(1) by (simp add: rr_abs_def)
qed

definition before_schedule :: "kcfg \<Rightarrow> game \<Rightarrow> game" where
  "before_schedule C s = (let s = s\<lparr>scr := zeos_show_clock C (scr s), zeos_ticks := c_int (zeos_ticks s + 1)\<rparr>
     in case kb_get (k_buffer s) of None \<Rightarrow> s
        | Some (ev, b) \<Rightarrow> s\<lparr>k_buffer := b, scr := show_event C ev (scr s)\<rparr>)"

lemma clock_handler_alt:
  "clock_handler C s = do { s \<leftarrow> user_to_system (enter_interrupt s);
      s \<leftarrow> schedule (before_schedule C (call_path C ''clock_handler'' s)); return_path C s }"
proof -
  have "clock_routine C s = schedule (before_schedule C s)" for s
    by (auto simp: clock_routine_def before_schedule_def Let_def split: option.split)
  then show ?thesis by (simp add: clock_handler_def)
qed

lemma console_only_routines: "console_only (before_schedule C)" "console_only (keyboard_routine c)"
  unfolding console_only_def
  by (intro allI; simp add: before_schedule_def Let_def keyboard_routine_def split: option.split)+

lemma before_schedule_fields:
  "zeos_ticks (before_schedule C s) = c_int (zeos_ticks s + 1)"
  "k_buffer (before_schedule C s) = (case kb_get (k_buffer s) of None \<Rightarrow> k_buffer s | Some (_, b) \<Rightarrow> b)"
  by (auto simp: before_schedule_def Let_def split: option.split)

lemma clock_handler_spec:
  assumes "sched_inv C fs rs idle s" and "at_rest s" and "quantum_ok s" and "stack_room C"
  obtains s' rs' where "clock_handler C s = Some s'" and "sched_inv C fs rs' idle s'"
    and "rr_abs s' rs' = rr_tick (rr_abs s rs)" and "at_rest s'" and "quantum_ok s'"
    and "frame_proc s s'" and "zeos_ticks s' = c_int (zeos_ticks s + 1)"
    and "k_buffer s' = (case kb_get (k_buffer s) of None \<Rightarrow> k_buffer s | Some (_, b) \<Rightarrow> b)"
  by (rule timer_interrupt [OF assms console_only_routines(1) [of C], folded clock_handler_alt])
     (rule that, assumption+, simp_all add: before_schedule_fields split: option.split)

lemma keyboard_handler_spec:
  assumes "sched_inv C fs rs idle s" and "at_rest s"
  obtains s' where "keyboard_handler c s = Some s'" and "sched_inv C fs rs idle s'"
    and "rr_abs s' rs = rr_abs s rs" and "at_rest s'" and "frame_proc s s'"
    and "scr s' = scr s" and "k_buffer s' = kb_put (scan_event c) (k_buffer s)"
  by (rule quiet_interrupt [OF assms console_only_routines(2) [of c], folded keyboard_handler_def])
     (rule that, assumption+, simp_all add: keyboard_routine_def)

lemma yield_spec:
  assumes inv: "sched_inv C fs (t # rs) idle s" and room: "stack_room C"
  obtains s' where "do_syscall C Yield args (sysenter s) = Some s'"
    and "sched_inv C fs (rs @ [current s]) idle s'" and "current s' = t"
    and "remaining_quantum s' = DEFAULT_QUANTUM" and "at_rest s'" and "frame_sched s s'"
proof -
  define c where "c = current s"
  define k where "k = KERNEL_STACK_SIZE - 16 - frame_words C ''sys_yield'' - 8"
  have "frame_words C ''sys_yield'' \<le> 900" using room by (simp add: stack_room_def)
  then have k: "KERNEL_STACK_SIZE - 16 = frame_words C ''sys_yield'' + k + 8"
    and words: "k + 8 + frame_words C ''sys_yield'' + 16 = KERNEL_STACK_SIZE"
    by (simp_all add: k_def KERNEL_STACK_SIZE_def)
  let ?s1 = "s\<lparr>eip := CodeAddr ''kernel'', esp := (c, k + 7),
    stacks := (stacks s)(c := (stacks s c)(k + 7 := CodeAddr ''sys_yield''))\<rparr>"
  have cp: "call_path C ''sys_yield'' (sysenter s) = ?s1"
    using sysenter_at [OF inv] by (subst call_path_at [where k = k]) (simp_all add: k c_def, cases s, simp)
  have i1: "sched_inv C fs (t # rs) idle ?s1"
    using sched_inv_own_stack [OF inv, of "(c, k + 7)"] by (cases s) (simp add: c_def)
  have e1: "esp ?s1 = (c, k + 7)" by simp
  have "resume_shape C idle (stacks (task_switch_entry ?s1) c) c k"
    by (rule call_path_shape) (use words in auto)
  then obtain s2 j where s2: "force_task_switch ?s1 = Some s2" "sched_inv C fs (rs @ [c]) idle s2"
    "frame_sched ?s1 s2" "current s2 = t" "esp s2 = (t, j + 2)" "eip s2 = stacks s2 t (j + 1)"
    "resume_shape C idle (stacks s2 t) t j" "remaining_quantum s2 = DEFAULT_QUANTUM"
    by (rule force_switch_inv [OF i1 e1])
  obtain s' where s': "return_path C s2 = Some s'" "frame_sched s2 s'" "frame_queue s2 s'"
      "current s' = t" "at_rest s'"
    by (rule return_path_resume [OF sched_invD(2) [OF s2(2)] s2(5-7)])
  have "sched_inv C fs (rs @ [c]) idle s'"
    by (rule sched_inv_frame [OF s2(2) s'(3)]) (use s2(4) s'(2,4) in \<open>auto simp: frame_sched_def\<close>)
  moreover have "do_syscall C Yield args (sysenter s) = Some s'"
    using cp s2(1) s'(1) by (simp add: sys_yield_def)
  moreover have "frame_sched s s'" "remaining_quantum s' = DEFAULT_QUANTUM"
    using s2(3,8) s'(2,3) by (auto simp: frame_sched_def frame_queue_def)
  ultimately show thesis using that s'(4,5) by (simp add: c_def)
qed

end
