(* ===== verification/Game_Mem.thy ===== *)
theory Game_Mem
  imports Game_Clock
begin

text \<open>
  The invariant of the \<^verbatim>\<open>GAME\<close> kernel, part two: memory. The frames the allocator can hand
  out are divided between the allocator, the data pages of the user processes (each frame
  belongs to one page of one process) and the code pages all processes share.
\<close>

section \<open>Layout\<close>

definition game_layout :: "kcfg \<Rightarrow> bool" where
  "game_layout C \<longleftrightarrow> PAG_LOG_INIT_CODE C = 256 \<and> PAG_LOG_INIT_DATA C = 264 \<and>
     unat (dir_pages_at C) + NR_TASKS \<le> NUM_PAG_KERNEL \<and>
     unat (pagusr_table_at C) + NR_TASKS \<le> NUM_PAG_KERNEL \<and>
     (unat (dir_pages_at C) + NR_TASKS \<le> unat (pagusr_table_at C) \<or>
      unat (pagusr_table_at C) + NR_TASKS \<le> unat (dir_pages_at C))"

lemma unat_kernel_page:
  "unat (a :: DWord) + NR_TASKS \<le> NUM_PAG_KERNEL \<Longrightarrow> i < NR_TASKS \<Longrightarrow> unat (a + of_nat i) = unat a + i"
  by (rule unat_offset) (simp add: mm_consts)

lemma layout_pages:
  assumes "game_layout C" and "i < NR_TASKS" and "j < NR_TASKS"
  shows "dir_page C i \<noteq> pagusr_page C j" and "take_bit 20 (pagusr_page C i) = pagusr_page C i"
proof -
  have u: "unat (dir_page C i) = unat (dir_pages_at C) + i"
    "unat (pagusr_page C j) = unat (pagusr_table_at C) + j"
    "unat (pagusr_page C i) = unat (pagusr_table_at C) + i"
    using assms by (simp_all add: dir_page_def pagusr_page_def unat_kernel_page game_layout_def)
  show "dir_page C i \<noteq> pagusr_page C j"
  proof
    assume "dir_page C i = pagusr_page C j"
    then have "unat (dir_page C i) = unat (pagusr_page C j)" by simp
    with u assms show False by (auto simp: game_layout_def)
  qed
  have "unat (pagusr_page C i) < 2 ^ 20"
    using u(3) assms by (simp add: game_layout_def mm_consts)
  then show "take_bit 20 (pagusr_page C i) = pagusr_page C i"
    using take_bit_20_small [of "unat (pagusr_page C i)"] by simp
qed

section \<open>Building the address space of a child\<close>

lemma data_page_numbers:
  "[NUM_PAG_KERNEL + NUM_PAG_CODE ..< NUM_PAG_KERNEL + NUM_PAG_CODE + NUM_PAG_DATA] =
     map ((+) 264) [0..<NUM_PAG_DATA]"
  "j \<in> (\<lambda>pag. pag + NUM_PAG_DATA) ` set (map ((+) 264) [0..<NUM_PAG_DATA]) \<longleftrightarrow> 284 \<le> j \<and> j < 304"
proof -
  show "[NUM_PAG_KERNEL + NUM_PAG_CODE ..< NUM_PAG_KERNEL + NUM_PAG_CODE + NUM_PAG_DATA] =
     map ((+) 264) [0..<NUM_PAG_DATA]"
    by (rule nth_equalityI) (simp_all add: NUM_PAG_KERNEL_def NUM_PAG_CODE_def)
  have "j = 264 + (j - 284) + 20" if "284 \<le> j" using that by simp
  then show "j \<in> (\<lambda>pag. pag + NUM_PAG_DATA) ` set (map ((+) 264) [0..<NUM_PAG_DATA]) \<longleftrightarrow>
      284 \<le> j \<and> j < 304"
    by (auto simp: mm_consts image_iff intro!: bexI [of _ "j - 284"])
qed

text \<open>The numbers of the frames, as the words the page tables hold.\<close>

lemma frame_words_distinct:
  assumes gs: "length gs = NUM_PAG_DATA" "distinct gs"
    and gb: "\<And>i. i < NUM_PAG_DATA \<Longrightarrow> gs ! i < TOTAL_PAGES"
    and Fp: "\<And>i. i < NUM_PAG_DATA \<Longrightarrow> Fp i < TOTAL_PAGES \<and> Fp i \<notin> set gs"
  shows "distinct (map of_nat gs :: DWord list)"
    and "i < NUM_PAG_DATA \<Longrightarrow> j < NUM_PAG_DATA \<Longrightarrow> (of_nat (gs ! i) :: DWord) \<noteq> of_nat (Fp j)"
proof -
  have "inj_on (of_nat :: nat \<Rightarrow> DWord) (set gs)"
    using gb gs(1) unat_frame by (intro inj_onI) (metis in_set_conv_nth)
  then show "distinct (map of_nat gs :: DWord list)" using gs(2) by (simp add: distinct_map)
  assume ij: "i < NUM_PAG_DATA" "j < NUM_PAG_DATA"
  then have "gs ! i \<noteq> Fp j" using gs(1) Fp [OF ij(2)] by (metis nth_mem)
  then show "(of_nat (gs ! i) :: DWord) \<noteq> of_nat (Fp j)"
    using gb [OF ij(1)] Fp [OF ij(2)] unat_frame by metis
qed

lemma copy_child_pages_ok:
  assumes dir: "pte_present (pt s (cr3 s) 0) = 1" "pte_pbase_addr (pt s (cr3 s) 0) = P"
    and PQ: "P \<noteq> Q" and gs: "length gs = NUM_PAG_DATA" "distinct gs"
    and gb: "\<And>i. i < NUM_PAG_DATA \<Longrightarrow> gs ! i < TOTAL_PAGES"
    and Fp: "\<And>i. i < NUM_PAG_DATA \<Longrightarrow> Fp i < TOTAL_PAGES \<and> Fp i \<notin> set gs"
    and data: "\<And>i. i < NUM_PAG_DATA \<Longrightarrow> pt s P (264 + i) = user_entry (of_nat (Fp i))"
    and new: "\<And>i. i < NUM_PAG_DATA \<Longrightarrow> pt s Q (264 + i) = user_entry (of_nat (gs ! i))"
  obtains s' where "copy_child_pages P Q s = Some s'"
    and "\<And>i. i < NUM_PAG_DATA \<Longrightarrow> fmem s' (of_nat (gs ! i)) = fmem s (of_nat (Fp i))"
    and "\<And>f. f \<notin> of_nat ` set gs \<Longrightarrow> fmem s' f = fmem s f"
    and "\<And>q j. pt s' q j = (if q = P \<and> 284 \<le> j \<and> j < 304 then 0 else pt s q j)"
    and "s' = s\<lparr>fmem := fmem s', pt := pt s'\<rparr>"
proof -
  let ?is = "map ((+) 264) [0..<NUM_PAG_DATA]"
  let ?b = "\<lambda>pag. of_nat (gs ! (pag - 264)) :: DWord"
  let ?a = "\<lambda>pag. of_nat (Fp (pag - 264)) :: DWord"
  have bmap: "map ?b ?is = map of_nat gs"
    by (rule nth_equalityI) (auto simp: gs)
  have "\<exists>s'. copy_data_pages P (\<lambda>pag. pag) (\<lambda>pag. pag + NUM_PAG_DATA)
      (\<lambda>pag s. get_frame Q pag s) ?is s = Some s' \<and>
    (\<forall>i\<in>set ?is. fmem s' (?b i) = fmem s (?a i)) \<and>
    (\<forall>f. f \<notin> ?b ` set ?is \<longrightarrow> fmem s' f = fmem s f) \<and>
    (\<forall>q j. pt s' q j = (if q = P \<and> j \<in> (\<lambda>pag. pag + NUM_PAG_DATA) ` set ?is then 0 else pt s q j)) \<and>
    s' = s\<lparr>fmem := fmem s', pt := pt s'\<rparr>"
  proof (rule copy_data_pages_ok [OF dir])
    show "\<forall>i\<in>set ?is. i < 1024 \<and> pte_present (pt s P i) = 1 \<and> pte_pbase_addr (pt s P i) = ?a i"
    proof
      fix i assume "i \<in> set ?is"
      then obtain x where "i = 264 + x" "x < NUM_PAG_DATA" by (auto simp: le_iff_add)
      then show "i < 1024 \<and> pte_present (pt s P i) = 1 \<and> pte_pbase_addr (pt s P i) = ?a i"
        using Fp by (simp add: data) (simp add: NUM_PAG_DATA_def)
    qed
    show "\<forall>i\<in>set ?is. i + NUM_PAG_DATA < 1024 \<and> 0 < i + NUM_PAG_DATA \<and> take_bit 20 (?b i) = ?b i"
      using gb by (auto simp: NUM_PAG_DATA_def)
    show "\<forall>i\<in>set ?is. \<forall>j\<in>set ?is. i + NUM_PAG_DATA \<noteq> j \<and> ?b i \<noteq> ?a j"
    proof (intro ballI conjI)
      fix i j assume ij: "i \<in> set ?is" "j \<in> set ?is"
      then obtain i' j' where i': "i = 264 + i'" "i' < NUM_PAG_DATA" "j = 264 + j'" "j' < NUM_PAG_DATA"
        by (auto simp: le_iff_add)
      then show "i + NUM_PAG_DATA \<noteq> j" "?b i \<noteq> ?a j" using frame_words_distinct(2) [OF gs gb Fp] by simp_all
    qed
    show "\<forall>i\<in>set ?is. \<forall>s'. (\<forall>q j. q \<noteq> P \<longrightarrow> pt s' q j = pt s q j) \<longrightarrow> get_frame Q i s' = ?b i"
      using PQ gb by (auto simp: get_frame_def new le_iff_add)
    show "distinct (map ?b ?is)" unfolding bmap by (rule frame_words_distinct(1) [OF gs gb Fp])
  qed
  then obtain s' where s': "copy_child_pages P Q s = Some s'"
    "\<forall>i\<in>set ?is. fmem s' (?b i) = fmem s (?a i)" "\<forall>f. f \<notin> ?b ` set ?is \<longrightarrow> fmem s' f = fmem s f"
    "\<And>q j. pt s' q j = (if q = P \<and> j \<in> (\<lambda>pag. pag + NUM_PAG_DATA) ` set ?is then 0 else pt s q j)"
    "s' = s\<lparr>fmem := fmem s', pt := pt s'\<rparr>"
    unfolding copy_child_pages_def data_page_numbers(1) by blast
  have bs: "?b ` set ?is = of_nat ` set gs"
    using bmap by (metis list.set_map)
  show thesis
  proof (rule that [OF s'(1)])
    show "fmem s' (of_nat (gs ! i)) = fmem s (of_nat (Fp i))" if "i < NUM_PAG_DATA" for i
      using s'(2) that by (auto dest!: bspec [of _ _ "264 + i"])
    show "fmem s' f = fmem s f" if "f \<notin> of_nat ` set gs" for f using s'(3) bs that by simp
    show "pt s' q j = (if q = P \<and> 284 \<le> j \<and> j < 304 then 0 else pt s q j)" for q j
      using s'(4) [of q j] data_page_numbers(2) by simp
  qed (rule s'(5))
qed

lemma build_child_space:
  fixes s :: "'a machine_scheme" and C :: kcfg
  assumes lay: "game_layout C" and ok: "frames_ok s" and enough: "NUM_PAG_DATA \<le> card (avail s)"
    and PQ: "P \<noteq> Q" "cr3 s \<noteq> Q"
    and dir: "pte_present (pt s (cr3 s) 0) = 1" "pte_pbase_addr (pt s (cr3 s) 0) = P"
    and data: "\<And>i. i < NUM_PAG_DATA \<Longrightarrow> pt s P (264 + i) = user_entry (of_nat (Fp i))"
    and Fp: "\<And>i. i < NUM_PAG_DATA \<Longrightarrow> Fp i < TOTAL_PAGES \<and> Fp i \<notin> avail s"
  obtains s2 s' gs where "alloc_data_pages C Q s = (True, s2)"
    and "copy_child_pages P Q (share_kernel_and_code C Q P s2) = Some s'"
    and "length gs = NUM_PAG_DATA" and "distinct gs" and "set gs \<subseteq> avail s"
    and "avail s' = avail s - set gs" and "frames_ok s'"
    and "\<And>i. i < NUM_PAG_DATA \<Longrightarrow> pt s' Q (264 + i) = user_entry (of_nat (gs ! i))"
    and "\<And>j. j \<in> shared_pages C \<Longrightarrow> pt s' Q j = user_entry (get_frame P j s)"
    and "\<And>q j. q \<noteq> Q \<Longrightarrow> pt s' q j = (if q = P \<and> 284 \<le> j \<and> j < 304 then 0 else pt s q j)"
    and "\<And>i. i < NUM_PAG_DATA \<Longrightarrow> fmem s' (of_nat (gs ! i)) = fmem s (of_nat (Fp i))"
    and "\<And>f. f \<notin> of_nat ` set gs \<Longrightarrow> fmem s' f = fmem s f"
    and "s' = s\<lparr>phys_mem := phys_mem s', pt := pt s', fmem := fmem s'\<rparr>"
    and "s2 = s\<lparr>phys_mem := phys_mem s2, pt := pt s2\<rparr>"
    and "\<And>q j. q \<noteq> Q \<Longrightarrow> pt s2 q j = pt s q j"
proof -
  have D: "PAG_LOG_INIT_DATA C = 264" "PAG_LOG_INIT_CODE C = 256"
    using lay by (simp_all add: game_layout_def)
  obtain gs s2 where s2: "alloc_data_pages C Q s = (True, s2)" and
    gs: "length gs = NUM_PAG_DATA" "distinct gs" "set gs \<subseteq> avail s"
    and av2: "avail s2 = avail s - set gs" "frames_ok s2"
    and more2: "mm_state.more s2 = mm_state.more s" "cr3 s2 = cr3 s" "cr0 s2 = cr0 s"
    and new2: "\<And>i. i < NUM_PAG_DATA \<Longrightarrow> pt s2 Q (264 + i) = user_entry (of_nat (gs ! i))"
    and old2: "\<And>q j. q \<noteq> Q \<or> j \<notin> (+) 264 ` {0..<NUM_PAG_DATA} \<Longrightarrow> pt s2 q j = pt s q j"
    using alloc_data_pages_from_enough [OF ok, of "[0..<NUM_PAG_DATA]" C Q] enough
    by (auto simp: alloc_data_pages_def D)
  have gin: "gs ! i \<in> avail s" if "i < NUM_PAG_DATA" for i
    using gs that by (metis nth_mem subsetD)
  have dis: "j \<notin> shared_pages C" if "264 \<le> j" for j
    using that by (auto simp: shared_pages_def D mm_consts)
  define s3 where "s3 = share_kernel_and_code C Q P s2"
  have pt3: "pt s3 q j = (if q = Q \<and> j \<in> shared_pages C then user_entry (get_frame P j s) else pt s2 q j)"
    for q j
    using PQ old2 by (simp add: s3_def pt_share_kernel_and_code get_frame_def)
  have f3: "phys_mem s3 = phys_mem s2" "cr3 s3 = cr3 s" "mm_state.more s3 = mm_state.more s"
    "cr0 s3 = cr0 s"
    by (simp_all add: s3_def more2)
  have q3: "pt s3 q j = pt s q j" if "q \<noteq> Q" for q j using that PQ old2 by (simp add: pt3)
  have m3: "fmem s3 = fmem s" using machine_more(1) [OF f3(3)] .
  have upd: "s3 = s\<lparr>phys_mem := phys_mem s3, pt := pt s3\<rparr>" "s2 = s\<lparr>phys_mem := phys_mem s2, pt := pt s2\<rparr>"
    using f3 more2 by (cases s; cases s2; cases s3; simp)+
  obtain s' where s': "copy_child_pages P Q s3 = Some s'"
    "\<And>i. i < NUM_PAG_DATA \<Longrightarrow> fmem s' (of_nat (gs ! i)) = fmem s3 (of_nat (Fp i))"
    "\<And>f. f \<notin> of_nat ` set gs \<Longrightarrow> fmem s' f = fmem s3 f"
    "\<And>q j. pt s' q j = (if q = P \<and> 284 \<le> j \<and> j < 304 then 0 else pt s3 q j)"
    "s' = s3\<lparr>fmem := fmem s', pt := pt s'\<rparr>"
  proof (rule copy_child_pages_ok [of s3 P Q gs Fp])
    show "pte_present (pt s3 (cr3 s3) 0) = 1" "pte_pbase_addr (pt s3 (cr3 s3) 0) = P"
      using dir PQ(2) by (simp_all add: f3 q3)
    show "pt s3 Q (264 + i) = user_entry (of_nat (gs ! i))" if "i < NUM_PAG_DATA" for i
      using that dis by (simp add: pt3 new2)
    show "Fp i < TOTAL_PAGES \<and> Fp i \<notin> set gs" if "i < NUM_PAG_DATA" for i
      using Fp [OF that] gs(3) by auto
  qed (use PQ gs q3 data avail_bound [OF gin] in auto)
  have "phys_mem s' = phys_mem s2" using arg_cong [OF s'(5), of phys_mem] f3(1) by simp
  then have "avail s' = avail s - set gs" "frames_ok s'"
    using av2 by (simp_all add: avail_def frames_ok_def)
  moreover have "s' = s\<lparr>phys_mem := phys_mem s', pt := pt s', fmem := fmem s'\<rparr>"
    using s'(5) upd(1) by (cases s; cases s'; cases s3; simp)
  ultimately show thesis
    using that [OF s2 s'(1) [unfolded s3_def] gs] s'(2-4) upd(2) old2 PQ(1) dis
    by (simp add: m3 q3 pt3 new2)
qed

section \<open>Ownership of the frames\<close>

definition even_frames :: "nat set" where
  "even_frames = {i. NUM_PAG_KERNEL \<le> i \<and> i < TOTAL_PAGES \<and> even i}"

definition owned :: "(nat \<Rightarrow> nat \<Rightarrow> nat) \<Rightarrow> nat set \<Rightarrow> nat set" where
  "owned F U = (\<lambda>(t, i). F t i) ` (U \<times> {..<NUM_PAG_DATA})"

definition tables_ok :: "kcfg \<Rightarrow> nat set \<Rightarrow> (nat \<Rightarrow> nat \<Rightarrow> nat) \<Rightarrow> (nat \<Rightarrow> nat) \<Rightarrow> game \<Rightarrow> bool" where
  "tables_ok C U F K s \<longleftrightarrow>
     (\<forall>t<NR_TASKS. pt s (dir_page C t) 0 = user_entry (pagusr_page C t)) \<and>
     (\<forall>t\<in>U. \<forall>i<NUM_PAG_DATA. pt s (pagusr_page C t) (264 + i) = user_entry (of_nat (F t i))) \<and>
     (\<forall>t\<in>U. \<forall>i<NUM_PAG_CODE. pte_present (pt s (pagusr_page C t) (256 + i)) = 1 \<and>
        get_frame (pagusr_page C t) (256 + i) s = of_nat (K i))"

definition frames_partition ::
  "nat set \<Rightarrow> (nat \<Rightarrow> nat \<Rightarrow> nat) \<Rightarrow> (nat \<Rightarrow> nat) \<Rightarrow> game \<Rightarrow> bool" where
  "frames_partition U F K s \<longleftrightarrow>
     inj_on (\<lambda>(t, i). F t i) (U \<times> {..<NUM_PAG_DATA}) \<and> inj_on K {..<NUM_PAG_CODE} \<and>
     K 0 = NUM_PAG_KERNEL \<and>
     avail s \<inter> owned F U = {} \<and> avail s \<inter> K ` {..<NUM_PAG_CODE} = {} \<and>
     owned F U \<inter> K ` {..<NUM_PAG_CODE} = {} \<and>
     avail s \<union> owned F U \<union> K ` {..<NUM_PAG_CODE} = even_frames"

definition mem_inv :: "kcfg \<Rightarrow> nat set \<Rightarrow> (nat \<Rightarrow> nat \<Rightarrow> nat) \<Rightarrow> (nat \<Rightarrow> nat) \<Rightarrow> game \<Rightarrow> bool" where
  "mem_inv C U F K s \<longleftrightarrow> frames_ok s \<and> tables_ok C U F K s \<and> frames_partition U F K s"

lemma even_not_first_freeable: "f \<in> even_frames \<Longrightarrow> f \<noteq> NUM_PAG_KERNEL \<Longrightarrow> f \<in> freeable"
  by (auto simp: even_frames_def freeable_def)

lemma owned_freeable:
  assumes "frames_partition U F K s"
  shows "owned F U \<subseteq> freeable" and "avail s \<subseteq> freeable"
proof -
  have k0: "NUM_PAG_KERNEL \<in> K ` {..<NUM_PAG_CODE}"
    using assms by (auto simp: frames_partition_def mm_consts intro!: image_eqI [of _ _ 0])
  show "owned F U \<subseteq> freeable" "avail s \<subseteq> freeable"
    using assms k0 even_not_first_freeable unfolding frames_partition_def by blast+
qed

lemma ownedI: "t \<in> U \<Longrightarrow> i < NUM_PAG_DATA \<Longrightarrow> F t i \<in> owned F U"
  by (auto simp: owned_def)

text \<open>The allocator never runs dry: ten tasks cannot own more than 200 of the 376 frames.\<close>

lemma card_avail:
  assumes "frames_partition U F K s" and "finite U"
  shows "card (avail s) + NUM_PAG_DATA * card U + NUM_PAG_CODE = 384"
proof -
  have "finite (owned F U)" using assms(2) by (simp add: owned_def)
  moreover have "card (owned F U) = NUM_PAG_DATA * card U"
    using assms by (simp add: owned_def frames_partition_def card_image card_cartesian_product)
  moreover have "card (K ` {..<NUM_PAG_CODE}) = NUM_PAG_CODE"
    using assms(1) by (simp add: frames_partition_def card_image)
  moreover have "card (avail s \<union> owned F U \<union> K ` {..<NUM_PAG_CODE}) = 384"
    using assms(1) card_even_frames by (simp add: frames_partition_def even_frames_def)
  moreover have "card (avail s \<union> owned F U \<union> K ` {..<NUM_PAG_CODE}) =
      card (avail s) + card (owned F U) + card (K ` {..<NUM_PAG_CODE})"
    using assms(1) calculation(1)
    by (subst card_Un_disjoint; (subst card_Un_disjoint)?) (auto simp: frames_partition_def)
  ultimately show ?thesis by simp
qed

lemma enough_frames:
  assumes "frames_partition U F K s" and "U \<subseteq> {..<NR_TASKS}"
  shows "NUM_PAG_DATA \<le> card (avail s)"
proof -
  have "finite U" "card U \<le> 10"
    using assms(2) finite_subset card_mono [of "{..<NR_TASKS}" U] by (auto simp: mm_consts)
  with card_avail [OF assms(1)] show ?thesis by (simp add: mm_consts)
qed

end
