(* ===== verification/Game_Fork.thy ===== *)
theory Game_Fork
  imports Game_Mem
begin

text \<open>
  \<open>sys_fork\<close> and \<open>sys_exit\<close> of \<^verbatim>\<open>GAME\<close> against both halves of the invariant: what the child
  inherits, which frames it gets, which queues change, and that an exit gives back exactly
  the frames the process owned.
\<close>

section \<open>The steps of \<open>sys_fork\<close>\<close>

lemma take_free_spec:
  assumes "task_queues (links s) (c # fs) rs"
  obtains h where "take_free s = Some (c, s\<lparr>links := h\<rparr>)" and "task_queues h fs rs"
proof -
  obtain h where "list_del (Some (TaskList c)) (links s) = Some h" "task_queues h fs rs"
    using free_pop(2) [OF assms] by blast
  with free_pop(1) [OF assms] show thesis
    by (intro that) (simp_all add: take_free_def list_head_to_task_struct_def)
qed

lemma copy_task_union_queues:
  assumes "task_queues (links s) fs rs" and "c \<notin> set fs" and "c \<notin> set rs"
  shows "task_queues (links (copy_task_union p c s)) fs rs"
  by (rule task_queues_keep [OF assms(1) _ assms(2,3)])
     (auto simp: copy_task_union_def same_links_def)

lemma start_child_spec:
  assumes "task_queues (links s) fs rs" and "c \<notin> set fs" and "c \<notin> set rs"
    and "ebp s = StackAddr p ix"
  obtains s' st where "start_child c s = Some (c_int (global_PID s + 1), s')"
    and "task_queues (links s') fs (rs @ [c])"
    and "s' = s\<lparr>global_PID := c_int (global_PID s + 1), links := links s', tsc_pos := tsc_pos s',
      stacks := (stacks s)(c := (stacks s c)(ix := CodeAddr ''ret_from_fork'', ix - 1 := stacks s c ix)),
      tasks := (tasks s)(c := (tasks s c)\<lparr>PID := c_int (global_PID s + 1),
        register_esp := Some (c, ix - 1), p_stats := st, state := ST_READY\<rparr>)\<rparr>"
    and "user_ticks st = 0" and "system_ticks st = 0" and "ready_ticks st = 0"
    and "blocked_ticks st = 0" and "total_trans st = 0"
proof -
  obtain h where h: "list_add_tail (Some (TaskList c)) (Some Readyqueue) (links s) = Some h"
      "task_queues h fs (rs @ [c])"
    using ready_enq [OF assms(1-3)] by blast
  let ?g = "c_int (global_PID s + 1)"
  define s1 where "s1 = s\<lparr>global_PID := ?g,
      stacks := (stacks s)(c := (stacks s c)(ix := CodeAddr ''ret_from_fork'', ix - 1 := stacks s c ix)),
      tasks := (tasks s)(c := (tasks s c)\<lparr>PID := ?g, state := ST_READY,
        register_esp := Some (c, ix - 1)\<rparr>)\<rparr>"
  have prep: "prepare_child_stack c (upd_task c (state_update (\<lambda>_. ST_READY))
      (upd_task c (PID_update (\<lambda>_. ?g)) (s\<lparr>global_PID := ?g\<rparr>))) = Some s1"
    using assms(4) by (simp add: prepare_child_stack_def stack_ptr_def set_stack_def upd_task_def Let_def s1_def)
  obtain e r where er: "read_ticks s1 = Some (e, s1\<lparr>tsc_pos := tsc_pos s1 + 1\<rparr>)"
    "read_ticks (s1\<lparr>tsc_pos := tsc_pos s1 + 1\<rparr>) = Some (r, s1\<lparr>tsc_pos := tsc_pos s1 + 2\<rparr>)"
    using read_ticks_total [of s1] read_ticks_total [of "s1\<lparr>tsc_pos := tsc_pos s1 + 1\<rparr>"] by auto
  let ?st = "\<lparr>user_ticks = 0, system_ticks = 0, blocked_ticks = 0, ready_ticks = 0,
    elapsed_total_ticks = e, total_trans = 0, remaining_ticks = r\<rparr>"
  let ?s' = "s\<lparr>global_PID := ?g, links := h, tsc_pos := tsc_pos s + 2,
      stacks := (stacks s)(c := (stacks s c)(ix := CodeAddr ''ret_from_fork'', ix - 1 := stacks s c ix)),
      tasks := (tasks s)(c := (tasks s c)\<lparr>PID := ?g,
        register_esp := Some (c, ix - 1), p_stats := ?st, state := ST_READY\<rparr>)\<rparr>"
  have init: "init_stats c s1 = Some (upd_task c (p_stats_update (\<lambda>_. ?st)) (s1\<lparr>tsc_pos := tsc_pos s1 + 2\<rparr>))"
    by (simp add: init_stats_def er del: One_nat_def add_2_eq_Suc')
  have "start_child c s = Some (?g, ?s')"
    using h(1) by (simp add: start_child_def prep init) (cases s, simp add: upd_task_def s1_def)
  then show thesis by (rule that [where st = ?st]) (simp_all add: h(2))
qed

text \<open>
  The state after \<open>sys_fork\<close> by the process \<open>p\<close> into the slot \<open>c\<close>, given the frames \<open>gs\<close> of
  the child; only the slot \<open>c\<close>, the queues, the tables and the child's frames change.
\<close>

definition forked :: "kcfg \<Rightarrow> nat \<Rightarrow> nat \<Rightarrow> nat \<Rightarrow> nat list \<Rightarrow> (nat \<Rightarrow> nat) \<Rightarrow> game \<Rightarrow> game \<Rightarrow> bool" where
  "forked C p c ix gs Fp s s' \<longleftrightarrow>
     length gs = NUM_PAG_DATA \<and> distinct gs \<and> set gs \<subseteq> avail s \<and> avail s' = avail s - set gs \<and>
     frames_ok s' \<and>
     (\<forall>i<NUM_PAG_DATA. pt s' (pagusr_page C c) (264 + i) = user_entry (of_nat (gs ! i))) \<and>
     (\<forall>j\<in>shared_pages C. pt s' (pagusr_page C c) j = user_entry (get_frame (pagusr_page C p) j s)) \<and>
     (\<forall>q j. q \<noteq> pagusr_page C c \<longrightarrow>
        pt s' q j = (if q = pagusr_page C p \<and> 284 \<le> j \<and> j < 304 then 0 else pt s q j)) \<and>
     (\<forall>i<NUM_PAG_DATA. fmem s' (of_nat (gs ! i)) = fmem s (of_nat (Fp i))) \<and>
     (\<forall>f. f \<notin> of_nat ` set gs \<longrightarrow> fmem s' f = fmem s f) \<and>
     global_PID s' = c_int (global_PID s + 1) \<and>
     stacks s' = (stacks s)(c := (stacks s p)(ix := CodeAddr ''ret_from_fork'', ix - 1 := stacks s p ix)) \<and>
     (\<exists>st. tasks s' = (tasks s)(c := (tasks s p)\<lparr>dir_pages_baseAddr := dir_page C c,
        PID := c_int (global_PID s + 1), register_esp := Some (c, ix - 1), p_stats := st,
        state := ST_READY\<rparr>) \<and>
        user_ticks st = 0 \<and> system_ticks st = 0 \<and> ready_ticks st = 0 \<and> blocked_ticks st = 0 \<and>
        total_trans st = 0) \<and>
     s' = s\<lparr>phys_mem := phys_mem s', pt := pt s', fmem := fmem s', global_PID := global_PID s',
       links := links s', tsc_pos := tsc_pos s', stacks := stacks s', tasks := tasks s'\<rparr>"

text \<open>The slot of the child: a copy of the parent's union with a page directory of its own.\<close>

definition fork_slot_game :: "kcfg \<Rightarrow> nat \<Rightarrow> nat \<Rightarrow> node lheap \<Rightarrow> game \<Rightarrow> game" where
  "fork_slot_game C p c h s = snd (allocate_DIR C c (copy_task_union p c (s\<lparr>links := h\<rparr>)))"

lemma fork_slot_fields:
  fixes h :: "node lheap"
  assumes "p = current s" and "p \<noteq> c" and "dir_pages_baseAddr (tasks s p) = dir_page C p"
  defines "s1 \<equiv> fork_slot_game C p c h s"
  shows "pt s1 = pt s" "cr3 s1 = cr3 s" "phys_mem s1 = phys_mem s" "fmem s1 = fmem s"
    "current s1 = p" "ebp s1 = ebp s" "stacks s1 c = stacks s p" "global_PID s1 = global_PID s"
    "get_DIR p s1 = dir_page C p" "tasks s1 c = (tasks s p)\<lparr>dir_pages_baseAddr := dir_page C c\<rparr>"
    "s1 = s\<lparr>links := links s1, stacks := (stacks s)(c := stacks s p),
      tasks := (tasks s)(c := (tasks s p)\<lparr>dir_pages_baseAddr := dir_page C c\<rparr>)\<rparr>"
  using assms(1-3)
  by (simp_all add: s1_def fork_slot_game_def allocate_DIR_def upd_task_def copy_task_union_def current_def get_DIR_def)

text \<open>The address space of the child, built while the parent's is loaded.\<close>

lemma fork_space:
  fixes s :: game
  assumes lay: "game_layout C" and mem: "mem_inv C U F K s" and U: "U \<subseteq> {..<NR_TASKS}" "p \<in> U"
    and d: "c < NR_TASKS" "p < NR_TASKS" "p \<noteq> c" and cr3: "cr3 s = dir_page C p"
    and s1: "pt s1 = pt s" "cr3 s1 = cr3 s" "phys_mem s1 = phys_mem s"
  obtains s2 s3 gs where "alloc_data_pages C (pagusr_page C c) s1 = (True, s2)"
    and "copy_child_pages (pagusr_page C p) (pagusr_page C c) (share_kernel_and_code C (pagusr_page C c) (pagusr_page C p) s2) = Some s3"
    and "length gs = NUM_PAG_DATA" and "distinct gs" and "set gs \<subseteq> avail s1"
    and "avail s3 = avail s1 - set gs" and "frames_ok s3"
    and "\<And>i. i < NUM_PAG_DATA \<Longrightarrow> pt s3 (pagusr_page C c) (264 + i) = user_entry (of_nat (gs ! i))"
    and "\<And>j. j \<in> shared_pages C \<Longrightarrow> pt s3 (pagusr_page C c) j = user_entry (get_frame (pagusr_page C p) j s1)"
    and "\<And>q j. q \<noteq> pagusr_page C c \<Longrightarrow>
      pt s3 q j = (if q = pagusr_page C p \<and> 284 \<le> j \<and> j < 304 then 0 else pt s1 q j)"
    and "\<And>i. i < NUM_PAG_DATA \<Longrightarrow> fmem s3 (of_nat (gs ! i)) = fmem s1 (of_nat (F p i))"
    and "\<And>f. f \<notin> of_nat ` set gs \<Longrightarrow> fmem s3 f = fmem s1 f"
    and "s3 = s1\<lparr>phys_mem := phys_mem s3, pt := pt s3, fmem := fmem s3\<rparr>"
    and "s2 = s1\<lparr>phys_mem := phys_mem s2, pt := pt s2\<rparr>"
    and "\<And>q j. q \<noteq> pagusr_page C c \<Longrightarrow> pt s2 q j = pt s1 q j"
proof -
  have part: "frames_partition U F K s" using mem by (simp add: mem_inv_def)
  have av1: "avail s1 = avail s" "frames_ok s1"
    using mem by (simp_all add: avail_def frames_ok_def s1 mem_inv_def)
  have tab: "pt s (dir_page C p) 0 = user_entry (pagusr_page C p)"
    using mem d(2) by (simp add: mem_inv_def tables_ok_def)
  have PQ: "pagusr_page C p \<noteq> pagusr_page C c" using pagusr_page_inj d by blast
  show thesis
  proof (rule build_child_space [OF lay av1(2) _ PQ, of "F p"])
    show "NUM_PAG_DATA \<le> card (avail s1)" using enough_frames [OF part U(1)] av1 by simp
    show "cr3 s1 \<noteq> pagusr_page C c" using cr3 layout_pages(1) [OF lay d(2,1)] s1 by simp
    show "pte_present (pt s1 (cr3 s1) 0) = 1" "pte_pbase_addr (pt s1 (cr3 s1) 0) = pagusr_page C p"
      using cr3 tab layout_pages(2) [OF lay d(2) d(2)] by (simp_all add: s1)
    show "pt s1 (pagusr_page C p) (264 + i) = user_entry (of_nat (F p i))" if "i < NUM_PAG_DATA" for i
      using mem U(2) that by (simp add: mem_inv_def tables_ok_def s1)
    show "F p i < TOTAL_PAGES \<and> F p i \<notin> avail s1" if "i < NUM_PAG_DATA" for i
      using ownedI [OF U(2) that, of F] owned_freeable(1) [OF part] freeable_bound part av1
      by (auto simp: frames_partition_def)
  qed (rule that; assumption)
qed

text \<open>The state after \<open>start_child\<close>, in terms of the state before the call.\<close>

lemma start_child_result:
  fixes s s1 s3 s' :: game
  assumes s1: "s1 = s\<lparr>links := links s1, stacks := (stacks s)(c := stacks s p),
      tasks := (tasks s)(c := (tasks s p)\<lparr>dir_pages_baseAddr := dir_page C c\<rparr>)\<rparr>"
    and s3: "s3 = s1\<lparr>phys_mem := phys_mem s3, pt := pt s3, fmem := fmem s3\<rparr>"
    and s': "s' = s3\<lparr>global_PID := c_int (global_PID s3 + 1), links := links s', tsc_pos := tsc_pos s',
      stacks := (stacks s3)(c := (stacks s3 c)(ix := CodeAddr ''ret_from_fork'', ix - 1 := stacks s3 c ix)),
      tasks := (tasks s3)(c := (tasks s3 c)\<lparr>PID := c_int (global_PID s3 + 1),
        register_esp := Some (c, ix - 1), p_stats := st, state := ST_READY\<rparr>)\<rparr>"
  shows "pt s' = pt s3" "phys_mem s' = phys_mem s3" "fmem s' = fmem s3"
    "global_PID s' = c_int (global_PID s + 1)"
    "stacks s' = (stacks s)(c := (stacks s p)(ix := CodeAddr ''ret_from_fork'', ix - 1 := stacks s p ix))"
    "tasks s' = (tasks s)(c := (tasks s p)\<lparr>dir_pages_baseAddr := dir_page C c,
        PID := c_int (global_PID s + 1), register_esp := Some (c, ix - 1), p_stats := st,
        state := ST_READY\<rparr>)"
    "s' = s\<lparr>phys_mem := phys_mem s', pt := pt s', fmem := fmem s', global_PID := global_PID s',
       links := links s', tsc_pos := tsc_pos s', stacks := stacks s', tasks := tasks s'\<rparr>"
proof -
  have f1: "global_PID s1 = global_PID s" "stacks s1 = (stacks s)(c := stacks s p)"
      "tasks s1 = (tasks s)(c := (tasks s p)\<lparr>dir_pages_baseAddr := dir_page C c\<rparr>)" by (subst s1, simp)+
  have f3: "global_PID s3 = global_PID s1" "stacks s3 = stacks s1" "tasks s3 = tasks s1" by (subst s3, simp)+
  show "pt s' = pt s3" "phys_mem s' = phys_mem s3" "fmem s' = fmem s3"
    "global_PID s' = c_int (global_PID s + 1)"
    "stacks s' = (stacks s)(c := (stacks s p)(ix := CodeAddr ''ret_from_fork'', ix - 1 := stacks s p ix))"
    "tasks s' = (tasks s)(c := (tasks s p)\<lparr>dir_pages_baseAddr := dir_page C c,
        PID := c_int (global_PID s + 1), register_esp := Some (c, ix - 1), p_stats := st,
        state := ST_READY\<rparr>)"
    by (subst s', simp add: f1 f3)+
  show "s' = s\<lparr>phys_mem := phys_mem s', pt := pt s', fmem := fmem s', global_PID := global_PID s',
       links := links s', tsc_pos := tsc_pos s', stacks := stacks s', tasks := tasks s'\<rparr>"
    using s' s3 s1 by (cases s; cases s1; cases s3; cases s'; simp)
qed

lemma fork_spec:
  assumes inv: "sched_inv C (c # fs) rs idle s" and lay: "game_layout C"
    and mem: "mem_inv C U F K s" and U: "U \<subseteq> {..<NR_TASKS}" "p \<in> U" and p: "p = current s"
    and ebp: "ebp s = StackAddr p ix"
  obtains gs s' where "sys_fork C s = Some (c_int (global_PID s + 1), s')"
    and "forked C p c ix gs (F p) s s'" and "task_queues (links s') fs (rs @ [c])"
proof -
  note i = sched_invD [OF inv]
  let ?P = "pagusr_page C p" and ?Q = "pagusr_page C c"
  have d: "c \<notin> set fs" "c \<notin> set rs" "c < NR_TASKS" "p < NR_TASKS" "p \<noteq> c"
    using task_queues_distinct [OF i(1)] i(3,4) p by auto
  have tab: "pt s (dir_page C t) 0 = user_entry (pagusr_page C t)" if "t < NR_TASKS" for t
    using mem that by (simp add: mem_inv_def tables_ok_def)
  have dirp: "dir_pages_baseAddr (tasks s p) = dir_page C p"
    using i(3,4,9) p by (auto simp: live_ok_def live_def)
  obtain h where h: "take_free s = Some (c, s\<lparr>links := h\<rparr>)" "task_queues h fs rs"
    by (rule take_free_spec [OF i(1)])
  define s1 where "s1 = fork_slot_game C p c h s"
  note f1 = fork_slot_fields [OF p d(5) dirp, where h = h, folded s1_def]
  have q1: "task_queues (links s1) fs rs"
    using copy_task_union_queues [of "s\<lparr>links := h\<rparr>" fs rs c p] h(2) d
    by (simp add: s1_def fork_slot_game_def allocate_DIR_def upd_task_def)
  have PT1: "get_PT c s1 = ?Q"
    using tab [OF d(3)] layout_pages(2) [OF lay d(3) d(3)] by (simp add: get_PT_def f1(1,10))
  have cr3: "cr3 s = dir_page C p" using i(12) p by simp
  obtain s2 s3 gs where
    b: "alloc_data_pages C ?Q s1 = (True, s2)"
      "copy_child_pages ?P ?Q (share_kernel_and_code C ?Q ?P s2) = Some s3"
      "length gs = NUM_PAG_DATA" "distinct gs" "set gs \<subseteq> avail s1"
      "avail s3 = avail s1 - set gs" "frames_ok s3"
      "\<And>i. i < NUM_PAG_DATA \<Longrightarrow> pt s3 ?Q (264 + i) = user_entry (of_nat (gs ! i))"
      "\<And>j. j \<in> shared_pages C \<Longrightarrow> pt s3 ?Q j = user_entry (get_frame ?P j s1)"
      "\<And>q j. q \<noteq> ?Q \<Longrightarrow> pt s3 q j = (if q = ?P \<and> 284 \<le> j \<and> j < 304 then 0 else pt s1 q j)"
      "\<And>i. i < NUM_PAG_DATA \<Longrightarrow> fmem s3 (of_nat (gs ! i)) = fmem s1 (of_nat (F p i))"
      "\<And>f. f \<notin> of_nat ` set gs \<Longrightarrow> fmem s3 f = fmem s1 f"
      "s3 = s1\<lparr>phys_mem := phys_mem s3, pt := pt s3, fmem := fmem s3\<rparr>"
      "s2 = s1\<lparr>phys_mem := phys_mem s2, pt := pt s2\<rparr>"
      "\<And>q j. q \<noteq> ?Q \<Longrightarrow> pt s2 q j = pt s1 q j"
    by (rule fork_space [OF lay mem U d(3-5) cr3 f1(1-3)]) (rule that; assumption)
  have f2: "current s2 = p" "tasks s2 = tasks s1"
    using f1(5) arg_cong [OF b(14), of esp] arg_cong [OF b(14), of tasks] by (simp_all add: current_def)
  have PT2: "get_PT p s2 = ?P"
    using b(15) layout_pages(1) [OF lay d(4,3)] tab [OF d(4)] layout_pages(2) [OF lay d(4) d(4)]
      f1(1,9) f2(2) by (simp add: get_PT_def get_DIR_def)
  have f3: "current s3 = p" "tasks s3 = tasks s1" "links s3 = links s1" "ebp s3 = ebp s"
    "global_PID s3 = global_PID s" "cr3 s3 = dir_page C p"
    using f1(2,5,6,8) cr3 by (subst b(13), simp add: current_def)+
  have "set_cr3 (get_DIR p s3) s3 = s3"
    using f3(2,6) f1(9) by (cases s3) (simp add: set_cr3_def get_DIR_def)
  then have "sys_fork C s = start_child c s3"
    using free_empty [OF i(1)] b(1,2)
    by (simp add: sys_fork_def h(1) p [symmetric] current_def [of "s\<lparr>links := h\<rparr>"]
        current_def [of s, folded p, symmetric] fork_slot_game_def [symmetric] s1_def [symmetric] PT1 fork_child_def f2(1) PT2 f3(1))
  moreover obtain s' st where s': "start_child c s3 = Some (c_int (global_PID s3 + 1), s')"
      "task_queues (links s') fs (rs @ [c])"
      "s' = s3\<lparr>global_PID := c_int (global_PID s3 + 1), links := links s', tsc_pos := tsc_pos s',
      stacks := (stacks s3)(c := (stacks s3 c)(ix := CodeAddr ''ret_from_fork'', ix - 1 := stacks s3 c ix)),
      tasks := (tasks s3)(c := (tasks s3 c)\<lparr>PID := c_int (global_PID s3 + 1),
        register_esp := Some (c, ix - 1), p_stats := st, state := ST_READY\<rparr>)\<rparr>"
      "user_ticks st = 0" "system_ticks st = 0" "ready_ticks st = 0"
      "blocked_ticks st = 0" "total_trans st = 0"
    by (rule start_child_spec [OF q1 [folded f3(3)] d(1,2) ebp [folded f3(4)]])
  ultimately have step: "sys_fork C s = Some (c_int (global_PID s + 1), s')" using f3(5) by simp
  note v = start_child_result [OF f1(11) b(13) s'(3)]
  have av1: "avail s1 = avail s" by (simp add: avail_def f1(3))
  have av: "avail s' = avail s3" "frames_ok s' = frames_ok s3" by (simp_all add: avail_def frames_ok_def v(2))
  have "forked C p c ix gs (F p) s s'"
    unfolding forked_def
    by (intro conjI exI [of _ st]) (rule v(7) | simp add: v(1-6) av av1 [symmetric] b(3-12) s'(4-8) f1(1,4) get_frame_def)+
  with step show thesis using s'(2) by (rule that)
qed

section \<open>The invariant after \<open>sys_fork\<close>\<close>

lemma forked_sched_inv:
  assumes inv: "sched_inv C (c # fs) rs idle s" and f: "forked C p c ix gs Fp s s'"
    and q: "task_queues (links s') fs (rs @ [c])" and p: "p = current s"
    and frame: "stacks s p (ix + 1) = CodeAddr ''system_call_handler''"
      "ix + 2 + 16 = KERNEL_STACK_SIZE"
  shows "sched_inv C fs (rs @ [c]) idle s'"
proof -
  note i = sched_invD [OF inv]
  have d: "c \<notin> set fs" "c \<notin> set rs" "c < NR_TASKS" "p < NR_TASKS" "p \<noteq> c" "idle \<noteq> c"
    using task_queues_distinct [OF i(1)] i(3,4,6) p by auto
  obtain st where t: "tasks s' = (tasks s)(c := (tasks s p)\<lparr>dir_pages_baseAddr := dir_page C c,
        PID := c_int (global_PID s + 1), register_esp := Some (c, ix - 1), p_stats := st,
        state := ST_READY\<rparr>)" using f by (auto simp: forked_def)
  have k: "stacks s' = (stacks s)(c := (stacks s p)(ix := CodeAddr ''ret_from_fork'', ix - 1 := stacks s p ix))"
    and all: "s' = s\<lparr>phys_mem := phys_mem s', pt := pt s', fmem := fmem s', global_PID := global_PID s',
       links := links s', tsc_pos := tsc_pos s', stacks := stacks s', tasks := tasks s'\<rparr>"
    using f unfolding forked_def by blast+
  have same: "esp s' = esp s" "idle_task s' = idle_task s" "tss_esp0 s' = tss_esp0 s"
    "msr_175 s' = msr_175 s" "cr3 s' = cr3 s"
    by (subst all, simp)+
  have cur: "current s' = p" using p same by (simp add: current_def)
  obtain n where n: "ix = n + 1" "n + 19 = KERNEL_STACK_SIZE"
    using frame(2) by (cases ix) (auto simp: KERNEL_STACK_SIZE_def)
  have "resume_shape C idle (stacks s' c) c n"
    using frame(1) n by (simp add: resume_shape_def k)
  then have rc: "resumable C idle s' c" using n by (simp add: resumable_def t)
  have "resumable C idle s' u" if "u \<in> insert idle (set rs) - {p}" for u
    using i(8) that d p by (auto simp: waiting_ok_def resumable_def t k)
  then have "waiting_ok C (rs @ [c]) idle p s'"
    using rc i(8) d by (auto simp: waiting_ok_def t)
  moreover have "live_ok C fs s'"
    using i(9) i(3,4) d p by (auto simp: live_ok_def live_def t)
  ultimately show ?thesis
    using i q d p by (auto simp: sched_inv_def same cur t)
qed

lemma owned_insert:
  "c \<notin> U \<Longrightarrow> length gs = NUM_PAG_DATA \<Longrightarrow> owned (F(c := (!) gs)) (insert c U) = owned F U \<union> set gs"
proof -
  assume c: "c \<notin> U" and l: "length gs = NUM_PAG_DATA"
  have "owned F' (insert c U) = owned F' U \<union> F' c ` {..<NUM_PAG_DATA}" for F'
    by (auto simp: owned_def)
  moreover have "owned (F(c := (!) gs)) U = owned F U"
    unfolding owned_def by (rule image_cong) (use c in auto)
  moreover have "(!) gs ` {..<NUM_PAG_DATA} = set gs"
    by (auto simp: set_conv_nth l)
  ultimately show ?thesis by simp
qed

lemma partition_inj:
  "frames_partition U F K s \<Longrightarrow> t \<in> U \<Longrightarrow> u \<in> U \<Longrightarrow> i < NUM_PAG_DATA \<Longrightarrow> j < NUM_PAG_DATA \<Longrightarrow>
   F t i = F u j \<Longrightarrow> t = u \<and> i = j"
  by (auto simp: frames_partition_def inj_on_def)

lemma forked_partition:
  assumes part: "frames_partition U F K s" and f: "forked C p c ix gs Fp s s'" and "c \<notin> U"
  shows "frames_partition (insert c U) (F(c := (!) gs)) K s'"
proof -
  have gs: "length gs = NUM_PAG_DATA" "distinct gs" "set gs \<subseteq> avail s" "avail s' = avail s - set gs"
    using f by (simp_all add: forked_def)
  have nF: "gs ! i \<noteq> F t j" if "t \<in> U" "i < NUM_PAG_DATA" "j < NUM_PAG_DATA" for t i j
  proof -
    have "gs ! i \<in> avail s" using gs(1,3) that(2) by (metis nth_mem subsetD)
    with ownedI [OF that(1,3), of F] part show ?thesis by (auto simp: frames_partition_def)
  qed
  have inj: "inj_on (\<lambda>(t, i). (F(c := (!) gs)) t i) (insert c U \<times> {..<NUM_PAG_DATA})"
  proof (rule inj_onI)
    fix x y
    assume xy: "x \<in> insert c U \<times> {..<NUM_PAG_DATA}" "y \<in> insert c U \<times> {..<NUM_PAG_DATA}"
      "(case x of (t, i) \<Rightarrow> (F(c := (!) gs)) t i) = (case y of (t, i) \<Rightarrow> (F(c := (!) gs)) t i)"
    obtain t i u j where tu: "x = (t, i)" "y = (u, j)" by (cases x, cases y)
    from xy show "x = y"
      unfolding tu
      using gs nF [of u i j] nF [of t j i] partition_inj [OF part] \<open>c \<notin> U\<close>
      by (auto simp: nth_eq_iff_index_eq split: if_splits)
  qed
  show ?thesis
    unfolding frames_partition_def owned_insert [OF \<open>c \<notin> U\<close> gs(1)] gs(4)
    by (intro conjI inj) (use part gs(3) in \<open>auto simp: frames_partition_def\<close>)
qed

lemma forked_mem_inv:
  assumes mem: "mem_inv C U F K s" and lay: "game_layout C" and f: "forked C p c ix gs (F p) s s'"
    and U: "U \<subseteq> {..<NR_TASKS}" "p \<in> U" "c \<notin> U" "c < NR_TASKS"
  shows "mem_inv C (insert c U) (F(c := (!) gs)) K s'"
proof -
  have part: "frames_partition U F K s" and tab: "tables_ok C U F K s"
    using mem by (simp_all add: mem_inv_def)
  have D: "PAG_LOG_INIT_CODE C = 256" using lay by (simp add: game_layout_def)
  have pt': "\<And>q j. q \<noteq> pagusr_page C c \<Longrightarrow>
      pt s' q j = (if q = pagusr_page C p \<and> 284 \<le> j \<and> j < 304 then 0 else pt s q j)"
    and data: "\<And>i. i < NUM_PAG_DATA \<Longrightarrow> pt s' (pagusr_page C c) (264 + i) = user_entry (of_nat (gs ! i))"
    and share: "\<And>j. j \<in> shared_pages C \<Longrightarrow>
      pt s' (pagusr_page C c) j = user_entry (get_frame (pagusr_page C p) j s)"
    using f by (simp_all add: forked_def)
  have other: "pt s' (pagusr_page C t) j = pt s (pagusr_page C t) j" if "t \<in> U" "j < 284" for t j
    using pt' [of "pagusr_page C t" j] that U pagusr_page_inj [of t c C] by auto
  have dirs: "pt s' (dir_page C t) 0 = user_entry (pagusr_page C t)" if "t < NR_TASKS" for t
    using pt' [of "dir_page C t" 0] tab that layout_pages(1) [OF lay that U(4)] by (simp add: tables_ok_def)
  have Kb: "K i < TOTAL_PAGES" if "i < NUM_PAG_CODE" for i
    using part that by (auto simp: frames_partition_def even_frames_def)
  have code: "pte_present (pt s' (pagusr_page C c) (256 + i)) = 1 \<and>
      get_frame (pagusr_page C c) (256 + i) s' = of_nat (K i)" if "i < NUM_PAG_CODE" for i
  proof -
    have "256 + i \<in> shared_pages C" using that by (simp add: shared_pages_def D)
    from share [OF this] show ?thesis
      using tab U(2) that Kb by (simp add: get_frame_def tables_ok_def)
  qed
  have "tables_ok C (insert c U) (F(c := (!) gs)) K s'"
    unfolding tables_ok_def
    using dirs code data tab U(3) other by (auto simp: tables_ok_def get_frame_def mm_consts)
  moreover have "frames_ok s'" using f by (simp add: forked_def)
  ultimately show ?thesis using forked_partition [OF part f U(3)] by (simp add: mem_inv_def)
qed

section \<open>\<open>sys_exit\<close>\<close>

lemma owned_remove:
  assumes "frames_partition U F K s" and "p \<in> U"
  shows "owned F U = owned F (U - {p}) \<union> F p ` {..<NUM_PAG_DATA}"
    and "owned F (U - {p}) \<inter> F p ` {..<NUM_PAG_DATA} = {}"
  using assms(2) partition_inj [OF assms(1), of _ p] by (auto simp: owned_def)

text \<open>Releasing the pages of \<open>p\<close> gives the allocator the frames of \<open>p\<close> and no other.\<close>

lemma release_process:
  assumes mem: "mem_inv C U F K s" and lay: "game_layout C" and p: "p \<in> U" "U \<subseteq> {..<NR_TASKS}"
    and PT: "P = pagusr_page C p"
  defines "s' \<equiv> release_data_pages C P NUM_PAG_DATA s"
  shows "mem_inv C (U - {p}) F K s'" and "avail s' = avail s \<union> F p ` {..<NUM_PAG_DATA}"
    and "mm_state.more s' = mm_state.more s" and "cr3 s' = cr3 s"
proof -
  have part: "frames_partition U F K s" and tab: "tables_ok C U F K s" and ok: "frames_ok s"
    using mem by (simp_all add: mem_inv_def)
  have D: "PAG_LOG_INIT_DATA C = 264" using lay by (simp add: game_layout_def)
  let ?fs = "map (F p) [0..<NUM_PAG_DATA]"
  have Fb: "F p i \<in> freeable" if "i < NUM_PAG_DATA" for i
    using ownedI [OF p(1) that, of F] owned_freeable(1) [OF part] by blast
  have fs: "length ?fs = NUM_PAG_DATA" "set ?fs \<subseteq> freeable" "set ?fs = F p ` {..<NUM_PAG_DATA}"
    using Fb by auto
  have "\<forall>k<NUM_PAG_DATA. get_frame P (PAG_LOG_INIT_DATA C + k) s = of_nat (?fs ! k)"
    using tab p(1) Fb freeable_bound by (simp add: tables_ok_def get_frame_def PT D)
  note r = release_data_pages_ok [OF ok fs(1,2) this, folded s'_def]
  show av: "avail s' = avail s \<union> F p ` {..<NUM_PAG_DATA}" using r(1) fs(3) by simp
  show "mm_state.more s' = mm_state.more s" "cr3 s' = cr3 s" using r(3,4) by simp_all
  have other: "pagusr_page C t \<noteq> P" if "t \<in> U - {p}" for t
    using that p pagusr_page_inj [of t p C] by (auto simp: PT)
  have "dir_page C t \<noteq> P" if "t < NR_TASKS" for t
    using layout_pages(1) [OF lay that, of p] p by (auto simp: PT)
  then have "tables_ok C (U - {p}) F K s'"
    using tab other by (auto simp: tables_ok_def get_frame_def r(6))
  moreover have "frames_partition (U - {p}) F K s'"
    using part owned_remove [OF part p(1)] unfolding frames_partition_def av
    by (auto intro: inj_on_subset)
  ultimately show "mem_inv C (U - {p}) F K s'" using r(2) by (simp add: mem_inv_def)
qed

end
