(* ===== verification/Game_Reach.thy ===== *)
theory Game_Reach
  imports Game_Fork
begin

text \<open>
  The whole invariant of the \<^verbatim>\<open>GAME\<close> kernel, the step relation of its entry points (clock,
  keyboard, system calls) and the theorem that every reachable state satisfies the
  invariant. The steps cover every system call; two conditions of the environment are
  written in the rules: a process does not yield while the ready queue is empty (the
  kernel then resumes it from a stale stack pointer, shown at the end), and fewer than
  \<open>2^31 - 1001\<close> processes are created, so that \<open>global_PID\<close> does not wrap.
\<close>

section \<open>The invariant\<close>

definition pid_inv :: "nat list \<Rightarrow> game \<Rightarrow> bool" where
  "pid_inv fs s \<longleftrightarrow> inj_on (\<lambda>t. PID (tasks s t)) (live fs) \<and>
     (\<forall>t\<in>live fs. 0 \<le> PID (tasks s t) \<and> PID (tasks s t) \<le> global_PID s) \<and>
     (\<forall>t\<in>set fs. PID (tasks s t) = -1) \<and> 0 \<le> global_PID s \<and> global_PID s < 2 ^ 31"

definition users :: "nat list \<Rightarrow> nat \<Rightarrow> nat set" where
  "users fs idle = live fs - {idle}"

definition kinv_at :: "kcfg \<Rightarrow> nat list \<Rightarrow> nat list \<Rightarrow> nat \<Rightarrow> (nat \<Rightarrow> nat \<Rightarrow> nat) \<Rightarrow> (nat \<Rightarrow> nat) \<Rightarrow> game \<Rightarrow> bool" where
  "kinv_at C fs rs idle F K s \<longleftrightarrow>
     sched_inv C fs rs idle s \<and> mem_inv C (users fs idle) F K s \<and> pid_inv fs s \<and>
     quantum_ok s \<and> at_rest s \<and> kb_ok (k_buffer s) \<and> length (keyboard_vec s) = 128"

definition kinv :: "kcfg \<Rightarrow> game \<Rightarrow> bool" where
  "kinv C s \<longleftrightarrow> (\<exists>fs rs idle F K. kinv_at C fs rs idle F K s)"

definition cfg_ok :: "kcfg \<Rightarrow> bool" where
  "cfg_ok C \<longleftrightarrow> game_layout C \<and> stack_room C"

lemma users_bound: "users fs idle \<subseteq> {..<NR_TASKS}"
  by (auto simp: users_def live_def)

lemma mem_inv_frame:
  "pt s' = pt s \<Longrightarrow> phys_mem s' = phys_mem s \<Longrightarrow> mem_inv C U F K s' = mem_inv C U F K s"
  by (simp add: mem_inv_def tables_ok_def frames_partition_def frames_ok_def avail_def get_frame_def)

lemma pid_inv_frame:
  "(\<And>t. PID (tasks s' t) = PID (tasks s t)) \<Longrightarrow> global_PID s' = global_PID s \<Longrightarrow>
   pid_inv fs s' = pid_inv fs s"
  by (simp add: pid_inv_def)

lemma frame_procD:
  assumes "frame_proc s s'"
  shows "mem_inv C U F K s' = mem_inv C U F K s" "pid_inv fs s' = pid_inv fs s"
    "keyboard_vec s' = keyboard_vec s"
  using assms by (auto simp: frame_proc_def intro!: mem_inv_frame pid_inv_frame)

section \<open>System calls that do not reschedule\<close>

definition benign :: "game \<Rightarrow> game \<Rightarrow> bool" where
  "benign s s' \<longleftrightarrow> frame_queue s s' \<and> esp s' = esp s \<and> idle_task s' = idle_task s \<and>
     pt s' = pt s \<and> phys_mem s' = phys_mem s \<and> global_PID s' = global_PID s \<and>
     k_buffer s' = k_buffer s \<and> keyboard_vec s' = keyboard_vec s \<and>
     (\<forall>t. PID (tasks s' t) = PID (tasks s t) \<and>
        dir_pages_baseAddr (tasks s' t) = dir_pages_baseAddr (tasks s t) \<and>
        total_quantum (tasks s' t) = total_quantum (tasks s t))"

lemma benign_refl [simp]: "benign s s"
  by (simp add: benign_def)

lemma benign_trans: "benign s s' \<Longrightarrow> benign s' s'' \<Longrightarrow> benign s s''"
  by (simp add: benign_def frame_queue_def)

lemma benign_scr [simp]: "benign s (s\<lparr>scr := sc\<rparr>)"
  by (simp add: benign_def frame_queue_def)

lemma write_chunks_benign: "write_chunks b n s = Some (b', n', s') \<Longrightarrow> benign s s'"
proof (induction b n s arbitrary: b' n' s' rule: write_chunks.induct)
  case (1 b n s)
  show ?case
  proof (cases "n > TAM_BUFFER")
    case False
    with "1.prems" show ?thesis by (simp add: write_chunks.simps [of b])
  next
    case True
    with "1.prems" obtain lb where lb: "copy_in b (nat TAM_BUFFER) s = Some lb"
      by (auto simp: write_chunks.simps [of b] split: option.splits)
    obtain r sc where rc: "sys_write_console lb TAM_BUFFER (scr s) = (r, sc)" by fastforce
    with "1.prems" True lb have "write_chunks (b + word_of_int r) (n - r) (s\<lparr>scr := sc\<rparr>) = Some (b', n', s')"
      by (simp add: write_chunks.simps [of b])
    from "1.IH" [OF True lb rc [symmetric] refl this] have "benign (s\<lparr>scr := sc\<rparr>) s'" .
    then show ?thesis using benign_trans benign_scr by blast
  qed
qed

lemma sys_write_benign: "sys_write fd b n s = Some (r, s') \<Longrightarrow> benign s s'"
  by (auto simp: sys_write_def Let_def bind_Some_conv case_prod_beta split: if_splits
      dest!: write_chunks_benign intro: benign_trans)

lemma copy_out_benign: "copy_out a bs s = Some s' \<Longrightarrow> benign s s'"
proof (induction bs arbitrary: a s)
  case (Cons b bs)
  then obtain s1 where s1: "poke a b s = Some s1" "copy_out (a + 1) bs s1 = Some s'"
    by (auto simp: bind_Some_conv)
  from s1(1) have "benign s s1"
    by (auto simp: poke_def bind_Some_conv benign_def frame_queue_def)
  with Cons.IH [OF s1(2)] show ?case by (rule benign_trans [rotated])
qed simp

lemma sys_pollEvent_benign: "sys_pollEvent a s = Some (r, s') \<Longrightarrow> benign s s'"
  by (auto simp: sys_pollEvent_def bind_Some_conv split: if_splits dest: copy_out_benign)

lemma sys_get_stats_benign: "sys_get_stats pid a s = Some (r, s') \<Longrightarrow> benign s s'"
proof -
  have "benign s (upd_task i (p_stats_update f) s)" for i f
    by (auto simp: benign_def frame_queue_def upd_task_def)
  then show "sys_get_stats pid a s = Some (r, s') \<Longrightarrow> benign s s'"
    by (auto simp: sys_get_stats_def Let_def bind_Some_conv split: if_splits option.splits
        dest!: copy_out_benign intro: benign_trans)
qed

text \<open>Entering with \<open>sysenter\<close>, a benign call and leaving with \<open>sysexit\<close> keep the invariant.\<close>

lemma kinv_sysexit:
  assumes inv: "kinv_at C fs rs idle F K s" and b: "benign (sysenter s) s'"
  shows "kinv_at C fs rs idle F K (drop_words 16 (s'\<lparr>eax := v\<rparr>))"
proof -
  have sc: "sched_inv C fs rs idle s" and i: "mem_inv C (users fs idle) F K s" "pid_inv fs s"
    "quantum_ok s" "kb_ok (k_buffer s)" "length (keyboard_vec s) = 128"
    using inv by (simp_all add: kinv_at_def)
  let ?s = "drop_words 16 (s'\<lparr>eax := v\<rparr>)"
  note ent = sysenter_at [OF sc]
  have e: "esp s' = (current s, KERNEL_STACK_SIZE - 16)" using b by (simp add: benign_def ent)
  have "frame_queue s s'" using b by (simp add: benign_def ent frame_queue_def)
  then have "sched_inv C fs rs idle ?s"
    by (intro sched_inv_frame [OF sc])
       (use b e in \<open>auto simp: benign_def ent frame_queue_def drop_words_def current_def\<close>)
  moreover have "at_rest ?s" using e by (simp add: at_rest_def KERNEL_STACK_SIZE_def)
  moreover have "mem_inv C (users fs idle) F K ?s"
    using i(1) b by (subst mem_inv_frame [of ?s s]) (simp_all add: benign_def ent drop_words_def)
  moreover have "pid_inv fs ?s"
    using i(2) b by (subst pid_inv_frame [of ?s s]) (simp_all add: benign_def ent drop_words_def)
  ultimately show ?thesis
    using i b by (simp add: kinv_at_def quantum_ok_def benign_def ent frame_queue_def drop_words_def)
qed

section \<open>Clock, keyboard, yield\<close>

lemma kinv_timer:
  assumes inv: "kinv_at C fs rs idle F K s" and C: "cfg_ok C" and f: "console_only f"
    and kb: "\<And>s. kb_ok (k_buffer s) \<Longrightarrow> kb_ok (k_buffer (f s))"
  obtains s' rs' where "do { s \<leftarrow> user_to_system (enter_interrupt s);
      s \<leftarrow> schedule (f (call_path C ''clock_handler'' s)); return_path C s } = Some s'"
    and "kinv_at C fs rs' idle F K s'" and "rr_abs s' rs' = rr_tick (rr_abs s rs)"
proof -
  have i: "sched_inv C fs rs idle s" "at_rest s" "quantum_ok s" "stack_room C"
    "mem_inv C (users fs idle) F K s" "pid_inv fs s" "kb_ok (k_buffer s)" "length (keyboard_vec s) = 128"
    using inv C by (simp_all add: kinv_at_def cfg_ok_def)
  show thesis
  proof (rule timer_interrupt [OF i(1-4) f])
    fix s0 s' rs'
    assume s': "do { s \<leftarrow> user_to_system (enter_interrupt s);
        s \<leftarrow> schedule (f (call_path C ''clock_handler'' s)); return_path C s } = Some s'"
      "sched_inv C fs rs' idle s'" "rr_abs s' rs' = rr_tick (rr_abs s rs)" "at_rest s'" "quantum_ok s'"
      "frame_proc s s'" "k_buffer s0 = k_buffer s" "k_buffer s' = k_buffer (f s0)"
    have "kb_ok (k_buffer s')" using kb [of s0] i(7) s'(7,8) by simp
    with s' i frame_procD [OF s'(6)] show thesis
      by (intro that [of s' rs']) (simp_all add: kinv_at_def)
  qed
qed

lemma kinv_quiet:
  assumes inv: "kinv_at C fs rs idle F K s" and f: "console_only f"
    and kb: "\<And>s. kb_ok (k_buffer s) \<Longrightarrow> kb_ok (k_buffer (f s))"
  obtains s0 s' where "do { s \<leftarrow> user_to_system (enter_interrupt s); s \<leftarrow> system_to_user (f s);
      Some (drop_words (entry_words s) s) } = Some s'" and "kinv_at C fs rs idle F K s'"
    and "rr_abs s' rs = rr_abs s rs" and "scr s0 = scr s" and "scr s' = scr (f s0)"
proof -
  have i: "sched_inv C fs rs idle s" "at_rest s" "quantum_ok s"
    "mem_inv C (users fs idle) F K s" "pid_inv fs s" "kb_ok (k_buffer s)" "length (keyboard_vec s) = 128"
    using inv by (simp_all add: kinv_at_def)
  show thesis
  proof (rule quiet_interrupt [OF i(1,2) f])
    fix s0 s'
    assume s': "do { s \<leftarrow> user_to_system (enter_interrupt s); s \<leftarrow> system_to_user (f s);
        Some (drop_words (entry_words s) s) } = Some s'" "sched_inv C fs rs idle s'"
      "rr_abs s' rs = rr_abs s rs" "at_rest s'" "frame_proc s s'" "scr s0 = scr s"
      "k_buffer s0 = k_buffer s" "scr s' = scr (f s0)" "k_buffer s' = k_buffer (f s0)"
    then have "quantum_ok s'" "kb_ok (k_buffer s')"
      using i(3,6) kb [of s0] by (simp_all add: rr_abs_def quantum_ok_def)
    with s' i frame_procD [OF s'(5)] show thesis
      by (intro that [of s' s0]) (simp_all add: kinv_at_def)
  qed
qed

lemma routines_kb_ok:
  "kb_ok (k_buffer s) \<Longrightarrow> kb_ok (k_buffer (before_schedule C s))"
  "kb_ok (k_buffer s) \<Longrightarrow> kb_ok (k_buffer (keyboard_routine c s))"
  using kb_get_abs [of "k_buffer s"] kb_put_ok [of "k_buffer s"]
  by (auto simp: before_schedule_fields keyboard_routine_def split: option.splits prod.splits)

lemma kinv_clock:
  assumes "kinv_at C fs rs idle F K s" and "cfg_ok C"
  obtains s' rs' where "clock_handler C s = Some s'" and "kinv_at C fs rs' idle F K s'"
    and "rr_abs s' rs' = rr_tick (rr_abs s rs)"
  by (rule kinv_timer [OF assms console_only_routines(1) [of C], folded clock_handler_alt])
     (erule routines_kb_ok(1), rule that)

lemma kinv_keyboard:
  assumes "kinv_at C fs rs idle F K s"
  obtains s' where "keyboard_handler c s = Some s'" and "kinv_at C fs rs idle F K s'"
  by (rule kinv_quiet [OF assms console_only_routines(2) [of c], folded keyboard_handler_def])
     (erule routines_kb_ok(2), rule that)

lemma kinv_yield:
  assumes inv: "kinv_at C fs (t # rs) idle F K s" and C: "cfg_ok C"
  obtains s' where "do_syscall C Yield args (sysenter s) = Some s'"
    and "kinv_at C fs (rs @ [current s]) idle F K s'" and "current s' = t"
proof -
  have i: "sched_inv C fs (t # rs) idle s" "stack_room C" "mem_inv C (users fs idle) F K s"
    "pid_inv fs s" "kb_ok (k_buffer s)" "length (keyboard_vec s) = 128"
    using inv C by (simp_all add: kinv_at_def cfg_ok_def)
  show thesis
  proof (rule yield_spec [OF i(1,2), of args])
    fix s'
    assume s': "do_syscall C Yield args (sysenter s) = Some s'"
      "sched_inv C fs (rs @ [current s]) idle s'" "current s' = t"
      "remaining_quantum s' = DEFAULT_QUANTUM" "at_rest s'" "frame_sched s s'"
    have "k_buffer s' = k_buffer s" using s'(6) by (simp add: frame_sched_def)
    with s' i frame_procD [OF frame_sched_proc [OF s'(6)]] show thesis
      by (intro that [of s']) (simp_all add: kinv_at_def quantum_ok_def DEFAULT_QUANTUM_def)
  qed
qed

section \<open>Exit\<close>

text \<open>
  \<open>sys_exit\<close> up to the choice of the next task: the slot is in the free queue, its frames
  are with the allocator.
\<close>

lemma exit_prepares:
  assumes inv: "kinv_at C fs rs idle F K s" and C: "cfg_ok C" and p: "p = current s" "p \<noteq> idle"
    and s1: "esp s1 = (p, k + 7)" "frame_sched s s1" "links s1 = links s" "cr3 s1 = cr3 s"
      "\<And>u. u \<noteq> p \<Longrightarrow> stacks s1 u = stacks s u"
      "\<And>u. state (tasks s1 u) = state (tasks s u)"
      "\<And>u. register_esp (tasks s1 u) = register_esp (tasks s u)"
  obtains s3 where "sys_exit C s1 = sched_next_rr s3" and "task_queues (links s3) (fs @ [p]) rs"
    and "esp s3 = (p, k + 7)" and "idle_task s3 = Some idle" and "stacks s3 = stacks s1"
    and "fmem s3 = fmem s" and "global_PID s3 = global_PID s" and "k_buffer s3 = k_buffer s"
    and "keyboard_vec s3 = keyboard_vec s" and "mem_inv C (users fs idle - {p}) F K s3"
    and "avail s3 = avail s \<union> F p ` {..<NUM_PAG_DATA}"
    and "\<And>u. state (tasks s3 u) = state (tasks s u)" and "\<And>u. register_esp (tasks s3 u) = register_esp (tasks s u)"
    and "\<And>u. dir_pages_baseAddr (tasks s3 u) = dir_pages_baseAddr (tasks s u)"
    and "\<And>u. total_quantum (tasks s3 u) = total_quantum (tasks s u)"
    and "\<And>u. PID (tasks s3 u) = (if u = p then -1 else PID (tasks s u))"
proof -
  have sc: "sched_inv C fs rs idle s" and mem: "mem_inv C (users fs idle) F K s"
    and lay: "game_layout C"
    using inv C by (simp_all add: kinv_at_def cfg_ok_def)
  note i = sched_invD [OF sc]
  have cur1: "current s1 = p" using s1(1) by (simp add: current_def)
  have pU: "p \<in> users fs idle" "p < NR_TASKS" using i(3,4) p by (auto simp: users_def live_def)
  have dirp: "dir_pages_baseAddr (tasks s1 p) = dir_page C p"
    using i(3,4,9) p s1(2) by (auto simp: live_ok_def live_def frame_sched_def)
  have PT: "get_PT p s1 = pagusr_page C p"
    using mem s1(2) pU(2) layout_pages(2) [OF lay pU(2) pU(2)] dirp
    by (simp add: get_PT_def mem_inv_def tables_ok_def frame_sched_def)
  have mem1: "mem_inv C (users fs idle) F K s1"
    using mem s1(2) mem_inv_frame [of s1 s] by (simp add: frame_sched_def)
  define s2 where "s2 = release_data_pages C (pagusr_page C p) NUM_PAG_DATA s1"
  note r = release_process [OF mem1 lay pU(1) users_bound refl, folded s2_def]
  note mm = machine_more [OF r(3)]
  have gm: "tasks s2 = tasks s1" "idle_task s2 = idle_task s1" "global_PID s2 = global_PID s1"
    "k_buffer s2 = k_buffer s1" "keyboard_vec s2 = keyboard_vec s1"
    using r(3) by (cases s1; cases s2; simp)+
  have "task_queues (links s2) fs rs" using i(1) s1(3) mm(3) by simp
  then obtain h where h: "list_add_tail (Some (TaskList p)) (Some Freequeue) (links s2) = Some h"
      "task_queues h (fs @ [p]) rs"
    using free_enq i(4,5) p(1) by metis
  define s3 where "s3 = upd_task p (PID_update (\<lambda>_. -1)) (s2\<lparr>links := h\<rparr>)"
  have cur2: "current s2 = p" using mm(4) s1(1) by (simp add: current_def)
  have "pt s3 = pt s2" "phys_mem s3 = phys_mem s2" by (simp_all add: s3_def upd_task_def)
  with r(1,2) s1(2) have m3: "mem_inv C (users fs idle - {p}) F K s3" "avail s3 = avail s \<union> F p ` {..<NUM_PAG_DATA}"
    using mem_inv_frame [of s3 s2] by (simp_all add: avail_def frame_sched_def)
  show thesis
    by (rule that [of s3])
      (use h(1) h(2) mm gm i(2) s1 m3 in \<open>simp_all add: sys_exit_def cur1 PT s2_def [symmetric] cur2 s3_def [symmetric] frame_sched_def\<close>,
       simp_all add: s3_def upd_task_def)
qed

lemma exit_body:
  assumes inv: "kinv_at C fs rs idle F K s" and C: "cfg_ok C" and p: "p = current s" "p \<noteq> idle"
    and s1: "esp s1 = (p, k + 7)" "frame_sched s s1" "links s1 = links s" "cr3 s1 = cr3 s"
      "\<And>u. u \<noteq> p \<Longrightarrow> stacks s1 u = stacks s u"
      "\<And>u. state (tasks s1 u) = state (tasks s u)"
      "\<And>u. register_esp (tasks s1 u) = register_esp (tasks s u)"
  obtains s' j where "sys_exit C s1 = Some s'" and "sched_inv C (fs @ [p]) (tl rs) idle s'"
    and "mem_inv C (users fs idle - {p}) F K s'"
    and "avail s' = avail s \<union> F p ` {..<NUM_PAG_DATA}" and "current s' = next_task rs idle"
    and "esp s' = (next_task rs idle, j + 2)" and "eip s' = stacks s' (next_task rs idle) (j + 1)"
    and "resume_shape C idle (stacks s' (next_task rs idle)) (next_task rs idle) j"
    and "remaining_quantum s' = DEFAULT_QUANTUM" and "global_PID s' = global_PID s"
    and "\<And>u. PID (tasks s' u) = (if u = p then -1 else PID (tasks s u))"
    and "k_buffer s' = k_buffer s" and "keyboard_vec s' = keyboard_vec s" and "fmem s' = fmem s"
proof -
  note i = sched_invD [OF inv [unfolded kinv_at_def, THEN conjunct1]]
  obtain s3 where s3: "sys_exit C s1 = sched_next_rr s3" "task_queues (links s3) (fs @ [p]) rs"
    "esp s3 = (p, k + 7)" "idle_task s3 = Some idle" "stacks s3 = stacks s1"
    "fmem s3 = fmem s" "global_PID s3 = global_PID s" "k_buffer s3 = k_buffer s"
    "keyboard_vec s3 = keyboard_vec s" "mem_inv C (users fs idle - {p}) F K s3"
    "avail s3 = avail s \<union> F p ` {..<NUM_PAG_DATA}"
    and t3: "\<And>u. state (tasks s3 u) = state (tasks s u)" "\<And>u. register_esp (tasks s3 u) = register_esp (tasks s u)"
    "\<And>u. dir_pages_baseAddr (tasks s3 u) = dir_pages_baseAddr (tasks s u)"
    "\<And>u. total_quantum (tasks s3 u) = total_quantum (tasks s u)"
    "\<And>u. PID (tasks s3 u) = (if u = p then -1 else PID (tasks s u))"
    by (rule exit_prepares [OF inv C p s1(1-4) _ s1(6,7)]) (simp add: s1(5), rule that, assumption+)
  have w3: "waiting_ok C rs idle p s3"
    using i(8) p(1) s1(5) by (auto simp: waiting_ok_def resumable_def t3 s3(5))
  have l3: "live_ok C (fs @ [p]) s3" using i(9) by (auto simp: live_ok_def live_def t3)
  have np: "next_task rs idle \<noteq> p" using i(5) p by (auto simp: next_task_def split: list.splits)
  have cov: "insert idle (set (fs @ [p]) \<union> set rs) = {..<NR_TASKS}" "idle \<notin> set (fs @ [p])"
    using i(3,6) p by auto
  show thesis
  proof (rule switch_inv [OF s3(2,4,3) refl np cov w3 l3])
    fix s' j
    assume s': "sched_next_rr s3 = Some s'" "sched_inv C (fs @ [p]) (tl rs) idle s'"
      "frame_sched s3 s'" "current s' = next_task rs idle" "esp s' = (next_task rs idle, j + 2)"
      "eip s' = stacks s' (next_task rs idle) (j + 1)"
      "resume_shape C idle (stacks s' (next_task rs idle)) (next_task rs idle) j"
      "remaining_quantum s' = DEFAULT_QUANTUM"
    then have "pt s' = pt s3" "phys_mem s' = phys_mem s3" by (simp_all add: frame_sched_def)
    then have "mem_inv C (users fs idle - {p}) F K s'" "avail s' = avail s3"
      using s3(10) mem_inv_frame [of s' s3] by (simp_all add: avail_def)
    then show thesis
      using s' s3 t3 by (intro that [of s' j]) (simp_all add: frame_sched_def)
  qed simp
qed

lemma users_exit: "users (fs @ [p]) idle = users fs idle - {p}"
  by (auto simp: users_def live_def)

lemma pid_inv_exit:
  assumes "pid_inv fs s" and "global_PID s' = global_PID s"
    and "\<And>u. PID (tasks s' u) = (if u = p then -1 else PID (tasks s u))"
  shows "pid_inv (fs @ [p]) s'"
  using assms by (auto simp: pid_inv_def live_def inj_on_def)

lemma kinv_exit:
  assumes inv: "kinv_at C fs rs idle F K s" and C: "cfg_ok C" and p: "p = current s" "p \<noteq> idle"
  obtains s' where "do_syscall C Exit args (sysenter s) = Some s'"
    and "kinv_at C (fs @ [p]) (tl rs) idle F K s'" and "current s' = next_task rs idle"
    and "avail s' = avail s \<union> F p ` {..<NUM_PAG_DATA}" and "PID (tasks s' p) = -1"
proof -
  have sc: "sched_inv C fs rs idle s" and room: "frame_words C ''sys_exit'' \<le> 900"
    and o: "pid_inv fs s" "kb_ok (k_buffer s)" "length (keyboard_vec s) = 128"
    using inv C by (simp_all add: kinv_at_def cfg_ok_def stack_room_def)
  define k where "k = KERNEL_STACK_SIZE - 16 - frame_words C ''sys_exit'' - 8"
  have k: "KERNEL_STACK_SIZE - 16 = frame_words C ''sys_exit'' + k + 8"
    using room by (simp add: k_def KERNEL_STACK_SIZE_def)
  define s1 where "s1 = call_path C ''sys_exit'' (sysenter s)"
  have s1: "s1 = (sysenter s)\<lparr>stacks := (stacks s)(p := (stacks s p)(k + 7 := CodeAddr ''sys_exit'')),
      esp := (p, k + 7)\<rparr>"
    unfolding s1_def using sysenter_at [OF sc] by (subst call_path_at [where k = k]) (simp_all add: k p)
  have f1: "esp s1 = (p, k + 7)" "frame_sched s s1" "links s1 = links s" "cr3 s1 = cr3 s"
    "\<And>u. u \<noteq> p \<Longrightarrow> stacks s1 u = stacks s u" "\<And>u. state (tasks s1 u) = state (tasks s u)"
    "\<And>u. register_esp (tasks s1 u) = register_esp (tasks s u)"
    by (simp_all add: s1 sysenter_def frame_sched_def)
  show thesis
  proof (rule exit_body [OF inv C p f1])
    fix s2 j
    assume s2: "sys_exit C s1 = Some s2" "sched_inv C (fs @ [p]) (tl rs) idle s2"
      "mem_inv C (users fs idle - {p}) F K s2" "avail s2 = avail s \<union> F p ` {..<NUM_PAG_DATA}"
      "current s2 = next_task rs idle" "esp s2 = (next_task rs idle, j + 2)"
      "eip s2 = stacks s2 (next_task rs idle) (j + 1)"
      "resume_shape C idle (stacks s2 (next_task rs idle)) (next_task rs idle) j"
      "remaining_quantum s2 = DEFAULT_QUANTUM" "global_PID s2 = global_PID s"
      "\<And>u. PID (tasks s2 u) = (if u = p then -1 else PID (tasks s u))"
      "k_buffer s2 = k_buffer s" "keyboard_vec s2 = keyboard_vec s"
    obtain s' where s': "return_path C s2 = Some s'" "frame_sched s2 s'" "frame_queue s2 s'"
        "current s' = next_task rs idle" "at_rest s'"
      by (rule return_path_resume [OF sched_invD(2) [OF s2(2)] s2(6-8)])
    have fs: "pt s' = pt s2" "phys_mem s' = phys_mem s2" using s'(2) by (simp_all add: frame_sched_def)
    have "sched_inv C (fs @ [p]) (tl rs) idle s'"
      by (rule sched_inv_frame [OF s2(2) s'(3)]) (use s'(2,4) s2(5) in \<open>auto simp: frame_sched_def\<close>)
    moreover have "pid_inv (fs @ [p]) s'"
      by (rule pid_inv_exit [OF o(1)]) (use s'(2) s2(10,11) in \<open>simp_all add: frame_sched_def\<close>)
    moreover have "mem_inv C (users (fs @ [p]) idle) F K s'"
      using s2(3) mem_inv_frame [OF fs] by (simp add: users_exit)
    ultimately have "kinv_at C (fs @ [p]) (tl rs) idle F K s'"
      using s'(2,3,5) s2(9,12,13) o
      by (simp add: kinv_at_def quantum_ok_def frame_queue_def frame_sched_def DEFAULT_QUANTUM_def)
    moreover have "do_syscall C Exit args (sysenter s) = Some s'"
      using s2(1) s'(1) by (simp add: s1_def)
    moreover have "avail s' = avail s \<union> F p ` {..<NUM_PAG_DATA}" "PID (tasks s' p) = -1"
      using s2(4,11) s'(2) fs(2) by (simp_all add: avail_def frame_sched_def)
    ultimately show thesis using s'(4) that by blast
  qed
qed

section \<open>Fork\<close>

lemma pid_inv_fork:
  assumes "pid_inv (c # fs) s" and "global_PID s < 2 ^ 31 - 1" and "c < NR_TASKS" "c \<notin> set fs"
    and "global_PID s' = c_int (global_PID s + 1)"
    and "\<And>u. PID (tasks s' u) = (if u = c then c_int (global_PID s + 1) else PID (tasks s u))"
  shows "pid_inv fs s'"
proof -
  have g: "c_int (global_PID s + 1) = global_PID s + 1"
    using assms(1,2) by (simp add: pid_inv_def)
  have "live fs = insert c (live (c # fs))" "c \<notin> live (c # fs)" using assms(3,4) by (auto simp: live_def)
  moreover have "PID (tasks s t) \<noteq> global_PID s + 1" if "t \<in> live (c # fs)" for t
    using assms(1) that by (auto simp: pid_inv_def)
  ultimately show ?thesis
    using assms(1,2,4) unfolding pid_inv_def assms(5,6) g
    by (auto simp: inj_on_def)
qed

text \<open>The state in which \<open>sys_fork\<close> runs: called from the handler, with its own frame.\<close>

definition in_fork :: "nat \<Rightarrow> game \<Rightarrow> game" where
  "in_fork p s = s\<lparr>eip := CodeAddr ''kernel'',
     stacks := (stacks s)(p := (stacks s p)(1007 := CodeAddr ''system_call_handler'', 1006 := ebp s)),
     esp := (p, 1006), ebp := StackAddr p 1006\<rparr>"

lemma in_fork_eq:
  assumes "sched_inv C fs rs idle s" and "p = current s"
  shows "movl_esp_ebp (push_reg ebp (push (CodeAddr ''system_call_handler'') (sysenter s))) = in_fork p s"
proof -
  have a: "esp (s\<lparr>esp := (p, 1008), eip := CodeAddr ''kernel''\<rparr>) = (p, Suc 1007)" by simp
  have b: "esp (s\<lparr>eip := CodeAddr ''kernel'', stacks := st, esp := (p, 1007)\<rparr>) = (p, Suc 1006)" for st
    by simp
  show ?thesis
    using sysenter_at [OF assms(1)] assms(2)
    by (simp add: KERNEL_STACK_SIZE_def push_at [OF a] push_reg_def movl_esp_ebp_def in_fork_def)
       (simp add: push_def set_stack_def)
qed

lemma in_fork_inv:
  assumes "sched_inv C fs rs idle s" and "p = current s" and "mem_inv C U F K s"
  shows "sched_inv C fs rs idle (in_fork p s)" and "mem_inv C U F K (in_fork p s)"
proof -
  let ?st = "(stacks s p)(1007 := CodeAddr ''system_call_handler'', 1006 := ebp s)"
  have "sched_inv C fs rs idle (s\<lparr>stacks := (stacks s)(current s := ?st), esp := (p, 1006),
      eip := CodeAddr ''kernel''\<rparr>)"
    by (rule sched_inv_own_stack [OF assms(1)]) (simp add: assms(2))
  then show "sched_inv C fs rs idle (in_fork p s)"
    by (rule sched_inv_frame) (auto simp: in_fork_def frame_queue_def current_def assms(2))
  show "mem_inv C U F K (in_fork p s)"
    using assms(3) mem_inv_frame [of "in_fork p s" s] by (simp add: in_fork_def)
qed

lemma users_fork:
  assumes "c < NR_TASKS" and "c \<notin> set fs" and "c \<noteq> idle"
  shows "users fs idle = insert c (users (c # fs) idle)"
  using assms by (auto simp: users_def live_def)

lemma kinv_fork:
  assumes inv: "kinv_at C (c # fs) rs idle F K s" and C: "cfg_ok C"
    and p: "p = current s" "p \<noteq> idle" and g: "global_PID s < 2 ^ 31 - 1"
  obtains gs s1 s' where "do_syscall C Fork args (sysenter s) = Some s'"
    and "kinv_at C fs (rs @ [c]) idle (F(c := (!) gs)) K s'"
    and "forked C p c 1006 gs (F p) (in_fork p s) s1"
    and "s' = drop_words 18 (s1\<lparr>ebp := ebp s, eax := global_PID s + 1\<rparr>)"
proof -
  have sc: "sched_inv C (c # fs) rs idle s" and mem: "mem_inv C (users (c # fs) idle) F K s"
    and lay: "game_layout C" and o: "pid_inv (c # fs) s" "quantum_ok s" "kb_ok (k_buffer s)"
      "length (keyboard_vec s) = 128"
    using inv C by (simp_all add: kinv_at_def cfg_ok_def)
  note i = sched_invD [OF sc]
  note f = in_fork_inv [OF sc p(1) mem]
  have d: "c \<notin> set fs" "c < NR_TASKS" "c \<noteq> idle" "p \<in> users (c # fs) idle" "c \<notin> users (c # fs) idle"
    using task_queues_distinct [OF i(1)] i(3,4,6) p by (auto simp: users_def live_def)
  have g1: "c_int (global_PID s + 1) = global_PID s + 1" using o(1) g by (simp add: pid_inv_def)
  have b: "p = current (in_fork p s)" "ebp (in_fork p s) = StackAddr p 1006"
    by (simp_all add: in_fork_def current_def)
  obtain gs s1 where s1: "sys_fork C (in_fork p s) = Some (c_int (global_PID (in_fork p s) + 1), s1)"
      "forked C p c 1006 gs (F p) (in_fork p s) s1" "task_queues (links s1) fs (rs @ [c])"
    by (rule fork_spec [OF f(1) lay f(2) users_bound d(4) b])
  have k: "stacks (in_fork p s) p (1006 + 1) = CodeAddr ''system_call_handler''"
    "1006 + 2 + 16 = KERNEL_STACK_SIZE" by (simp_all add: in_fork_def KERNEL_STACK_SIZE_def)
  have sc1: "sched_inv C fs (rs @ [c]) idle s1"
    by (rule forked_sched_inv [OF f(1) s1(2,3) b(1) k])
  have mem1: "mem_inv C (users fs idle) (F(c := (!) gs)) K s1"
    using forked_mem_inv [OF f(2) lay s1(2) users_bound d(4,5,2)] users_fork [OF d(2,1,3)] by simp
  from s1(2) obtain st where
    t1: "tasks s1 = (tasks s)(c := (tasks s p)\<lparr>dir_pages_baseAddr := dir_page C c,
        PID := c_int (global_PID s + 1), register_esp := Some (c, 1005), p_stats := st,
        state := ST_READY\<rparr>)" "global_PID s1 = c_int (global_PID s + 1)"
    and all: "s1 = (in_fork p s)\<lparr>phys_mem := phys_mem s1, pt := pt s1, fmem := fmem s1,
       global_PID := global_PID s1, links := links s1, tsc_pos := tsc_pos s1, stacks := stacks s1,
       tasks := tasks s1\<rparr>"
    unfolding forked_def by (auto simp: in_fork_def)
  have stk: "stacks s1 p 1006 = ebp s"
    using s1(2) d(4,5) by (auto simp: forked_def in_fork_def)
  have e1: "esp s1 = (p, 1006)" "remaining_quantum s1 = remaining_quantum s" "k_buffer s1 = k_buffer s"
    "keyboard_vec s1 = keyboard_vec s"
    by (subst all, simp add: in_fork_def)+
  define s' where "s' = drop_words 18 (s1\<lparr>ebp := ebp s, eax := global_PID s + 1\<rparr>)"
  have "do_syscall C Fork args (sysenter s) = Some s'"
    using s1(1) e1(1) stk g1
    by (simp add: call_sys_fork_def in_fork_eq [OF sc p(1)] sysexit_def s'_def drop_words_def
        pop_ebp_def top_def) (simp add: in_fork_def)
  moreover have "sched_inv C fs (rs @ [c]) idle s'"
    by (rule sched_inv_frame [OF sc1]) (auto simp: s'_def drop_words_def frame_queue_def current_def)
  moreover have "mem_inv C (users fs idle) (F(c := (!) gs)) K s'"
    using mem1 mem_inv_frame [of s' s1] by (simp add: s'_def drop_words_def)
  moreover have "pid_inv fs s'"
    by (rule pid_inv_fork [OF o(1) g d(2,1)]) (simp_all add: s'_def drop_words_def t1)
  moreover have "at_rest s'" "quantum_ok s'" "kb_ok (k_buffer s')" "length (keyboard_vec s') = 128"
    using o e1 by (simp_all add: s'_def at_rest_def drop_words_def KERNEL_STACK_SIZE_def quantum_ok_def)
  ultimately show thesis using that s1(2) s'_def by (simp add: kinv_at_def)
qed

end
