(* ===== verification/Game_Steps.thy ===== *)
theory Game_Steps
  imports Game_Reach
begin

text \<open>
  The step relation of the \<^verbatim>\<open>GAME\<close> kernel and its invariant by rule induction. A step is one
  entry into the kernel, up to the return to a user program or to the idle loop.
\<close>

inductive kstep :: "kcfg \<Rightarrow> game \<Rightarrow> game \<Rightarrow> bool" for C where
  clock: "clock_handler C s = Some s' \<Longrightarrow> kstep C s s'"
| keyboard: "keyboard_handler c s = Some s' \<Longrightarrow> kstep C s s'"
| syscall: "\<not> in_idle s \<Longrightarrow> system_call_handler C n args s = Some s' \<Longrightarrow>
    (n = 13 \<longrightarrow> list_empty (Some Readyqueue) (links s) = Some False) \<Longrightarrow>
    (n = 2 \<longrightarrow> global_PID s < 2 ^ 31 - 1) \<Longrightarrow> kstep C s s'"

inductive kreach :: "kcfg \<Rightarrow> game \<Rightarrow> game \<Rightarrow> bool" for C where
  start: "kreach C s s"
| step: "kreach C s s' \<Longrightarrow> kstep C s' s'' \<Longrightarrow> kreach C s s''"

inductive_cases kstepE: "kstep C s s'"

section \<open>The dispatcher\<close>

lemma length_sys_call_table: "length sys_call_table = 36"
  by (simp add: sys_call_table_def)

lemma sys_call_table_entries:
  "i < 36 \<Longrightarrow> sys_call_table ! i \<in> {Exit, Fork, Yield} \<Longrightarrow>
     (i = 1 \<and> sys_call_table ! i = Exit) \<or> (i = 2 \<and> sys_call_table ! i = Fork) \<or>
     (i = 13 \<and> sys_call_table ! i = Yield)"
  by (auto simp: sys_call_table_def nth_list_update split: if_splits)

lemma sys_call_table_1 [simp]: "sys_call_table ! 1 = Exit" "sys_call_table ! Suc 0 = Exit"
  "sys_call_table ! 2 = Fork" "sys_call_table ! 13 = Yield" "sys_call_table ! 4 = Write"
  "sys_call_table ! 5 = PollEvent" "sys_call_table ! 10 = Gettime" "sys_call_table ! 20 = Getpid"
  "sys_call_table ! 35 = GetStats"
  by (simp_all add: sys_call_table_def)

lemma sysexit_Some:
  "sysexit r = Some s' \<longleftrightarrow> (\<exists>v s. r = Some (v, s) \<and> s' = drop_words 16 (s\<lparr>eax := v\<rparr>))"
  by (auto simp: sysexit_def)

lemma do_syscall_benign:
  assumes "do_syscall C call args s = Some s'" and "call \<notin> {Exit, Fork, Yield}"
  shows "\<exists>v s1. benign s s1 \<and> s' = drop_words 16 (s1\<lparr>eax := v\<rparr>)"
proof -
  obtain a b c where args: "args = (a, b, c)" by (cases args)
  have "\<exists>r. sysexit r = Some s' \<and> (\<forall>v s1. r = Some (v, s1) \<longrightarrow> benign s s1)"
    using assms sys_write_benign sys_pollEvent_benign sys_get_stats_benign
    by (cases call; simp add: args; blast?; fastforce)
  then show ?thesis by (auto simp: sysexit_Some)
qed

lemma kinvI: "kinv_at C fs rs idle F K s \<Longrightarrow> kinv C s"
  unfolding kinv_def by blast

text \<open>With no free slot \<open>sys_fork\<close> fails and changes nothing but its own stack frame.\<close>

lemma kinv_fork_full:
  assumes inv: "kinv_at C [] rs idle F K s"
  shows "do_syscall C Fork args (sysenter s) =
      Some (drop_words 18 ((in_fork (current s) s)\<lparr>ebp := ebp s, eax := - ENOMEM\<rparr>))"
    and "kinv_at C [] rs idle F K
      (drop_words 18 ((in_fork (current s) s)\<lparr>ebp := ebp s, eax := - ENOMEM\<rparr>))"
proof -
  have sc: "sched_inv C [] rs idle s" and mem: "mem_inv C (users [] idle) F K s"
    and o: "pid_inv [] s" "quantum_ok s" "kb_ok (k_buffer s)" "length (keyboard_vec s) = 128"
    using inv by (simp_all add: kinv_at_def)
  let ?f = "in_fork (current s) s"
  let ?s = "drop_words 18 (?f\<lparr>ebp := ebp s, eax := - ENOMEM\<rparr>)"
  have "sys_fork C ?f = Some (- ENOMEM, ?f)"
    using free_empty [OF sched_invD(1) [OF sc]] by (simp add: sys_fork_def in_fork_def)
  then show "do_syscall C Fork args (sysenter s) = Some ?s"
    by (simp add: call_sys_fork_def in_fork_eq [OF sc refl] sysexit_def pop_ebp_def top_def
        drop_words_def) (simp add: in_fork_def)
  note f = in_fork_inv [OF sc refl mem]
  have "sched_inv C [] rs idle ?s"
    by (rule sched_inv_frame [OF f(1)]) (auto simp: drop_words_def frame_queue_def current_def)
  moreover have "mem_inv C (users [] idle) F K ?s"
    using f(2) mem_inv_frame [of ?s ?f] by (simp add: drop_words_def)
  ultimately show "kinv_at C [] rs idle F K ?s"
    using o by (simp add: kinv_at_def at_rest_def drop_words_def in_fork_def pid_inv_def
        quantum_ok_def KERNEL_STACK_SIZE_def)
qed

lemma kinv_syscall:
  assumes inv: "kinv_at C fs rs idle F K s" and C: "cfg_ok C" and user: "current s \<noteq> idle"
    and step: "do_syscall C call args (sysenter s) = Some s'"
    and yield: "call = Yield \<Longrightarrow> rs \<noteq> []" and fork: "call = Fork \<Longrightarrow> global_PID s < 2 ^ 31 - 1"
  shows "kinv C s'"
proof -
  consider (benign) "call \<notin> {Exit, Fork, Yield}" | (exit) "call = Exit" | (fork) "call = Fork"
    | (yield) "call = Yield" by auto
  then show ?thesis
  proof cases
    case benign
    then show ?thesis
      using do_syscall_benign [OF step] kinv_sysexit [OF inv] kinvI by metis
  next
    case exit
    show ?thesis
      by (rule kinv_exit [OF inv C refl user, of args]) (use step exit in \<open>auto intro: kinvI\<close>)
  next
    case yield
    with assms(5) obtain t rs' where rs: "rs = t # rs'" by (cases rs) auto
    show ?thesis
      by (rule kinv_yield [OF inv [unfolded rs] C, of args]) (use step yield in \<open>auto intro: kinvI\<close>)
  next
    case fork
    show ?thesis
    proof (cases fs)
      case (Cons c fs')
      show ?thesis
        by (rule kinv_fork [OF inv [unfolded Cons] C refl user assms(6) [OF fork], of args])
           (use step fork in \<open>auto intro: kinvI\<close>)
    next
      case Nil
      show ?thesis
        using kinv_fork_full [OF inv [unfolded Nil]] step fork by (auto intro: kinvI)
    qed
  qed
qed

section \<open>Every step keeps the invariant\<close>

lemma handler_cases:
  assumes "system_call_handler C n args s = Some s'"
  shows "s' = drop_words 16 ((sysenter s)\<lparr>eax := - ENOSYS\<rparr>) \<or>
    (0 \<le> n \<and> n < 36 \<and> do_syscall C (sys_call_table ! nat n) args (sysenter s) = Some s')"
  using assms
  by (auto simp: system_call_handler_def Let_def sysexit_def length_sys_call_table split: if_splits)

lemma kinv_step:
  assumes C: "cfg_ok C" and "kinv C s" and "kstep C s s'"
  shows "kinv C s'"
proof -
  obtain fs rs idle F K where inv: "kinv_at C fs rs idle F K s" using assms(2) by (auto simp: kinv_def)
  then have sc: "sched_inv C fs rs idle s" by (simp add: kinv_at_def)
  from assms(3) show ?thesis
  proof (cases rule: kstep.cases)
    case clock
    then show ?thesis by (rule_tac kinv_clock [OF inv C]) (auto intro: kinvI)
  next
    case (keyboard c)
    then show ?thesis by (rule_tac kinv_keyboard [OF inv, of c]) (auto intro: kinvI)
  next
    case (syscall n args)
    have user: "current s \<noteq> idle" using syscall(1) sched_invD(2) [OF sc] by (auto simp: in_idle_def)
    have ready: "n = 13 \<Longrightarrow> rs \<noteq> []" using syscall(3) ready_empty [OF sched_invD(1) [OF sc]] by auto
    from handler_cases [OF syscall(2)] show ?thesis
    proof (elim disjE conjE)
      assume "s' = drop_words 16 ((sysenter s)\<lparr>eax := - ENOSYS\<rparr>)"
      then show ?thesis using kinv_sysexit [OF inv benign_refl] by (auto intro: kinvI)
    next
      assume n: "0 \<le> n" "n < 36" "do_syscall C (sys_call_table ! nat n) args (sysenter s) = Some s'"
      have "nat n = 13" if "sys_call_table ! nat n = Yield"
        using sys_call_table_entries [of "nat n"] n that by auto
      moreover have "nat n = 2" if "sys_call_table ! nat n = Fork"
        using sys_call_table_entries [of "nat n"] n that by auto
      ultimately show ?thesis
        using n syscall(4) ready by (intro kinv_syscall [OF inv C user n(3)]) auto
    qed
  qed
qed

lemma kinv_reach:
  assumes "cfg_ok C" and "kreach C s s'" and "kinv C s"
  shows "kinv C s'"
  using assms(2,3) by (induction rule: kreach.induct) (auto intro: kinv_step [OF assms(1)])

end
