(* ===== verification/Game_User.thy ===== *)
theory Game_User
  imports Game_Steps
begin

text \<open>
  User memory in the \<^verbatim>\<open>GAME\<close> kernel: under the invariant every address of the 28 user pages
  is mapped, to a frame no other user page of the process uses, so the system calls that
  read or write user memory neither fault nor touch anything else. What they do outside
  that range is stated too.
\<close>

section \<open>User pages are mapped\<close>

lemma space_translated:
  assumes mem: "mem_inv C U F K s" and lay: "game_layout C"
    and t: "t \<in> U" "t < NR_TASKS" and p: "256 \<le> p" "p < 284"
  shows "translate (set_cr3 (dir_page C t) s) p =
    Some (of_nat (if p < 264 then K (p - 256) else F t (p - 264)))"
proof -
  have part: "frames_partition U F K s" and tab: "tables_ok C U F K s"
    using mem by (simp_all add: mem_inv_def)
  have d: "pt s (dir_page C t) 0 = user_entry (pagusr_page C t)"
    using tab t by (simp add: tables_ok_def)
  show ?thesis
  proof (cases "p < 264")
    case True
    then obtain i where "p = 256 + i" "i < NUM_PAG_CODE"
      using p(1) by (auto simp: le_iff_add mm_consts)
    with tab t d p layout_pages(2) [OF lay t(2) t(2)] True show ?thesis
      by (simp add: translate_def tables_ok_def get_frame_def set_cr3_def)
  next
    case False
    define i where "i = p - 264"
    with False p have i: "p = 264 + i" "i < NUM_PAG_DATA" by (simp_all add: NUM_PAG_DATA_def)
    have "F t i < TOTAL_PAGES"
      using ownedI [OF t(1) i(2), of F] owned_freeable(1) [OF part] freeable_bound by blast
    with tab t d p layout_pages(2) [OF lay t(2) t(2)] False i show ?thesis
      by (simp add: translate_def tables_ok_def set_cr3_def)
  qed
qed

lemma user_page_translated:
  assumes inv: "sched_inv C fs rs idle s" and mem: "mem_inv C U F K s" and lay: "game_layout C"
    and u: "current s \<in> U" and p: "256 \<le> p" "p < 284"
  shows "translate s p = Some (of_nat (if p < 264 then K (p - 256) else F (current s) (p - 264)))"
proof -
  have c: "current s < NR_TASKS" using sched_invD(3) [OF inv] by auto
  have "translate s p = translate (set_cr3 (dir_page C (current s)) s) p"
    using sched_invD(12) [OF inv] by (simp add: translate_def set_cr3_def)
  then show ?thesis using space_translated [OF mem lay u c p] by simp
qed

definition user_range :: "DWord \<Rightarrow> nat \<Rightarrow> bool" where
  "user_range a n \<longleftrightarrow> 256 * PAGE_SIZE \<le> unat a \<and> unat a + n \<le> 284 * PAGE_SIZE"

definition user_frame :: "(nat \<Rightarrow> nat \<Rightarrow> nat) \<Rightarrow> (nat \<Rightarrow> nat) \<Rightarrow> nat \<Rightarrow> nat \<Rightarrow> nat" where
  "user_frame F K t p = (if p < 264 then K (p - 256) else F t (p - 264))"

lemma user_range_addr:
  assumes "user_range a n" and "i < n"
  shows "unat (a + of_nat i) = unat a + i" and "256 \<le> unat (a + of_nat i) div PAGE_SIZE"
    and "unat (a + of_nat i) div PAGE_SIZE < 284"
proof -
  show u: "unat (a + of_nat i) = unat a + i"
    using assms by (intro unat_offset) (simp add: user_range_def PAGE_SIZE_def)
  have "256 * 4096 \<le> unat a + i" "unat a + i < 284 * 4096"
    using assms by (simp_all add: user_range_def PAGE_SIZE_def)
  then show "256 \<le> unat (a + of_nat i) div PAGE_SIZE" "unat (a + of_nat i) div PAGE_SIZE < 284"
    unfolding u PAGE_SIZE_def by simp_all
qed

lemma user_frame_inj:
  assumes part: "frames_partition U F K s" and t: "t \<in> U"
    and p: "256 \<le> p" "p < 284" "256 \<le> q" "q < 284" and eq: "user_frame F K t p = user_frame F K t q"
  shows "p = q"
proof -
  have K: "inj_on K {..<NUM_PAG_CODE}" and F: "inj_on (\<lambda>(t, i). F t i) (U \<times> {..<NUM_PAG_DATA})"
    and d: "owned F U \<inter> K ` {..<NUM_PAG_CODE} = {}" using part by (simp_all add: frames_partition_def)
  have o: "F t (r - 264) \<in> owned F U" if "264 \<le> r" "r < 284" for r
    using t that by (intro ownedI) (simp_all add: NUM_PAG_DATA_def)
  have k: "K (r - 256) \<in> K ` {..<NUM_PAG_CODE}" if "256 \<le> r" "r < 264" for r
    using that by (simp add: NUM_PAG_CODE_def)
  consider "p < 264" "q < 264" | "264 \<le> p" "264 \<le> q" | "p < 264" "264 \<le> q" | "264 \<le> p" "q < 264"
    by linarith
  then show ?thesis
  proof cases
    case 1
    then have "p - 256 = q - 256"
      using eq p by (rule_tac inj_onD [OF K]) (simp_all add: user_frame_def NUM_PAG_CODE_def)
    with p show ?thesis by simp
  next
    case 2
    then have "(t, p - 264) = (t, q - 264)"
      using eq p t by (rule_tac inj_onD [OF F]) (simp_all add: user_frame_def NUM_PAG_DATA_def)
    with 2 show ?thesis by simp
  next
    case 3
    then have "user_frame F K t p \<in> K ` {..<NUM_PAG_CODE}" "user_frame F K t q \<in> owned F U"
      using k [of p] o [of q] p by (simp_all add: user_frame_def)
    with eq d show ?thesis by auto
  next
    case 4
    then have "user_frame F K t q \<in> K ` {..<NUM_PAG_CODE}" "user_frame F K t p \<in> owned F U"
      using k [of q] o [of p] p by (simp_all add: user_frame_def)
    with eq d show ?thesis by auto
  qed
qed

lemma user_frame_bound:
  assumes part: "frames_partition U F K s" and t: "t \<in> U" and p: "256 \<le> p" "p < 284"
  shows "user_frame F K t p < TOTAL_PAGES"
proof (cases "p < 264")
  case True
  then have "K (p - 256) \<in> even_frames"
    using part p by (auto simp: frames_partition_def NUM_PAG_CODE_def)
  then show ?thesis using True by (simp add: user_frame_def even_frames_def)
next
  case False
  then have "F t (p - 264) \<in> owned F U" using t p by (intro ownedI) (simp_all add: NUM_PAG_DATA_def)
  then show ?thesis
    using False owned_freeable(1) [OF part] freeable_bound by (auto simp: user_frame_def)
qed

section \<open>Writing to user memory\<close>

definition user_addr :: "DWord \<Rightarrow> bool" where
  "user_addr x \<longleftrightarrow> 256 * PAGE_SIZE \<le> unat x \<and> unat x < 284 * PAGE_SIZE"

lemma user_addr_page:
  assumes "user_addr x"
  shows "256 \<le> unat x div PAGE_SIZE" and "unat x div PAGE_SIZE < 284"
  using assms unfolding user_addr_def PAGE_SIZE_def by auto

text \<open>Under the invariant, a copy to a user buffer writes the buffer and no other user byte.\<close>

text \<open>A user address is at one place of one frame, and no two are at the same place.\<close>

lemma user_cell_inj:
  assumes part: "frames_partition U F K s" and t: "t \<in> U" and x: "user_addr x" and y: "user_addr y"
    and eq: "(of_nat (user_frame F K t (unat x div PAGE_SIZE)) :: DWord) = of_nat (user_frame F K t (unat y div PAGE_SIZE))"
      "unat x mod PAGE_SIZE = unat y mod PAGE_SIZE"
  shows "x = y"
proof -
  note px = user_addr_page [OF x] and py = user_addr_page [OF y]
  have "user_frame F K t (unat x div PAGE_SIZE) = user_frame F K t (unat y div PAGE_SIZE)"
    using unat_frame [OF user_frame_bound [OF part t px]] unat_frame [OF user_frame_bound [OF part t py]] eq(1) by metis
  then have "unat x div PAGE_SIZE = unat y div PAGE_SIZE" by (rule user_frame_inj [OF part t px py])
  with eq(2) show ?thesis by (metis div_mod_decomp word_unat_eq_iff)
qed

lemma copy_out_user:
  assumes inv: "kinv_at C fs rs idle F K s" and C: "cfg_ok C" and u: "current s \<noteq> idle"
    and s1: "pt s1 = pt s" "cr3 s1 = cr3 s" and r: "user_range a (length bs)"
  obtains s' where "copy_out a bs s1 = Some s'" and "s' = s1\<lparr>fmem := fmem s'\<rparr>"
    and "\<And>x. user_addr x \<Longrightarrow> lin s' x =
      (if unat a \<le> unat x \<and> unat x < unat a + length bs then bs ! (unat x - unat a) else lin s1 x)"
proof -
  have sc: "sched_inv C fs rs idle s" and mem: "mem_inv C (users fs idle) F K s" and lay: "game_layout C"
    and part: "frames_partition (users fs idle) F K s"
    using inv C by (simp_all add: kinv_at_def cfg_ok_def mem_inv_def)
  let ?t = "current s"
  have tU: "?t \<in> users fs idle" using u sched_invD(3,4) [OF sc] by (auto simp: users_def live_def)
  have tr: "translate s1 p = Some (of_nat (user_frame F K ?t p))" if "256 \<le> p" "p < 284" for p
    using user_page_translated [OF sc mem lay tU that] s1 by (simp add: translate_def user_frame_def)
  let ?pg = "\<lambda>i. unat (a + of_nat i) div PAGE_SIZE"
  let ?at = "\<lambda>i. (of_nat (user_frame F K ?t (?pg i)) :: DWord, unat (a + of_nat i) mod PAGE_SIZE)"
  note ra = user_range_addr [OF r]
  have ua: "user_addr (a + of_nat i)" if "i < length bs" for i
    using ra(1) [OF that] r that by (simp add: user_addr_def user_range_def)
  have at: "unat x = unat a + i" if "user_addr x" "i < length bs"
      "(of_nat (user_frame F K ?t (unat x div PAGE_SIZE)) :: DWord, unat x mod PAGE_SIZE) = ?at i" for x i
    using user_cell_inj [OF part tU that(1) ua [OF that(2)]] that(3) ra(1) [OF that(2)] by simp
  have "inj_on ?at {..<length bs}"
    using at ua ra(1) by (intro inj_onI) (metis add_left_cancel lessThan_iff)
  with copy_out_writes [of bs s1 a "\<lambda>i. of_nat (user_frame F K ?t (?pg i))"] tr ra obtain s' where
    s': "copy_out a bs s1 = Some s'" "s' = s1\<lparr>fmem := fmem s'\<rparr>"
      "\<And>i. i < length bs \<Longrightarrow> fmem s' (fst (?at i)) (snd (?at i)) = bs ! i"
      "\<And>f k. (f, k) \<notin> ?at ` {..<length bs} \<Longrightarrow> fmem s' f k = fmem s1 f k"
    by (auto simp: image_iff)
  have tr': "translate s' = translate s1" by (subst s'(2)) (simp add: translate_def fun_eq_iff)
  show thesis
  proof (rule that [OF s'(1,2)])
    fix x assume x: "user_addr x"
    let ?f = "of_nat (user_frame F K ?t (unat x div PAGE_SIZE)) :: DWord"
    note px = tr [OF user_addr_page [OF x]]
    show "lin s' x =
      (if unat a \<le> unat x \<and> unat x < unat a + length bs then bs ! (unat x - unat a) else lin s1 x)"
    proof (cases "unat a \<le> unat x \<and> unat x < unat a + length bs")
      case True
      let ?i = "unat x - unat a"
      have i: "?i < length bs" using True by linarith
      have "unat (a + of_nat ?i) = unat x" using ra(1) [OF i] True by simp
      then show ?thesis using True s'(3) [OF i] px by (simp add: lin_def tr')
    next
      case False
      then have "(?f, unat x mod PAGE_SIZE) \<notin> ?at ` {..<length bs}" using at [OF x] by fastforce
      then have "lin s' x = lin s1 x" using s'(4) px by (simp add: lin_def tr')
      with False show ?thesis by auto
    qed
  qed
qed

section \<open>Writing from user memory to the console\<close>

lemma write_chunks_readable:
  assumes "readable a n s"
  shows "\<exists>k\<le>n. n - k \<le> 512 \<and> write_chunks a (int n) s =
    Some (a + of_nat k, int (n - k), s\<lparr>scr := fold printc (out_bytes (lin s) a k) (scr s)\<rparr>)"
  using assms
proof (induction n arbitrary: a s rule: less_induct)
  case (less n)
  show ?case
  proof (cases "512 < n")
    case False
    then show ?thesis
      by (intro exI [of _ 0]) (simp add: write_chunks.simps [of a] TAM_BUFFER_def out_bytes_def)
  next
    case True
    then obtain n' where n: "n = 512 + n'" by (metis less_imp_add_positive)
    have r: "readable a 512 s" "readable (a + 512) n' s"
      using less.prems readable_add [of a 512 n' s] unfolding n by simp_all
    let ?s = "s\<lparr>scr := fold printc (out_bytes (lin s) a 512) (scr s)\<rparr>"
    have "n' < n" "readable (a + 512) n' ?s" using r(2) by (simp_all add: n)
    from less.IH [OF this] obtain k where k: "k \<le> n'" "n' - k \<le> 512"
      "write_chunks (a + 512) (int n') ?s = Some (a + 512 + of_nat k, int (n' - k),
         ?s\<lparr>scr := fold printc (out_bytes (lin s) (a + 512) k) (scr ?s)\<rparr>)"
      unfolding lin_scr by blast
    have "write_chunks a (int n) s = write_chunks (a + 512) (int n') ?s"
      using True r(1) console_out [of "lin s" a 512 "scr s"]
      by (simp add: write_chunks.simps [of a] TAM_BUFFER_def copy_in_def n)
    also have "\<dots> = Some (a + of_nat (512 + k), int (n - (512 + k)),
         s\<lparr>scr := fold printc (out_bytes (lin s) a (512 + k)) (scr s)\<rparr>)"
      using k(3) out_bytes_split [of "lin s" a 512 k] by (simp add: add.assoc n del: of_nat_diff)
    finally show ?thesis using k(1,2) by (intro exI [of _ "512 + k"]) (simp add: n)
  qed
qed

lemma sys_write_readable:
  assumes "readable a n s" and "access_ok VERIFY_READ a (of_nat n) \<noteq> 0"
  shows "sys_write 1 a (int n) s =
    Some (int n, s\<lparr>scr := fold printc (out_bytes (lin s) a n) (scr s)\<rparr>)"
proof -
  obtain k where k: "k \<le> n" "write_chunks a (int n) s =
      Some (a + of_nat k, int (n - k), s\<lparr>scr := fold printc (out_bytes (lin s) a k) (scr s)\<rparr>)"
    using write_chunks_readable [OF assms(1)] by blast
  have r: "readable (a + of_nat k) (n - k) s"
    using assms(1) readable_add [of a k "n - k" s] k(1) by simp
  have out: "out_bytes (lin s) a n = out_bytes (lin s) a k @ out_bytes (lin s) (a + of_nat k) (n - k)"
    using out_bytes_split [of "lin s" a k "n - k"] k(1) by simp
  show ?thesis
  proof (cases "k < n")
    case True
    then have "nat (int n - int k) = n - k" by simp
    then show ?thesis
      using True assms(2) r console_out [of "lin s" "a + of_nat k" "n - k"] k
      by (simp add: sys_write_def check_fd_def ESCRIPTURA_def copy_in_def out)
  next
    case False
    then show ?thesis
      using assms(2) k by (simp add: sys_write_def check_fd_def ESCRIPTURA_def)
  qed
qed

end
