(* ===== verification/Game_Boot.thy ===== *)
theory Game_Boot
  imports Game_User
begin

text \<open>
  The boot sequence of \<^verbatim>\<open>GAME\<close> establishes the invariant: after \<open>main\<close>, process 1 runs with
  its own code and data pages, the idle task waits in \<open>cpu_idle\<close> and the other eight slots
  are free. Together with the step relation this gives the invariant in every reachable
  state.
\<close>

section \<open>Initialising the queues\<close>

lemma nodes_one: "nodes [Freequeue \<mapsto> map TaskList fs] = insert Freequeue (TaskList ` set fs)"
  unfolding nodes_def by (auto split: if_splits)

lemma init_freequeue_from_spec:
  assumes "queues dll (links s) [Freequeue \<mapsto> map TaskList ts]" and "distinct (ts @ is)"
  shows "\<exists>s'. init_freequeue_from is s = Some s' \<and>
    queues dll (links s') [Freequeue \<mapsto> map TaskList (ts @ is)] \<and>
    s' = s\<lparr>links := links s', tasks := tasks s'\<rparr> \<and>
    (\<forall>t. register_esp (tasks s' t) = register_esp (tasks s t)) \<and>
    (\<forall>t. PID (tasks s' t) = (if t \<in> set is then -1 else PID (tasks s t)))"
  using assms
proof (induction "is" arbitrary: s ts)
  case (Cons i "is")
  let ?A = "[Freequeue \<mapsto> map TaskList ts]"
  have "?A Freequeue = Some (map TaskList ts)" "TaskList i \<notin> nodes ?A"
    using Cons.prems(2) by (auto simp: nodes_one)
  from lq.queues_enq [OF Cons.prems(1) this] obtain h where
    h: "list_add_tail (Some (TaskList i)) (Some Freequeue) (links s) = Some h"
      "queues dll h (?A(Freequeue \<mapsto> map TaskList ts @ [TaskList i]))" by blast
  let ?s = "(upd_task i (PID_update (\<lambda>_. -1)) s)\<lparr>links := h\<rparr>"
  have "\<exists>s'. init_freequeue_from is ?s = Some s' \<and>
      queues dll (links s') [Freequeue \<mapsto> map TaskList ((ts @ [i]) @ is)] \<and>
      s' = ?s\<lparr>links := links s', tasks := tasks s'\<rparr> \<and>
      (\<forall>t. register_esp (tasks s' t) = register_esp (tasks ?s t)) \<and>
      (\<forall>t. PID (tasks s' t) = (if t \<in> set is then -1 else PID (tasks ?s t)))"
  proof (rule Cons.IH)
    show "queues dll (links ?s) [Freequeue \<mapsto> map TaskList (ts @ [i])]" using h(2) by simp
    show "distinct ((ts @ [i]) @ is)" using Cons.prems(2) by auto
  qed
  then obtain s' where "init_freequeue_from is ?s = Some s'"
      "queues dll (links s') [Freequeue \<mapsto> map TaskList (ts @ i # is)]"
      "s' = ?s\<lparr>links := links s', tasks := tasks s'\<rparr>"
      "\<forall>t. register_esp (tasks s' t) = register_esp (tasks s t)"
      "\<forall>t. PID (tasks s' t) = (if t \<in> set (i # is) then -1 else PID (tasks s t))" by (auto simp: upd_task_def)
  moreover from this(3) have "s' = s\<lparr>links := links s', tasks := tasks s'\<rparr>"
    by (cases s; cases s'; simp add: upd_task_def)
  moreover from calculation(1) h(1) have "init_freequeue_from (i # is) s = Some s'"
    by (simp add: upd_task_def)
  ultimately show ?case by blast
qed (auto intro!: exI)

lemma init_sched_spec:
  obtains s' where "init_sched s = Some s'" and "task_queues (links s') [0..<NR_TASKS] []"
    and "s' = s\<lparr>links := links s', tasks := tasks s'\<rparr>"
    and "\<And>t. register_esp (tasks s' t) = register_esp (tasks s t)"
    and "\<And>t. t < NR_TASKS \<Longrightarrow> PID (tasks s' t) = -1"
proof -
  have q0: "queues dll (links s) Map.empty" by (simp add: queues_def)
  then obtain h where h: "INIT_LIST_HEAD (Some Freequeue) (links s) = Some h"
      "queues dll h [Freequeue \<mapsto> []]"
    using lq.queues_init [OF q0, of Freequeue] by (auto simp: nodes_def)
  have "\<exists>s'. init_freequeue_from [0..<NR_TASKS] (s\<lparr>links := h\<rparr>) = Some s' \<and>
      queues dll (links s') [Freequeue \<mapsto> map TaskList ([] @ [0..<NR_TASKS])] \<and>
      s' = s\<lparr>links := h\<rparr>\<lparr>links := links s', tasks := tasks s'\<rparr> \<and>
      (\<forall>t. register_esp (tasks s' t) = register_esp (tasks (s\<lparr>links := h\<rparr>) t)) \<and>
      (\<forall>t. PID (tasks s' t) = (if t \<in> set [0..<NR_TASKS] then -1 else PID (tasks (s\<lparr>links := h\<rparr>) t)))"
    by (rule init_freequeue_from_spec) (use h(2) in auto)
  then obtain s1 where s1: "init_freequeue s = Some s1"
      "queues dll (links s1) [Freequeue \<mapsto> map TaskList [0..<NR_TASKS]]"
      "s1 = s\<lparr>links := links s1, tasks := tasks s1\<rparr>"
      "\<And>t. register_esp (tasks s1 t) = register_esp (tasks s t)"
      "\<And>t. t < NR_TASKS \<Longrightarrow> PID (tasks s1 t) = -1"
    using h(1) by (auto simp: init_freequeue_def)
  have "Readyqueue \<notin> nodes [Freequeue \<mapsto> map TaskList [0..<NR_TASKS]]" by (simp add: nodes_one image_iff)
  from lq.queues_init [OF s1(2) this] obtain h' where
    h': "INIT_LIST_HEAD (Some Readyqueue) (links s1) = Some h'"
      "queues dll h' [Freequeue \<mapsto> map TaskList [0..<NR_TASKS], Readyqueue \<mapsto> []]" by blast
  show thesis
  proof (rule that [of "s1\<lparr>links := h'\<rparr>"])
    show "init_sched s = Some (s1\<lparr>links := h'\<rparr>)" using s1(1) h'(1) by (simp add: init_sched_def)
    show "task_queues (links (s1\<lparr>links := h'\<rparr>)) [0..<NR_TASKS] []" using h'(2) by (simp add: task_queues_def)
    show "s1\<lparr>links := h'\<rparr> = s\<lparr>links := links (s1\<lparr>links := h'\<rparr>), tasks := tasks (s1\<lparr>links := h'\<rparr>)\<rparr>"
      using s1(3) by (cases s; cases s1; simp)
    show "register_esp (tasks (s1\<lparr>links := h'\<rparr>) t) = register_esp (tasks s t)" for t
      using s1(4) by simp
    show "PID (tasks (s1\<lparr>links := h'\<rparr>) t) = -1" if "t < NR_TASKS" for t using s1(5) [OF that] by simp
  qed
qed

section \<open>Building the user pages of process 1\<close>

definition page_entry :: "DWord \<Rightarrow> DWord \<Rightarrow> page_table_entry" where
  "page_entry rw frame = set_present 1 (if rw = 1 then set_rw 1 (set_user 1 (set_pbase_addr frame 0))
     else set_user 1 (set_pbase_addr frame 0))"

lemma page_entry_fields [simp]:
  "pte_present (page_entry rw f) = 1" "pte_pbase_addr (page_entry rw f) = take_bit 20 f"
  "page_entry 1 f = user_entry f"
  by (simp_all add: page_entry_def user_entry_def)

lemma set_user_page_takes:
  assumes "frames_ok m" and "avail m \<noteq> {}"
  obtains f m1 where "set_user_page rw PT page m = m1" and "f \<in> avail m" and "\<forall>j\<in>avail m. f \<le> j"
    and "frames_ok m1" and "avail m1 = avail m - {f}"
    and "\<And>q j. pt m1 q j = (if q = PT \<and> j = page then page_entry rw (of_nat f) else pt m q j)"
    and "mm_state.more m1 = mm_state.more m" and "cr3 m1 = cr3 m" and "cr0 m1 = cr0 m"
proof -
  obtain r m' where a: "alloc_frame m = (r, m')" by (cases "alloc_frame m")
  then show thesis
  proof (cases rule: alloc_frame_cases)
    case (frame f)
    have ok: "frames_ok m'" using frames_ok_alloc [OF a assms(1)] .
    show thesis
      by (rule that [OF refl frame(2,3)])
         (use ok frame a avail_used [OF assms(1)] in
           \<open>simp_all add: set_user_page_def Let_def pt_set_pte page_entry_def\<close>)
  qed (use assms in simp)
qed

lemma fold_set_user_page:
  assumes "frames_ok m" and "length pags \<le> card (avail m)" and "distinct pags"
  shows "\<exists>fs m'. fold (\<lambda>pag. set_user_page rw PT (base + pag)) pags m = m' \<and>
    length fs = length pags \<and> distinct fs \<and> set fs \<subseteq> avail m \<and> avail m' = avail m - set fs \<and>
    frames_ok m' \<and> mm_state.more m' = mm_state.more m \<and> cr3 m' = cr3 m \<and> cr0 m' = cr0 m \<and>
    (pags \<noteq> [] \<longrightarrow> (\<forall>j\<in>avail m. fs ! 0 \<le> j)) \<and>
    (\<forall>k<length pags. pt m' PT (base + pags ! k) = page_entry rw (of_nat (fs ! k))) \<and>
    (\<forall>q j. q \<noteq> PT \<or> j \<notin> (+) base ` set pags \<longrightarrow> pt m' q j = pt m q j)"
  using assms
proof (induction pags arbitrary: m)
  case Nil
  then show ?case by (intro exI [of _ "[]"] exI [of _ m]) simp
next
  case (Cons pag pags)
  then have "avail m \<noteq> {}" by auto
  obtain f m1 where m1: "set_user_page rw PT (base + pag) m = m1" "f \<in> avail m" "\<forall>j\<in>avail m. f \<le> j"
      "frames_ok m1" "avail m1 = avail m - {f}"
      "\<And>q j. pt m1 q j = (if q = PT \<and> j = base + pag then page_entry rw (of_nat f) else pt m q j)"
      "mm_state.more m1 = mm_state.more m" "cr3 m1 = cr3 m" "cr0 m1 = cr0 m"
    by (rule set_user_page_takes [OF Cons.prems(1) \<open>avail m \<noteq> {}\<close>, of rw PT "base + pag"])
       (rule that; assumption)
  have "length pags \<le> card (avail m1)" using Cons.prems(2) m1(2) by (simp add: m1(5))
  from Cons.IH [OF m1(4) this] Cons.prems(3) obtain fs m' where
    IH: "fold (\<lambda>pag. set_user_page rw PT (base + pag)) pags m1 = m'" "length fs = length pags"
      "distinct fs" "set fs \<subseteq> avail m1" "avail m' = avail m1 - set fs" "frames_ok m'"
      "mm_state.more m' = mm_state.more m1" "cr3 m' = cr3 m1" "cr0 m' = cr0 m1"
      "\<forall>k<length pags. pt m' PT (base + pags ! k) = page_entry rw (of_nat (fs ! k))"
      "\<forall>q j. q \<noteq> PT \<or> j \<notin> (+) base ` set pags \<longrightarrow> pt m' q j = pt m1 q j"
    by auto
  have "base + pag \<notin> (+) base ` set pags" using Cons.prems(3) by auto
  with IH(11) have "pt m' PT (base + pag) = page_entry rw (of_nat f)" by (simp add: m1(6))
  then have "\<forall>k<length (pag # pags). pt m' PT (base + (pag # pags) ! k) =
      page_entry rw (of_nat ((f # fs) ! k))"
    using IH(10) by (auto simp: less_Suc_eq_0_disj)
  moreover have "pt m' q j = pt m q j" if "q \<noteq> PT \<or> j \<notin> (+) base ` set (pag # pags)" for q j
    using IH(11) that by (auto simp: m1(6))
  ultimately show ?case
    using IH m1 by (intro exI [of _ "f # fs"] exI [of _ m']) auto
qed

section \<open>\<open>init_mm\<close>\<close>

definition protected_table :: "kcfg \<Rightarrow> nat \<Rightarrow> 'a mm_state_scheme \<Rightarrow> 'a mm_state_scheme" where
  "protected_table C j m = protect_page (pagusr_page C j) (protected_tasks_at C + 11)
     (protect_page (pagusr_page C j) (protected_tasks_at C) (init_table C j m))"

lemma init_table_pages_game_alt:
  "init_table_pages_game C s = fold (protected_table C) [0..<NR_TASKS] s"
  by (simp add: init_table_pages_game_def protected_table_def [abs_def] init_table_def Let_def)

lemma fold_mm_fields:
  assumes "\<And>i m. phys_mem (f i m) = phys_mem m \<and> cr3 (f i m) = cr3 m \<and>
    mm_state.more (f i m) = mm_state.more m"
  shows "phys_mem (fold f is m) = phys_mem m \<and> cr3 (fold f is m) = cr3 m \<and>
    mm_state.more (fold f is m) = mm_state.more m"
  using assms by (induction "is" arbitrary: m) simp_all

lemma init_table_fields:
  "phys_mem (init_table C j m) = phys_mem m \<and> cr3 (init_table C j m) = cr3 m \<and>
   mm_state.more (init_table C j m) = mm_state.more m"
proof -
  have "phys_mem (fold (init_kernel_page PT) is m) = phys_mem m \<and>
      cr3 (fold (init_kernel_page PT) is m) = cr3 m \<and>
      mm_state.more (fold (init_kernel_page PT) is m) = mm_state.more m" for PT "is" and m :: "'a mm_state_scheme"
    by (rule fold_mm_fields) (simp add: init_kernel_page_def)
  moreover have "phys_mem (fold (\<lambda>i. set_pte PT i 0) is m) = phys_mem m \<and>
      cr3 (fold (\<lambda>i. set_pte PT i 0) is m) = cr3 m \<and>
      mm_state.more (fold (\<lambda>i. set_pte PT i 0) is m) = mm_state.more m" for PT "is" and m :: "'a mm_state_scheme"
    by (rule fold_mm_fields) simp
  ultimately show ?thesis by (simp add: init_table_def)
qed

lemma init_table_pages_game_fields:
  "phys_mem (init_table_pages_game C s) = phys_mem s \<and> cr3 (init_table_pages_game C s) = cr3 s \<and>
   mm_state.more (init_table_pages_game C s) = mm_state.more s"
  unfolding init_table_pages_game_alt
  by (rule fold_mm_fields) (simp add: protected_table_def protect_page_def init_table_fields)

lemma init_dir_pages_fields:
  "phys_mem (init_dir_pages C m) = phys_mem m \<and> cr3 (init_dir_pages C m) = cr3 m \<and>
   mm_state.more (init_dir_pages C m) = mm_state.more m"
  unfolding init_dir_pages_alt by (rule fold_mm_fields) (simp add: init_dir_def)

lemma init_mm_spec:
  assumes "length (phys_mem s) = TOTAL_PAGES"
  shows "frames_ok (init_mm C s)" and "avail (init_mm C s) = even_frames"
    and "t < NR_TASKS \<Longrightarrow> pt (init_mm C s) (dir_page C t) 0 = user_entry (pagusr_page C t)"
    and "init_mm C s = s\<lparr>phys_mem := phys_mem (init_mm C s), pt := pt (init_mm C s),
      cr3 := dir_page C 0, cr0 := cr0 (init_mm C s), tasks := tasks (init_mm C s)\<rparr>"
    and "register_esp (tasks (init_mm C s) u) = register_esp (tasks s u)"
proof -
  define s1 where "s1 = init_table_pages_game C s"
  define s2 where "s2 = snd (init_frames s1)"
  define s3 where "s3 = init_dir_pages C s2"
  note f1 = init_table_pages_game_fields [of C s, folded s1_def]
  note f3 = init_dir_pages_fields [of C s2, folded s3_def]
  have f2: "mm_state.more s2 = mm_state.more s1" "pt s2 = pt s1"
    by (simp_all add: s2_def init_frames_def Let_def)
  have eq: "init_mm C s = set_pe_flag (set_cr3 (dir_page C 0) (snd (allocate_DIR C 0 s3)))"
    by (simp add: init_mm_def Let_def s1_def s2_def s3_def get_DIR_def allocate_DIR_def upd_task_def)
  have ok1: "frames_ok s1" using assms f1 by (simp add: frames_ok_def)
  then have "frames_ok s2" "avail s2 = even_frames"
    by (simp_all add: s2_def avail_init even_frames_def)
  then show "frames_ok (init_mm C s)" "avail (init_mm C s) = even_frames"
    using f3 by (simp_all add: eq frames_ok_def avail_def set_pe_flag_def set_cr3_def allocate_DIR_def upd_task_def)
  show "t < NR_TASKS \<Longrightarrow> pt (init_mm C s) (dir_page C t) 0 = user_entry (pagusr_page C t)"
    using pt_init_dir_pages [of t C s2]
    by (simp add: eq set_pe_flag_def set_cr3_def allocate_DIR_def upd_task_def s3_def ENTRY_DIR_PAGES_def)
  have "mm_state.more s3 = mm_state.more s" using f1 f2 f3 by simp
  then show "init_mm C s = s\<lparr>phys_mem := phys_mem (init_mm C s), pt := pt (init_mm C s),
      cr3 := dir_page C 0, cr0 := cr0 (init_mm C s), tasks := tasks (init_mm C s)\<rparr>"
    unfolding eq
    by (cases s; cases s3; simp add: set_pe_flag_def set_cr3_def allocate_DIR_def upd_task_def)
  have "tasks s3 = tasks s"
    using \<open>mm_state.more s3 = mm_state.more s\<close> by (cases s; cases s3; simp)
  then show "register_esp (tasks (init_mm C s) u) = register_esp (tasks s u)"
    by (simp add: eq set_pe_flag_def set_cr3_def allocate_DIR_def upd_task_def)
qed

lemma set_user_pages_spec:
  assumes lay: "game_layout C" and ok: "frames_ok m" and enough: "NUM_PAG_CODE + NUM_PAG_DATA \<le> card (avail m)"
  obtains ks gs where "length ks = NUM_PAG_CODE" and "length gs = NUM_PAG_DATA" and "distinct (ks @ gs)"
    and "set (ks @ gs) \<subseteq> avail m" and "\<forall>j\<in>avail m. ks ! 0 \<le> j"
    and "avail (set_user_pages C PT m) = avail m - set (ks @ gs)" and "frames_ok (set_user_pages C PT m)"
    and "mm_state.more (set_user_pages C PT m) = mm_state.more m"
    and "cr3 (set_user_pages C PT m) = cr3 m" and "cr0 (set_user_pages C PT m) = cr0 m"
    and "\<And>k. k < NUM_PAG_CODE \<Longrightarrow> pt (set_user_pages C PT m) PT (256 + k) = page_entry 0 (of_nat (ks ! k))"
    and "\<And>k. k < NUM_PAG_DATA \<Longrightarrow> pt (set_user_pages C PT m) PT (264 + k) = user_entry (of_nat (gs ! k))"
    and "\<And>q j. q \<noteq> PT \<Longrightarrow> pt (set_user_pages C PT m) q j = pt m q j"
proof -
  have D: "PAG_LOG_INIT_DATA C = 264" "PAG_LOG_INIT_CODE C = 256"
    using lay by (simp_all add: game_layout_def)
  define m1 where "m1 = fold (\<lambda>pag. set_user_page 0 PT (256 + pag)) [0..<NUM_PAG_CODE] m"
  have c1: "length [0..<NUM_PAG_CODE] \<le> card (avail m)" "distinct [0..<NUM_PAG_CODE]"
    using enough by simp_all
  obtain ks where ks: "length ks = NUM_PAG_CODE" "distinct ks" "set ks \<subseteq> avail m"
    "avail m1 = avail m - set ks" "frames_ok m1" "mm_state.more m1 = mm_state.more m" "cr3 m1 = cr3 m"
    "cr0 m1 = cr0 m" "\<forall>j\<in>avail m. ks ! 0 \<le> j"
    "\<And>k. k < NUM_PAG_CODE \<Longrightarrow> pt m1 PT (256 + k) = page_entry 0 (of_nat (ks ! k))"
    "\<And>q j. q \<noteq> PT \<or> j \<notin> (+) 256 ` {0..<NUM_PAG_CODE} \<Longrightarrow> pt m1 q j = pt m q j"
    using fold_set_user_page [OF ok c1, of 0 PT 256] by (auto simp: m1_def NUM_PAG_CODE_def)
  define m2 where "m2 = fold (\<lambda>pag. set_user_page 1 PT (264 + pag)) [0..<NUM_PAG_DATA] m1"
  have c2: "length [0..<NUM_PAG_DATA] \<le> card (avail m1)" "distinct [0..<NUM_PAG_DATA]"
    using enough ks(1-3) by (simp_all add: ks(4) card_Diff_subset distinct_card)
  obtain gs where gs: "length gs = NUM_PAG_DATA" "distinct gs" "set gs \<subseteq> avail m1"
    "avail m2 = avail m1 - set gs" "frames_ok m2" "mm_state.more m2 = mm_state.more m1" "cr3 m2 = cr3 m1"
    "cr0 m2 = cr0 m1"
    "\<And>k. k < NUM_PAG_DATA \<Longrightarrow> pt m2 PT (264 + k) = page_entry 1 (of_nat (gs ! k))"
    "\<And>q j. q \<noteq> PT \<or> j \<notin> (+) 264 ` {0..<NUM_PAG_DATA} \<Longrightarrow> pt m2 q j = pt m1 q j"
    using fold_set_user_page [OF ks(5) c2, of 1 PT 264] by (auto simp: m2_def)
  have eq: "set_user_pages C PT m = m2"
    by (simp add: set_user_pages_def D m1_def m2_def)
  have low: "pt m2 PT (256 + k) = pt m1 PT (256 + k)" if "k < NUM_PAG_CODE" for k
    using that by (intro gs(10)) (auto simp: NUM_PAG_CODE_def)
  show thesis
    by (rule that [OF ks(1) gs(1)]; (unfold eq)?)
       (use ks gs low in auto)
qed

lemma more_user_pages:
  assumes "game_layout C" and "frames_ok s" and "NUM_PAG_CODE + NUM_PAG_DATA \<le> card (avail s)"
  shows "mm_state.more (set_user_pages C PT s) = mm_state.more s"
  by (rule set_user_pages_spec [OF assms, of PT])

section \<open>The first two tasks\<close>

lemma init_stats_step:
  obtains st where "init_stats t s =
      Some (upd_task t (p_stats_update (\<lambda>_. st)) (s\<lparr>tsc_pos := tsc_pos s + 2\<rparr>))"
    and "user_ticks st = 0" and "system_ticks st = 0" and "ready_ticks st = 0"
    and "blocked_ticks st = 0" and "total_trans st = 0"
proof -
  obtain e r where er: "read_ticks s = Some (e, s\<lparr>tsc_pos := tsc_pos s + 1\<rparr>)"
      "read_ticks (s\<lparr>tsc_pos := tsc_pos s + 1\<rparr>) = Some (r, s\<lparr>tsc_pos := tsc_pos s + 2\<rparr>)"
    using read_ticks_total [of s] read_ticks_total [of "s\<lparr>tsc_pos := tsc_pos s + 1\<rparr>"] by auto
  show thesis
    by (rule that [of "\<lparr>user_ticks = 0, system_ticks = 0, blocked_ticks = 0, ready_ticks = 0,
        elapsed_total_ticks = e, total_trans = 0, remaining_ticks = r\<rparr>"])
       (simp_all add: init_stats_def er del: One_nat_def add_2_eq_Suc')
qed

lemma init_idle_spec:
  assumes "task_queues (links s) (c # fs) rs"
  obtains h st where "task_queues h fs rs"
    and "init_idle C s = Some (s\<lparr>links := h, tsc_pos := tsc_pos s + 2, idle_task := Some c,
      stacks := (stacks s)(c := (stacks s c)(1023 := CodeAddr ''cpu_idle'', 1022 := Num 0)),
      tasks := (tasks s)(c := (tasks s c)\<lparr>PID := 0, total_quantum := DEFAULT_QUANTUM,
        p_stats := st, dir_pages_baseAddr := dir_page C c, register_esp := Some (c, 1022)\<rparr>)\<rparr>)"
proof -
  obtain h where h: "take_free s = Some (c, s\<lparr>links := h\<rparr>)" "task_queues h fs rs"
    by (rule take_free_spec [OF assms])
  let ?s = "upd_task c (total_quantum_update (\<lambda>_. DEFAULT_QUANTUM))
    (upd_task c (PID_update (\<lambda>_. 0)) (s\<lparr>links := h\<rparr>))"
  obtain st where st: "init_stats c ?s =
      Some (upd_task c (p_stats_update (\<lambda>_. st)) (?s\<lparr>tsc_pos := tsc_pos ?s + 2\<rparr>))"
    by (rule init_stats_step)
  show thesis
    by (rule that [OF h(2)], simp add: init_idle_def h(1) st Let_def allocate_DIR_def)
       (cases s, simp add: upd_task_def set_stack_def KERNEL_STACK_SIZE_def)
qed

lemma init_task1_spec:
  assumes "task_queues (links s) (c # fs) rs" and "pt s (dir_page C c) 0 = user_entry (pagusr_page C c)"
    and "take_bit 20 (pagusr_page C c) = pagusr_page C c"
    and "game_layout C" and "frames_ok s" and "NUM_PAG_CODE + NUM_PAG_DATA \<le> card (avail s)"
  obtains h st where "task_queues h fs rs"
    and "init_task1 C s = Some ((set_user_pages C (pagusr_page C c)
      (s\<lparr>links := h, tsc_pos := tsc_pos s + 2, remaining_quantum := DEFAULT_QUANTUM,
        tasks := (tasks s)(c := (tasks s c)\<lparr>PID := 1, total_quantum := DEFAULT_QUANTUM,
          state := ST_RUN, p_stats := st, dir_pages_baseAddr := dir_page C c\<rparr>)\<rparr>))
      \<lparr>tss_esp0 := (c, KERNEL_STACK_SIZE), msr_175 := (c, KERNEL_STACK_SIZE), cr3 := dir_page C c\<rparr>)"
proof -
  obtain h where h: "take_free s = Some (c, s\<lparr>links := h\<rparr>)" "task_queues h fs rs"
    by (rule take_free_spec [OF assms(1)])
  let ?s = "(upd_task c (state_update (\<lambda>_. ST_RUN)) (upd_task c (total_quantum_update (\<lambda>_. DEFAULT_QUANTUM))
    (upd_task c (PID_update (\<lambda>_. 1)) (s\<lparr>links := h\<rparr>))))\<lparr>remaining_quantum := DEFAULT_QUANTUM\<rparr>"
  obtain st where st: "init_stats c ?s =
      Some (upd_task c (p_stats_update (\<lambda>_. st)) (?s\<lparr>tsc_pos := tsc_pos ?s + 2\<rparr>))"
    by (rule init_stats_step)
  let ?s1 = "s\<lparr>links := h, tsc_pos := tsc_pos s + 2, remaining_quantum := DEFAULT_QUANTUM,
        tasks := (tasks s)(c := (tasks s c)\<lparr>PID := 1, total_quantum := DEFAULT_QUANTUM,
          state := ST_RUN, p_stats := st, dir_pages_baseAddr := dir_page C c\<rparr>)\<rparr>"
  have s1: "upd_task c (dir_pages_baseAddr_update (\<lambda>_. dir_page C c))
     (upd_task c (p_stats_update (\<lambda>_. st)) (?s\<lparr>tsc_pos := tsc_pos ?s + 2\<rparr>)) = ?s1"
    by (cases s, simp add: upd_task_def)
  have q: "total_quantum (tasks (upd_task c (state_update (\<lambda>_. ST_RUN)) (upd_task c
    (total_quantum_update (\<lambda>_. DEFAULT_QUANTUM)) (upd_task c (PID_update (\<lambda>_. 1)) (s\<lparr>links := h\<rparr>)))) c) =
    DEFAULT_QUANTUM" by (simp add: upd_task_def)
  have PT: "get_PT c ?s1 = pagusr_page C c" using assms(2,3) by (simp add: get_PT_def)
  have "mm_state.more (set_user_pages C (pagusr_page C c) ?s1) = mm_state.more ?s1"
    by (rule more_user_pages [OF assms(4)]) (use assms(5,6) in \<open>simp_all add: frames_ok_def avail_def\<close>)
  then have more: "tasks (set_user_pages C (pagusr_page C c) ?s1) = tasks ?s1"
    by (cases "set_user_pages C (pagusr_page C c) ?s1"; cases s; simp)
  show thesis
    by (rule that [OF h(2), of st])
       (simp add: init_task1_def h(1) Let_def q st [simplified] allocate_DIR_def s1 [simplified]
         PT [simplified] more [simplified] set_cr3_def)
qed

section \<open>Boot\<close>

text \<open>
  The statically initialised state: the arrays have the sizes of their declarations and
  \<open>global_PID\<close> is 1000. Nothing is assumed of memory, of the registers, of the links or of
  the page tables.
\<close>

definition power_on :: "game \<Rightarrow> bool" where
  "power_on s \<longleftrightarrow> length (phys_mem s) = TOTAL_PAGES \<and> global_PID s = 1000 \<and>
     length (events (k_buffer s)) = 16 \<and> length (keyboard_vec s) = 128"

lemma boot_partition:
  assumes "length ks = NUM_PAG_CODE" and "length gs = NUM_PAG_DATA" and "distinct (ks @ gs)"
    and "set (ks @ gs) \<subseteq> even_frames" and "\<forall>j\<in>even_frames. ks ! 0 \<le> j"
    and "avail s = even_frames - set (ks @ gs)"
  shows "frames_partition {t} (\<lambda>_. (!) gs) ((!) ks) s"
proof -
  have k: "(!) ks ` {..<NUM_PAG_CODE} = set ks" using assms(1) by (metis atLeast0LessThan list.set_map map_nth set_upt)
  have g: "owned (\<lambda>_. (!) gs) {t} = set gs"
    unfolding owned_def using assms(2) by (force simp: in_set_conv_nth image_iff)
  have "ks ! 0 \<in> set ks" using assms(1) by (simp add: NUM_PAG_CODE_def)
  then have "ks ! 0 \<in> even_frames" using assms(4) by auto
  moreover have "NUM_PAG_KERNEL \<in> even_frames" by (simp add: even_frames_def mm_consts)
  ultimately have "ks ! 0 = NUM_PAG_KERNEL" using assms(5) by (fastforce simp: even_frames_def)
  moreover have "inj_on ((!) ks) {..<NUM_PAG_CODE}" "inj_on ((!) gs) {..<NUM_PAG_DATA}"
    using assms(1-3) by (simp_all add: inj_on_nth)
  then have "inj_on (\<lambda>(t, i). gs ! i) ({t} \<times> {..<NUM_PAG_DATA})" by (auto simp: inj_on_def)
  ultimately show ?thesis
    unfolding frames_partition_def k g
    using assms(3,4,6) \<open>inj_on ((!) ks) {..<NUM_PAG_CODE}\<close> by auto
qed

lemma users_boot: "users [2..<NR_TASKS] 0 = {1}" "live [2..<NR_TASKS] = {0, 1}"
  by (auto simp: users_def live_def NR_TASKS_def)

lemma boot_tasks:
  assumes lay: "game_layout C" and on: "power_on s"
  obtains s2 s3 s4 h st0 st1 where "init_sched (init_mm C s) = Some s2" and "init_idle C s2 = Some s3"
    and "init_task1 C s3 = Some s4" and "task_queues h [2..<NR_TASKS] []"
    and "frames_ok s3" and "avail s3 = even_frames"
    and "\<And>t. t < NR_TASKS \<Longrightarrow> pt s3 (dir_page C t) 0 = user_entry (pagusr_page C t)"
    and "s3 = s\<lparr>phys_mem := phys_mem s3, pt := pt s3, cr3 := dir_page C 0, cr0 := cr0 s3,
      links := links s3, tsc_pos := tsc_pos s + 2, idle_task := Some 0,
      stacks := (stacks s)(0 := (stacks s 0)(1023 := CodeAddr ''cpu_idle'', 1022 := Num 0)),
      tasks := (tasks s2)(0 := (tasks s2 0)\<lparr>PID := 0, total_quantum := DEFAULT_QUANTUM,
        p_stats := st0, dir_pages_baseAddr := dir_page C 0, register_esp := Some (0, 1022)\<rparr>)\<rparr>"
    and "s4 = (set_user_pages C (pagusr_page C 1)
      (s3\<lparr>links := h, tsc_pos := tsc_pos s3 + 2, remaining_quantum := DEFAULT_QUANTUM,
        tasks := (tasks s3)(1 := (tasks s3 1)\<lparr>PID := 1, total_quantum := DEFAULT_QUANTUM,
          state := ST_RUN, p_stats := st1, dir_pages_baseAddr := dir_page C 1\<rparr>)\<rparr>))
      \<lparr>tss_esp0 := (1, KERNEL_STACK_SIZE), msr_175 := (1, KERNEL_STACK_SIZE), cr3 := dir_page C 1\<rparr>"
    and "register_esp (tasks s3 1) = register_esp (tasks s 1)"
    and "\<forall>t\<in>set [2..<NR_TASKS]. PID (tasks s3 t) = -1"
proof -
  have len: "length (phys_mem s) = TOTAL_PAGES" using on by (simp add: power_on_def)
  note m = init_mm_spec [OF len, where C = C]
  obtain s2 where s2: "init_sched (init_mm C s) = Some s2" "task_queues (links s2) [0..<NR_TASKS] []"
      "s2 = (init_mm C s)\<lparr>links := links s2, tasks := tasks s2\<rparr>"
      "\<And>t. register_esp (tasks s2 t) = register_esp (tasks (init_mm C s) t)"
      "\<And>t. t < NR_TASKS \<Longrightarrow> PID (tasks s2 t) = -1"
    by (rule init_sched_spec [of "init_mm C s"]) (rule that; assumption)
  have f2: "phys_mem s2 = phys_mem (init_mm C s)" "pt s2 = pt (init_mm C s)"
    by (subst s2(3), simp)+
  have "[0..<NR_TASKS] = 0 # 1 # [2..<NR_TASKS]" by (simp add: NR_TASKS_def upt_rec)
  then have q2: "task_queues (links s2) (0 # 1 # [2..<NR_TASKS]) []" using s2(2) by simp
  obtain h1 st0 where h1: "task_queues h1 (1 # [2..<NR_TASKS]) []"
    and i: "init_idle C s2 = Some (s2\<lparr>links := h1, tsc_pos := tsc_pos s2 + 2, idle_task := Some 0,
      stacks := (stacks s2)(0 := (stacks s2 0)(1023 := CodeAddr ''cpu_idle'', 1022 := Num 0)),
      tasks := (tasks s2)(0 := (tasks s2 0)\<lparr>PID := 0, total_quantum := DEFAULT_QUANTUM,
        p_stats := st0, dir_pages_baseAddr := dir_page C 0, register_esp := Some (0, 1022)\<rparr>)\<rparr>)"
    (is "_ = Some ?s3") by (rule init_idle_spec [OF q2])
  define s3 where "s3 = ?s3"
  have f3: "links s3 = h1" "phys_mem s3 = phys_mem s2" "pt s3 = pt s2" by (simp_all add: s3_def)
  have m3: "frames_ok s3" "avail s3 = even_frames"
    using m(1,2) by (simp_all add: frames_ok_def avail_def f3 f2)
  have d3: "t < NR_TASKS \<Longrightarrow> pt s3 (dir_page C t) 0 = user_entry (pagusr_page C t)" for t
    using m(3) by (simp add: f3 f2)
  have s3: "s3 = s\<lparr>phys_mem := phys_mem s3, pt := pt s3, cr3 := dir_page C 0, cr0 := cr0 s3,
      links := links s3, tsc_pos := tsc_pos s + 2, idle_task := Some 0,
      stacks := (stacks s)(0 := (stacks s 0)(1023 := CodeAddr ''cpu_idle'', 1022 := Num 0)),
      tasks := (tasks s2)(0 := (tasks s2 0)\<lparr>PID := 0, total_quantum := DEFAULT_QUANTUM,
        p_stats := st0, dir_pages_baseAddr := dir_page C 0, register_esp := Some (0, 1022)\<rparr>)\<rparr>"
    using s2(3) m(4) unfolding s3_def by (cases s; cases s2; cases "init_mm C s"; simp)
  have t1: "1 < NR_TASKS" by (simp add: NR_TASKS_def)
  have e3: "NUM_PAG_CODE + NUM_PAG_DATA \<le> card (avail s3)"
    using card_even_frames unfolding m3(2) even_frames_def by (simp add: mm_consts)
  have r3: "register_esp (tasks s3 1) = register_esp (tasks s 1)" using s2(4) m(5) by (simp add: s3_def)
  have p3: "\<forall>t\<in>set [2..<NR_TASKS]. PID (tasks s3 t) = -1" using s2(5) by (simp add: s3_def)
  show thesis
    by (rule init_task1_spec [OF h1 [folded f3(1)] d3 [OF t1] layout_pages(2) [OF lay t1 t1] lay m3(1) e3])
       (rule that [OF s2(1) i [folded s3_def] _ _ m3 d3 s3 refl r3 p3]; assumption)
qed

lemma boot_tables:
  fixes s :: game
  assumes lay: "game_layout C"
    and dirs: "\<And>t. t < NR_TASKS \<Longrightarrow> pt m (dir_page C t) 0 = user_entry (pagusr_page C t)"
    and code: "\<And>k. k < NUM_PAG_CODE \<Longrightarrow> pt s (pagusr_page C 1) (256 + k) = page_entry 0 (of_nat (ks ! k))"
    and data: "\<And>k. k < NUM_PAG_DATA \<Longrightarrow> pt s (pagusr_page C 1) (264 + k) = user_entry (of_nat (gs ! k))"
    and oth: "\<And>q j. q \<noteq> pagusr_page C 1 \<Longrightarrow> pt s q j = pt m q j"
    and ks: "length ks = NUM_PAG_CODE" "set ks \<subseteq> even_frames"
  shows "tables_ok C {1} (\<lambda>_. (!) gs) ((!) ks) s"
proof -
  have "1 < NR_TASKS" by (simp add: NR_TASKS_def)
  then have "pt s (dir_page C t) 0 = user_entry (pagusr_page C t)" if "t < NR_TASKS" for t
    using that oth dirs layout_pages(1) [OF lay] by simp
  moreover have "ks ! k < TOTAL_PAGES" if "k < NUM_PAG_CODE" for k
  proof -
    have "ks ! k \<in> even_frames" using ks that by (metis nth_mem subsetD)
    then show ?thesis by (simp add: even_frames_def)
  qed
  ultimately show ?thesis by (simp add: tables_ok_def code data get_frame_def del: One_nat_def)
qed

lemma game_more:
  fixes s s' :: game
  assumes "mm_state.more s' = mm_state.more s"
  shows "tasks s' = tasks s" "idle_task s' = idle_task s" "global_PID s' = global_PID s"
    "k_buffer s' = k_buffer s" "keyboard_vec s' = keyboard_vec s"
    "remaining_quantum s' = remaining_quantum s" "zeos_ticks s' = zeos_ticks s"
  using assms by (cases s; cases s'; simp)+

text \<open>What the boot code leaves to the scheduler: task 1 runs, the idle task waits on a stack that
resumes in \<open>cpu_idle\<close>, and every other slot is free.\<close>

lemma boot_sched_inv:
  fixes s :: game
  assumes "task_queues (links s) [2..<NR_TASKS] []" and "idle_task s = Some 0"
    and "esp s = (1, KERNEL_STACK_SIZE)" and "tss_esp0 s = (1, KERNEL_STACK_SIZE)"
    and "msr_175 s = (1, KERNEL_STACK_SIZE)" and "cr3 s = dir_page C 1"
    and "stacks s 0 1023 = CodeAddr ''cpu_idle''" and "register_esp (tasks s 0) = Some (0, 1022)"
    and "dir_pages_baseAddr (tasks s 0) = dir_page C 0" and "dir_pages_baseAddr (tasks s 1) = dir_page C 1"
    and "PID (tasks s 0) = 0" and "PID (tasks s 1) = 1"
    and "total_quantum (tasks s 0) = DEFAULT_QUANTUM" and "total_quantum (tasks s 1) = DEFAULT_QUANTUM"
    and "state (tasks s 1) = ST_RUN"
  shows "sched_inv C [2..<NR_TASKS] [] 0 s"
proof -
  have "resumable C 0 s 0" by (simp add: resumable_def resume_shape_def assms KERNEL_STACK_SIZE_def)
  then have "waiting_ok C [] 0 (current s) s" by (simp add: waiting_ok_def)
  moreover have "live_ok C [2..<NR_TASKS] s" using assms by (simp add: live_ok_def users_boot)
  moreover have "insert (1 :: nat) (insert 0 (set [2..<NR_TASKS] \<union> set [])) = {..<NR_TASKS}"
    by (auto simp: NR_TASKS_def)
  ultimately show ?thesis using assms by (simp add: sched_inv_def current_def)
qed

lemma boot_kinv:
  assumes C: "cfg_ok C" and on: "power_on s"
  obtains s2 s3 s4 gs ks where "init_sched (init_mm C s) = Some s2" and "init_idle C s2 = Some s3"
    and "init_task1 C s3 = Some s4" and "tss_esp0 s4 = (1, KERNEL_STACK_SIZE)"
    and "kinv_at C [2..<NR_TASKS] [] 0 (\<lambda>_. (!) gs) ((!) ks)
      ((keyboard_init s4)\<lparr>esp := (1, KERNEL_STACK_SIZE)\<rparr>)"
    and "PID (tasks s4 1) = 1" and "global_PID s4 = 1000" and "scr s4 = scr s"
    and "register_esp (tasks s4 1) = register_esp (tasks s 1)" and "k_buffer s4 = k_buffer s"
proof -
  have lay: "game_layout C" using C by (simp add: cfg_ok_def)
  show thesis
  proof (rule boot_tasks [OF lay on])
    fix s2 s3 s4 h st0 st1
    assume init: "init_sched (init_mm C s) = Some s2" "init_idle C s2 = Some s3" "init_task1 C s3 = Some s4"
      and q: "task_queues h [2..<NR_TASKS] []"
      and m3: "frames_ok s3" "avail s3 = even_frames"
        "\<And>t. t < NR_TASKS \<Longrightarrow> pt s3 (dir_page C t) 0 = user_entry (pagusr_page C t)"
      and s3: "s3 = s\<lparr>phys_mem := phys_mem s3, pt := pt s3, cr3 := dir_page C 0, cr0 := cr0 s3,
      links := links s3, tsc_pos := tsc_pos s + 2, idle_task := Some 0,
      stacks := (stacks s)(0 := (stacks s 0)(1023 := CodeAddr ''cpu_idle'', 1022 := Num 0)),
      tasks := (tasks s2)(0 := (tasks s2 0)\<lparr>PID := 0, total_quantum := DEFAULT_QUANTUM,
        p_stats := st0, dir_pages_baseAddr := dir_page C 0, register_esp := Some (0, 1022)\<rparr>)\<rparr>"
      and s4: "s4 = (set_user_pages C (pagusr_page C 1)
      (s3\<lparr>links := h, tsc_pos := tsc_pos s3 + 2, remaining_quantum := DEFAULT_QUANTUM,
        tasks := (tasks s3)(1 := (tasks s3 1)\<lparr>PID := 1, total_quantum := DEFAULT_QUANTUM,
          state := ST_RUN, p_stats := st1, dir_pages_baseAddr := dir_page C 1\<rparr>)\<rparr>))
      \<lparr>tss_esp0 := (1, KERNEL_STACK_SIZE), msr_175 := (1, KERNEL_STACK_SIZE), cr3 := dir_page C 1\<rparr>"
        (is "_ = (set_user_pages C _ ?m)\<lparr>tss_esp0 := _, msr_175 := _, cr3 := _\<rparr>")
      and r3: "register_esp (tasks s3 1) = register_esp (tasks s 1)"
      and p3: "\<forall>t\<in>set [2..<NR_TASKS]. PID (tasks s3 t) = -1"
    have mm: "frames_ok ?m" "avail ?m = even_frames" "pt ?m = pt s3"
      using m3(1,2) by (simp_all add: frames_ok_def avail_def)
    have e: "NUM_PAG_CODE + NUM_PAG_DATA \<le> card (avail ?m)"
      using card_even_frames unfolding mm(2) even_frames_def by (simp add: mm_consts)
    let ?M = "set_user_pages C (pagusr_page C 1) ?m"
    obtain ks gs where kg: "length ks = NUM_PAG_CODE" "length gs = NUM_PAG_DATA" "distinct (ks @ gs)"
      "set (ks @ gs) \<subseteq> avail ?m" "\<forall>j\<in>avail ?m. ks ! 0 \<le> j"
      "avail ?M = avail ?m - set (ks @ gs)" "frames_ok ?M" "mm_state.more ?M = mm_state.more ?m"
      and code: "\<And>k. k < NUM_PAG_CODE \<Longrightarrow> pt ?M (pagusr_page C 1) (256 + k) = page_entry 0 (of_nat (ks ! k))"
      and data: "\<And>k. k < NUM_PAG_DATA \<Longrightarrow> pt ?M (pagusr_page C 1) (264 + k) = user_entry (of_nat (gs ! k))"
      and oth: "\<And>q j. q \<noteq> pagusr_page C 1 \<Longrightarrow> pt ?M q j = pt ?m q j"
      by (rule set_user_pages_spec [OF lay mm(1) e]) (rule that; assumption)
    define s5 where "s5 = (keyboard_init s4)\<lparr>esp := (1, KERNEL_STACK_SIZE)\<rparr>"
    have st5: "pt s5 = pt ?M" "phys_mem s5 = phys_mem ?M"
      by (simp_all add: s5_def s4 keyboard_init_def)
    have av5: "avail s5 = avail ?M" using st5 by (simp add: avail_def)
    note mo = machine_more [OF kg(8)] and go = game_more [OF kg(8)]
    have f3: "k_buffer s3 = k_buffer s" "keyboard_vec s3 = keyboard_vec s" "idle_task s3 = Some 0"
      "global_PID s3 = global_PID s" "stacks s3 0 1023 = CodeAddr ''cpu_idle''" "scr s3 = scr s"
      "PID (tasks s3 0) = 0" "total_quantum (tasks s3 0) = DEFAULT_QUANTUM"
      "dir_pages_baseAddr (tasks s3 0) = dir_page C 0" "register_esp (tasks s3 0) = Some (0, 1022)"
      by (subst s3, simp)+
    have f5: "links s5 = h" "idle_task s5 = Some 0" "current s5 = 1" "esp s5 = (1, KERNEL_STACK_SIZE)"
      "tss_esp0 s5 = (1, KERNEL_STACK_SIZE)" "msr_175 s5 = (1, KERNEL_STACK_SIZE)" "cr3 s5 = dir_page C 1"
      "k_buffer s5 = (k_buffer s)\<lparr>kb_head := 0, kb_tail := 0\<rparr>" "keyboard_vec s5 = keyboard_vec s"
      "global_PID s5 = global_PID s" "remaining_quantum s5 = DEFAULT_QUANTUM" "stacks s5 = stacks s3"
      "tasks s5 = (tasks s3)(1 := (tasks s3 1)\<lparr>PID := 1, total_quantum := DEFAULT_QUANTUM,
          state := ST_RUN, p_stats := st1, dir_pages_baseAddr := dir_page C 1\<rparr>)"
      using mo go by (simp_all add: s5_def s4 keyboard_init_def current_def f3)
    have sc: "sched_inv C [2..<NR_TASKS] [] 0 s5"
      by (rule boot_sched_inv) (simp_all add: q f5 f3)
    have "tables_ok C {1} (\<lambda>_. (!) gs) ((!) ks) s5"
      by (rule boot_tables [OF lay m3(3)]) (use code data oth kg mm st5 in simp_all)
    moreover have "frames_partition {1} (\<lambda>_. (!) gs) ((!) ks) s5"
      by (rule boot_partition [OF kg(1-3) kg(4-6) [unfolded mm(2), folded av5]])
    moreover have "frames_ok s5" using kg(7) st5 by (simp add: frames_ok_def)
    ultimately have "mem_inv C {1} (\<lambda>_. (!) gs) ((!) ks) s5" by (simp add: mem_inv_def)
    moreover have "pid_inv [2..<NR_TASKS] s5"
      using on p3 by (auto simp: pid_inv_def users_boot f5 f3 power_on_def)
    ultimately have "kinv_at C [2..<NR_TASKS] [] 0 (\<lambda>_. (!) gs) ((!) ks) s5"
      using sc on
      by (simp add: kinv_at_def users_boot quantum_ok_def f5 f3 at_rest_def kb_ok_def power_on_def
          DEFAULT_QUANTUM_def)
    moreover have "PID (tasks s4 1) = 1" "global_PID s4 = 1000" "scr s4 = scr s"
      "tss_esp0 s4 = (1, KERNEL_STACK_SIZE)" "register_esp (tasks s4 1) = register_esp (tasks s 1)"
      "k_buffer s4 = k_buffer s"
      using go mo on f3 r3 by (simp_all add: s4 power_on_def)
    ultimately show thesis using that init s5_def by blast
  qed
qed

lemma benign_kinv:
  assumes "kinv_at C fs rs idle F K s" and "benign s s'"
  shows "kinv_at C fs rs idle F K s'"
proof -
  have "sched_inv C fs rs idle s'"
    by (rule sched_inv_frame [of C fs rs idle s])
       (use assms in \<open>auto simp: kinv_at_def benign_def current_def\<close>)
  moreover have "mem_inv C (users fs idle) F K s'" "pid_inv fs s'"
    using assms mem_inv_frame [of s' s] pid_inv_frame [of s' s] by (simp_all add: kinv_at_def benign_def)
  ultimately show ?thesis
    using assms by (simp add: kinv_at_def benign_def quantum_ok_def at_rest_def frame_queue_def)
qed

text \<open>
  The kernel boots: \<open>main\<close> runs to its end and hands over to process 1 in a state that
  satisfies the invariant, with the user image at \<open>L_USER_START\<close>.
\<close>

lemma boot_main:
  assumes C: "cfg_ok C" and on: "power_on s" and img: "length img \<le> 28 * PAGE_SIZE"
  obtains s' F K where "main C img s = Some s'" and "kinv_at C [2..<NR_TASKS] [] 0 F K s'"
    and "current s' = 1" and "PID (tasks s' 1) = 1" and "global_PID s' = 1000"
    and "\<And>i. i < length img \<Longrightarrow> lin s' (L_USER_START + of_nat i) = img ! i"
    and "register_esp (tasks s' 1) = register_esp (tasks s 1)"
proof -
  let ?s = "s\<lparr>scr := printk (str ''Kernel Loaded!    '') (scr s)\<rparr>"
  have on': "power_on ?s" using on by (simp add: power_on_def)
  have r: "user_range L_USER_START (length img)"
    using img by (simp add: user_range_def L_USER_START_def PAGE_SIZE_def)
  show thesis
  proof (rule boot_kinv [OF C on'])
    fix s2 s3 s4 gs ks
    assume b: "init_sched (init_mm C ?s) = Some s2" "init_idle C s2 = Some s3" "init_task1 C s3 = Some s4"
      "tss_esp0 s4 = (1, KERNEL_STACK_SIZE)" "PID (tasks s4 1) = 1" "global_PID s4 = 1000"
      "register_esp (tasks s4 1) = register_esp (tasks ?s 1)"
      and k: "kinv_at C [2..<NR_TASKS] [] 0 (\<lambda>_. (!) gs) ((!) ks)
        ((keyboard_init s4)\<lparr>esp := (1, KERNEL_STACK_SIZE)\<rparr>)" (is "kinv_at _ _ _ _ _ _ ?s5")
    have c: "current ?s5 \<noteq> 0" "pt (keyboard_init s4) = pt ?s5" "cr3 (keyboard_init s4) = cr3 ?s5"
      by (simp_all add: current_def)
    obtain s6 where s6: "copy_out L_USER_START img (keyboard_init s4) = Some s6"
      "s6 = (keyboard_init s4)\<lparr>fmem := fmem s6\<rparr>"
      "\<And>x. user_addr x \<Longrightarrow> lin s6 x = (if unat L_USER_START \<le> unat x \<and>
        unat x < unat L_USER_START + length img then img ! (unat x - unat L_USER_START)
        else lin (keyboard_init s4) x)"
      by (rule copy_out_user [OF k C c r]) (rule that; assumption)
    define s7 where "s7 = s6\<lparr>scr := printk (str ''Entering user mode...'') (scr s6), esp := tss_esp0 s6\<rparr>"
    have t6: "tss_esp0 s6 = (1, KERNEL_STACK_SIZE)" "PID (tasks s6 1) = 1" "global_PID s6 = 1000"
      "register_esp (tasks s6 1) = register_esp (tasks s 1)"
      by (subst s6(2), simp add: keyboard_init_def b del: One_nat_def)+
    have "benign ?s5 s7"
      unfolding s7_def t6 by (subst s6(2)) (simp add: benign_def frame_queue_def)
    from benign_kinv [OF k this]
    have inv: "kinv_at C [2..<NR_TASKS] [] 0 (\<lambda>_. (!) gs) ((!) ks) s7" .
    have "main C img s = Some s7"
      using b(1-3) s6(1) by (simp add: main_def s7_def Let_def)
    moreover have "lin s7 (L_USER_START + of_nat i) = img ! i" if "i < length img" for i
    proof -
      note a = user_range_addr [OF r that]
      have "user_addr (L_USER_START + of_nat i)"
        using a(1) r that by (simp add: user_addr_def user_range_def)
      moreover have "lin s7 = lin s6" by (rule ext) (simp add: lin_def s7_def translate_def split: option.split)
      ultimately show ?thesis using a(1) that by (simp add: s6(3))
    qed
    ultimately show thesis
      using that inv t6 by (simp add: s7_def current_def)
  qed
qed

section \<open>Reachable states\<close>

definition reachable :: "kcfg \<Rightarrow> game \<Rightarrow> bool" where
  "reachable C s \<longleftrightarrow> (\<exists>img s0 s1. power_on s0 \<and> length img \<le> 28 * PAGE_SIZE \<and>
     main C img s0 = Some s1 \<and> kreach C s1 s)"

lemma reachable_kinv:
  assumes "cfg_ok C" and "reachable C s"
  obtains fs rs idle F K where "kinv_at C fs rs idle F K s"
proof -
  from assms(2) obtain img s0 s1 where r: "power_on s0" "length img \<le> 28 * PAGE_SIZE"
      "main C img s0 = Some s1" "kreach C s1 s"
    unfolding reachable_def by blast
  have "kinv C s1"
    by (rule boot_main [OF assms(1) r(1,2)]) (use r(3) in \<open>auto intro: kinvI\<close>)
  from kinv_reach [OF assms(1) r(4) this] show thesis using that unfolding kinv_def by blast
qed

lemma reachable_step: "reachable C s \<Longrightarrow> kstep C s s' \<Longrightarrow> reachable C s'"
  unfolding reachable_def by (blast intro: kreach.step)

lemma reachable_main:
  "power_on s \<Longrightarrow> length img \<le> 28 * PAGE_SIZE \<Longrightarrow> main C img s = Some s' \<Longrightarrow> reachable C s'"
  unfolding reachable_def by (blast intro: kreach.start)

section \<open>A concrete kernel\<close>

text \<open>
  The parameters instantiated: a placement of the tables in kernel memory, frames of 20
  words, a library clock that prints nothing, zeros behind \<open>char_map\<close>; and a static state
  of the machine before boot.
\<close>

definition game_cfg :: kcfg where
  "game_cfg = \<lparr>PAG_LOG_INIT_CODE = 256, PAG_LOG_INIT_DATA = 264, dir_pages_at = 32,
     pagusr_table_at = 48, protected_tasks_at = 64, frame_words = (\<lambda>_. 20),
     zeos_show_clock = (\<lambda>sc. sc), after_char_map = (\<lambda>_. 0)\<rparr>"

definition blank_game :: game where
  "blank_game = \<lparr>phys_mem = replicate 1024 0, pt = (\<lambda>_ _. 0), cr3 = 0, cr0 = 0,
     fmem = (\<lambda>_ _. 0), stacks = (\<lambda>_ _. Num 0), links = \<lparr>nxt = (\<lambda>_. None), prv = (\<lambda>_. None)\<rparr>,
     esp = (0, 0), ebp = Num 0, ebx = Num 0, esi = Num 0, edi = Num 0, eax = 0, eip = Num 0,
     tss_esp0 = (0, 0), msr_175 = (0, 0), tsc = (\<lambda>n. (of_nat n, 0)), tsc_pos = 0,
     scr = initial_screen (\<lambda>_. 0),
     tasks = (\<lambda>_. \<lparr>PID = 0, dir_pages_baseAddr = 0, register_esp = None, state = ST_RUN,
       total_quantum = 0, p_stats = \<lparr>user_ticks = 0, system_ticks = 0, blocked_ticks = 0,
         ready_ticks = 0, elapsed_total_ticks = 0, total_trans = 0, remaining_ticks = 0\<rparr>\<rparr>),
     remaining_quantum = 0, idle_task = None, global_PID = 1000, zeos_ticks = 0,
     k_buffer = \<lparr>events = replicate 16 \<lparr>pressed = 0, scancode = 0\<rparr>, kb_head = 0, kb_tail = 0\<rparr>,
     keyboard_vec = replicate 128 0\<rparr>"

lemma game_cfg_ok: "cfg_ok game_cfg"
  by (simp add: cfg_ok_def game_layout_def stack_room_def game_cfg_def mm_consts)

lemma blank_game_on: "power_on blank_game"
  by (simp add: power_on_def blank_game_def TOTAL_PAGES_def)

text \<open>The state after boot, and after the first process has created a second one.\<close>

definition booted :: game where
  "booted = the (main game_cfg [] blank_game)"

definition two_procs :: game where
  "two_procs = the (system_call_handler game_cfg 2 (0, 0, 0) booted)"

lemma booted_kinv:
  obtains F K where "kinv_at game_cfg [2..<NR_TASKS] [] 0 F K booted" and "current booted = 1"
    and "global_PID booted = 1000" and "main game_cfg [] blank_game = Some booted"
    and "register_esp (tasks booted 1) = None"
proof (rule boot_main [OF game_cfg_ok blank_game_on, of "[]"])
  fix s' F K
  assume s': "main game_cfg [] blank_game = Some s'" "kinv_at game_cfg [2..<NR_TASKS] [] 0 F K s'"
    "current s' = 1" "global_PID s' = 1000" "register_esp (tasks s' 1) = register_esp (tasks blank_game 1)"
  then have "s' = booted" by (simp add: booted_def)
  moreover have "register_esp (tasks blank_game 1) = None" by (simp add: blank_game_def)
  ultimately show thesis using s' by (intro that) simp_all
qed simp

lemma booted_reachable: "reachable game_cfg booted"
proof (rule booted_kinv)
  assume "main game_cfg [] blank_game = Some booted"
  then show ?thesis by (rule reachable_main [OF blank_game_on, rotated]) simp
qed

lemma forked_same:
  assumes "forked C p c ix gs Fp s s'"
  shows "esp s' = esp s" "idle_task s' = idle_task s" "cr3 s' = cr3 s" "scr s' = scr s"
    "k_buffer s' = k_buffer s" "remaining_quantum s' = remaining_quantum s"
proof -
  have all: "s' = s\<lparr>phys_mem := phys_mem s', pt := pt s', fmem := fmem s', global_PID := global_PID s',
       links := links s', tsc_pos := tsc_pos s', stacks := stacks s', tasks := tasks s'\<rparr>"
    using assms unfolding forked_def by blast
  show "esp s' = esp s" "idle_task s' = idle_task s" "cr3 s' = cr3 s" "scr s' = scr s"
    "k_buffer s' = k_buffer s" "remaining_quantum s' = remaining_quantum s"
    by (subst all, simp)+
qed

lemma two_procs_kinv:
  obtains F K where "kinv_at game_cfg [3..<NR_TASKS] [2] 0 F K two_procs" and "current two_procs = 1"
    and "system_call_handler game_cfg 2 (0, 0, 0) booted = Some two_procs"
proof (rule booted_kinv)
  fix F K
  assume k: "kinv_at game_cfg [2..<NR_TASKS] [] 0 F K booted" and c: "current booted = 1"
    and g: "global_PID booted = 1000"
  have l: "[2..<NR_TASKS] = 2 # [3..<NR_TASKS]" by (simp add: NR_TASKS_def upt_rec)
  have g': "global_PID booted < 2 ^ 31 - 1" using g by simp
  show thesis
  proof (rule kinv_fork [OF k [unfolded l] game_cfg_ok refl _ g', of "(0, 0, 0)"])
    show "current booted \<noteq> 0" using c by simp
    fix gs s1 s'
    assume s': "do_syscall game_cfg Fork (0, 0, 0) (sysenter booted) = Some s'"
      "kinv_at game_cfg [3..<NR_TASKS] ([] @ [2]) 0 (F(2 := (!) gs)) K s'"
      "forked game_cfg (current booted) 2 1006 gs (F (current booted)) (in_fork (current booted) booted) s1"
      "s' = drop_words 18 (s1\<lparr>ebp := ebp booted, eax := global_PID booted + 1\<rparr>)"
    from s'(1) have sc: "system_call_handler game_cfg 2 (0, 0, 0) booted = Some s'"
      by (simp add: system_call_handler_def MAX_SYSCALL_def length_sys_call_table)
    then have e: "s' = two_procs" by (simp add: two_procs_def)
    have "esp s1 = (1, 1006)" using forked_same(1) [OF s'(3)] c by (simp add: in_fork_def)
    then have "current s' = 1" by (simp add: s'(4) drop_words_def current_def)
    with s'(2) sc show thesis by (intro that) (simp_all add: e)
  qed
qed

lemma two_procs_reachable: "reachable game_cfg two_procs"
proof (rule two_procs_kinv)
  assume sc: "system_call_handler game_cfg 2 (0, 0, 0) booted = Some two_procs"
  show ?thesis
  proof (rule booted_kinv)
    fix F K
    assume k: "kinv_at game_cfg [2..<NR_TASKS] [] 0 F K booted" "current booted = 1" "global_PID booted = 1000"
    then have "\<not> in_idle booted"
      using sched_invD(2) by (fastforce simp: kinv_at_def in_idle_def)
    from kstep.syscall [OF this sc] k(3) have "kstep game_cfg booted two_procs" by simp
    then show ?thesis by (rule reachable_step [OF booted_reachable])
  qed
qed

end
