(* ===== verification/Game_Facts.thy ===== *)
theory Game_Facts
  imports Game_Boot
begin

text \<open>
  Consequences of the invariant of the \<^verbatim>\<open>GAME\<close> kernel: the address spaces of the processes,
  what \<open>fork\<close> and \<open>exit\<close> do to them, sequences of clock ticks, and the calls that lead
  the kernel astray.
\<close>

section \<open>Clock ticks\<close>

fun clock_ticks :: "kcfg \<Rightarrow> nat \<Rightarrow> game \<Rightarrow> game option" where
  "clock_ticks C 0 s = Some s"
| "clock_ticks C (Suc n) s = do { s \<leftarrow> clock_handler C s; clock_ticks C n s }"

lemma kinv_ticks:
  assumes "kinv_at C fs rs idle F K s" and "cfg_ok C"
  shows "\<exists>s' rs'. clock_ticks C n s = Some s' \<and> kinv_at C fs rs' idle F K s' \<and>
    rr_abs s' rs' = (rr_tick ^^ n) (rr_abs s rs)"
  using assms(1)
proof (induction n arbitrary: s rs)
  case 0
  then show ?case by auto
next
  case (Suc n)
  show ?case
  proof (rule kinv_clock [OF Suc.prems assms(2)])
    fix s1 rs1
    assume s1: "clock_handler C s = Some s1" "kinv_at C fs rs1 idle F K s1"
      "rr_abs s1 rs1 = rr_tick (rr_abs s rs)"
    from Suc.IH [OF s1(2)] s1(1,3) show ?case
      by (auto simp: funpow_Suc_right simp del: funpow.simps)
  qed
qed

lemma rr_tick_wait: "0 < q \<Longrightarrow> (rr_tick ^^ nat (q - 1)) (c, rs, q) = (c, rs, 1)"
proof (induction "nat (q - 1)" arbitrary: q)
  case (Suc n)
  then have q: "q \<noteq> 1" "n = nat (q - 1 - 1)" "0 < q - 1" by auto
  have "(rr_tick ^^ Suc n) (c, rs, q) = (rr_tick ^^ n) (c, rs, q - 1)"
    using q(1) by (simp add: funpow_Suc_right del: funpow.simps)
  with Suc.hyps(1) [OF q(2,3)] q(2) Suc.hyps(2) show ?case by (metis Suc.hyps(2))
qed simp

lemma rr_tick_expire:
  "0 < q \<Longrightarrow> (rr_tick ^^ nat q) (c, t # rs, q) = (t, rs @ [c], DEFAULT_QUANTUM)"
proof -
  assume "0 < q"
  then have "nat q = Suc (nat (q - 1))" by simp
  with rr_tick_wait [OF \<open>0 < q\<close>, of c "t # rs"] show ?thesis by simp
qed

lemma rr_tick_turn:
  "0 < q \<Longrightarrow> (rr_tick ^^ (nat q + 10 * length xs)) (c, xs @ t # ys, q) =
     (t, ys @ c # xs, DEFAULT_QUANTUM)"
proof (induction xs arbitrary: c q ys)
  case Nil
  then show ?case by (simp add: rr_tick_expire)
next
  case (Cons x xs)
  have "(rr_tick ^^ (nat q + 10 * length (x # xs))) (c, (x # xs) @ t # ys, q) =
      (rr_tick ^^ (nat DEFAULT_QUANTUM + 10 * length xs)) ((rr_tick ^^ nat q) (c, x # xs @ t # ys, q))"
  proof -
    have n: "nat q + 10 * length (x # xs) = (nat DEFAULT_QUANTUM + 10 * length xs) + nat q"
      by (simp add: DEFAULT_QUANTUM_def)
    show ?thesis unfolding n funpow_add comp_apply by simp
  qed
  also have "\<dots> = (t, (ys @ [c]) @ x # xs, DEFAULT_QUANTUM)"
    using Cons.IH [of DEFAULT_QUANTUM x "ys @ [c]"] Cons.prems
    by (simp add: rr_tick_expire DEFAULT_QUANTUM_def)
  finally show ?case by simp
qed

section \<open>Address spaces\<close>

definition sees :: "kcfg \<Rightarrow> nat \<Rightarrow> game \<Rightarrow> memory" where
  "sees C t s = lin (set_cr3 (dir_page C t) s)"

definition frame_of :: "kcfg \<Rightarrow> nat \<Rightarrow> nat \<Rightarrow> game \<Rightarrow> DWord option" where
  "frame_of C t p s = translate (set_cr3 (dir_page C t) s) p"

lemma usersD:
  assumes "t \<in> users fs idle"
  shows "t < NR_TASKS" and "t \<notin> set fs" and "t \<noteq> idle"
  using assms by (auto simp: users_def live_def)

lemma frame_of_user:
  assumes "mem_inv C (users fs idle) F K s" and "game_layout C" and "t \<in> users fs idle"
    and "256 \<le> p" and "p < 284"
  shows "frame_of C t p s = Some (of_nat (user_frame F K t p))"
  using space_translated [OF assms(1,2,3) usersD(1) [OF assms(3)] assms(4,5)]
  by (simp add: frame_of_def user_frame_def)

lemma sees_user:
  assumes "mem_inv C (users fs idle) F K s" and "game_layout C" and "t \<in> users fs idle" and "user_addr x"
  shows "sees C t s x = fmem s (of_nat (user_frame F K t (unat x div PAGE_SIZE))) (unat x mod PAGE_SIZE)"
  using frame_of_user [OF assms(1-3) user_addr_page [OF assms(4)]]
  by (simp add: sees_def lin_def frame_of_def set_cr3_def)

text \<open>A data frame belongs to one page of one process.\<close>

lemma data_frames_private:
  assumes mem: "mem_inv C (users fs idle) F K s" and lay: "game_layout C"
    and tu: "t \<in> users fs idle" "u \<in> users fs idle"
    and p: "264 \<le> p" "p < 284" and q: "256 \<le> q" "q < 284"
    and eq: "frame_of C t p s = frame_of C u q s"
  shows "t = u \<and> p = q"
proof -
  have part: "frames_partition (users fs idle) F K s" using mem by (simp add: mem_inv_def)
  have b: "user_frame F K t p < TOTAL_PAGES" "user_frame F K u q < TOTAL_PAGES"
    using user_frame_bound [OF part] tu p q by simp_all
  have "of_nat (user_frame F K t p) = (of_nat (user_frame F K u q) :: DWord)"
    using eq frame_of_user [OF mem lay] tu p q by simp
  then have f: "F t (p - 264) = user_frame F K u q"
    using unat_frame [OF b(1)] unat_frame [OF b(2)] p(1) by (metis not_less user_frame_def)
  have own: "F t (p - 264) \<in> owned F (users fs idle)"
    using tu p by (intro ownedI) (simp_all add: NUM_PAG_DATA_def)
  have "264 \<le> q"
  proof (rule ccontr)
    assume "\<not> 264 \<le> q"
    then have "user_frame F K u q \<in> K ` {..<NUM_PAG_CODE}"
      using q by (simp add: user_frame_def NUM_PAG_CODE_def)
    with own f part show False by (auto simp: frames_partition_def)
  qed
  then have "(\<lambda>(t, i). F t i) (t, p - 264) = (\<lambda>(t, i). F t i) (u, q - 264)"
    using f by (simp add: user_frame_def)
  moreover have inj: "inj_on (\<lambda>(t, i). F t i) (users fs idle \<times> {..<NUM_PAG_DATA})"
    using part by (simp add: frames_partition_def)
  ultimately have "(t, p - 264) = (u, q - 264)"
    using tu p q \<open>264 \<le> q\<close> by (rule_tac inj_onD [OF inj]) (simp_all add: NUM_PAG_DATA_def)
  then have "t = u" "p - 264 = q - 264" by simp_all
  with p \<open>264 \<le> q\<close> show ?thesis by linarith
qed

section \<open>Fork and exit\<close>

lemma call_2: "system_call_handler C 2 args s = do_syscall C Fork args (sysenter s)"
  and call_1: "system_call_handler C 1 args s = do_syscall C Exit args (sysenter s)"
  and call_13: "system_call_handler C 13 args s = do_syscall C Yield args (sysenter s)"
  and call_4: "system_call_handler C 4 args s = do_syscall C Write args (sysenter s)"
  and call_5: "system_call_handler C 5 args s = do_syscall C PollEvent args (sysenter s)"
  and call_35: "system_call_handler C 35 args s = do_syscall C GetStats args (sysenter s)"
  by (simp_all add: system_call_handler_def MAX_SYSCALL_def length_sys_call_table)

lemma fresh_frames:
  assumes "f < TOTAL_PAGES" and "f \<notin> avail s" and "set gs \<subseteq> avail s"
  shows "(of_nat f :: DWord) \<notin> of_nat ` set gs"
proof
  assume "(of_nat f :: DWord) \<in> of_nat ` set gs"
  then obtain g where "g \<in> set gs" "(of_nat f :: DWord) = of_nat g" by auto
  with assms avail_bound unat_frame show False by (metis subsetD)
qed

lemma user_frame_taken:
  assumes part: "frames_partition U F K s" and t: "t \<in> U" and q: "256 \<le> q" "q < 284"
  shows "user_frame F K t q \<notin> avail s"
proof (cases "q < 264")
  case True
  then have "user_frame F K t q \<in> K ` {..<NUM_PAG_CODE}"
    using q by (simp add: user_frame_def NUM_PAG_CODE_def)
  with part show ?thesis by (auto simp: frames_partition_def)
next
  case False
  then have "user_frame F K t q \<in> owned F U"
    using t q ownedI [of t U "q - 264" F] by (simp add: user_frame_def NUM_PAG_DATA_def)
  with part show ?thesis by (auto simp: frames_partition_def)
qed

lemma fork_spaces:
  assumes inv: "kinv_at C (c # fs) rs idle F K s" and C: "cfg_ok C"
    and p: "p = current s" "p \<noteq> idle" and g: "global_PID s < 2 ^ 31 - 1"
  obtains F' s' where "system_call_handler C 2 args s = Some s'" and "kinv_at C fs (rs @ [c]) idle F' K s'"
    and "eax s' = global_PID s + 1" and "PID (tasks s' c) = global_PID s + 1" and "current s' = p"
    and "\<And>x. user_addr x \<Longrightarrow> sees C c s' x = sees C p s x"
    and "\<And>t x. t \<in> users (c # fs) idle \<Longrightarrow> user_addr x \<Longrightarrow> sees C t s' x = sees C t s x"
    and "register_esp (tasks s' c) = Some (c, 1005)" and "stacks s' c 1005 = ebp s"
    and "stacks s' c 1006 = CodeAddr ''ret_from_fork''"
    and "stacks s' c 1007 = CodeAddr ''system_call_handler''"
proof (rule kinv_fork [OF inv C p g, of args])
  fix gs s1 s'
  assume s': "do_syscall C Fork args (sysenter s) = Some s'"
    "kinv_at C fs (rs @ [c]) idle (F(c := (!) gs)) K s'"
    "forked C p c 1006 gs (F p) (in_fork p s) s1"
    "s' = drop_words 18 (s1\<lparr>ebp := ebp s, eax := global_PID s + 1\<rparr>)"
  let ?U = "users (c # fs) idle" and ?U' = "users fs idle" and ?F' = "F(c := (!) gs)"
  have lay: "game_layout C" and mem: "mem_inv C ?U F K s" and mem': "mem_inv C ?U' ?F' K s'"
    and part: "frames_partition ?U F K s" and pid: "pid_inv (c # fs) s"
    using inv s'(2) C by (simp_all add: kinv_at_def cfg_ok_def mem_inv_def)
  note sc = inv [unfolded kinv_at_def, THEN conjunct1]
  note i = sched_invD [OF sc]
  have c: "c \<notin> set fs" "c < NR_TASKS" "c \<noteq> idle" "p \<in> ?U" "c \<notin> ?U" "c \<in> ?U'" "?U \<subseteq> ?U'"
    using task_queues_distinct [OF i(1)] i(3,4,6) p by (auto simp: users_def live_def)
  have gs: "length gs = NUM_PAG_DATA" "set gs \<subseteq> avail s"
    and data: "\<And>i. i < NUM_PAG_DATA \<Longrightarrow> fmem s1 (of_nat (gs ! i)) = fmem s (of_nat (F p i))"
    and keep: "\<And>f. f \<notin> of_nat ` set gs \<Longrightarrow> fmem s1 f = fmem s f"
    and tsk: "PID (tasks s1 c) = c_int (global_PID s + 1)" "register_esp (tasks s1 c) = Some (c, 1005)"
    and stk: "stacks s1 c 1005 = ebp s" "stacks s1 c 1006 = CodeAddr ''ret_from_fork''"
      "stacks s1 c 1007 = CodeAddr ''system_call_handler''"
    using s'(3) unfolding forked_def by (auto simp: in_fork_def avail_def)
  have old: "fmem s' (of_nat (user_frame F K t q)) = fmem s (of_nat (user_frame F K t q))"
    if "t \<in> ?U" "256 \<le> q" "q < 284" for t q
    using keep [OF fresh_frames [OF user_frame_bound [OF part that] user_frame_taken [OF part that] gs(2)]]
    by (simp add: s'(4) drop_words_def)
  have new: "fmem s' (of_nat (user_frame ?F' K c q)) = fmem s (of_nat (user_frame F K p q))"
    if "256 \<le> q" "q < 284" for q
  proof (cases "q < 264")
    case True
    then show ?thesis using old [OF c(4) that] by (simp add: user_frame_def)
  next
    case False
    then show ?thesis
      using data [of "q - 264"] that by (simp add: user_frame_def NUM_PAG_DATA_def s'(4) drop_words_def)
  qed
  have same: "user_frame ?F' K t q = user_frame F K t q" if "t \<in> ?U" for t q
    using that c(5) by (auto simp: user_frame_def)
  have "eax s' = global_PID s + 1" "PID (tasks s' c) = global_PID s + 1" "current s' = p"
    "register_esp (tasks s' c) = Some (c, 1005)" "stacks s' c = stacks s1 c"
    using pid g tsk forked_same(1) [OF s'(3)]
    by (simp_all add: s'(4) drop_words_def current_def in_fork_def pid_inv_def)
  moreover have "sees C c s' x = sees C p s x" if "user_addr x" for x
    using new user_addr_page [OF that] by (simp add: sees_user [OF mem lay c(4) that] sees_user [OF mem' lay c(6) that])
  moreover have "sees C t s' x = sees C t s x" if "t \<in> ?U" "user_addr x" for t x
    using old [OF that(1)] user_addr_page [OF that(2)] c(7) that
    by (simp add: sees_user [OF mem lay that] sees_user [OF mem' lay] same subset_eq)
  ultimately show thesis
    using that [of s' ?F'] s'(1,2) stk by (simp add: call_2)
qed

text \<open>A process can fork until every slot is taken.\<close>

lemma fork_all_slots:
  assumes "kinv_at C fs rs idle F K s" and "cfg_ok C" and "current s \<noteq> idle"
    and "global_PID s + int (length fs) < 2 ^ 31"
  shows "\<exists>rs' F' s'. kinv_at C [] rs' idle F' K s' \<and> length rs' = length fs + length rs"
  using assms(1,3,4)
proof (induction fs arbitrary: rs F s)
  case (Cons c fs)
  have g: "global_PID s < 2 ^ 31 - 1" using Cons.prems(3) by simp
  show ?case
  proof (rule kinv_fork [OF Cons.prems(1) assms(2) refl Cons.prems(2) g, of "(0, 0, 0)"])
    fix gs s1 s'
    assume s': "kinv_at C fs (rs @ [c]) idle (F(c := (!) gs)) K s'"
      "forked C (current s) c 1006 gs (F (current s)) (in_fork (current s) s) s1"
      "s' = drop_words 18 (s1\<lparr>ebp := ebp s, eax := global_PID s + 1\<rparr>)"
    have "0 \<le> global_PID s" using Cons.prems(1) by (simp add: kinv_at_def pid_inv_def)
    then have "global_PID s' = global_PID s + 1"
      using s'(2,3) g by (simp add: forked_def in_fork_def drop_words_def)
    moreover have "current s' = current s"
      using forked_same(1) [OF s'(2)] by (simp add: s'(3) drop_words_def current_def in_fork_def)
    ultimately show ?case using Cons.IH [OF s'(1)] Cons.prems(2,3) by auto
  qed
qed auto

section \<open>Calls that lead the kernel astray\<close>

lemma sched_next_unsaved:
  assumes "task_queues (links s) fs rs" and "idle_task s = Some idle" and "esp s = (c, k + 7)"
    and "register_esp (tasks s (next_task rs idle)) = None"
  shows "sched_next_rr s = None"
proof -
  let ?t = "next_task rs idle"
  obtain h where pick: "pick_next s = Some (?t, s\<lparr>links := h\<rparr>)"
    using pick_next_spec [OF assms(1,2)] by blast
  have switch: "task_switch t s' = None"
    if "register_esp (tasks s' t) = None" "esp s' = (c, k + 7)" for s' t
    using that by (simp add: task_switch_def inner_task_switch_def task_switch_entry_at Let_def set_cr3_def)
  define s0 where "s0 = upd_task ?t (state_update (\<lambda>_. ST_RUN)) (s\<lparr>links := h\<rparr>)"
  define s1 where "s1 = s0\<lparr>remaining_quantum := get_quantum ?t s0\<rparr>"
  have "current s1 = current s" by (simp add: s1_def s0_def)
  obtain n1 where n1: "update_stats system_ticks_update (current s) s1 =
      Some (upd_task (current s) (p_stats_update (charge system_ticks_update n1))
        (s1\<lparr>tsc_pos := tsc_pos s1 + 1\<rparr>))"
    using update_stats_step by blast
  define s2 where "s2 = upd_task (current s) (p_stats_update (charge system_ticks_update n1))
        (s1\<lparr>tsc_pos := tsc_pos s1 + 1\<rparr>)"
  obtain n2 where n2: "update_stats ready_ticks_update ?t s2 =
      Some (upd_task ?t (p_stats_update (charge ready_ticks_update n2)) (s2\<lparr>tsc_pos := tsc_pos s2 + 1\<rparr>))"
    using update_stats_step by blast
  define s3 where "s3 = upd_task ?t (p_stats_update (total_trans_update (\<lambda>n. n + 1)))
     (upd_task ?t (p_stats_update (charge ready_ticks_update n2)) (s2\<lparr>tsc_pos := tsc_pos s2 + 1\<rparr>))"
  have "sched_next_rr s = task_switch ?t s3"
    unfolding sched_next_rr_def pick
    by (simp add: Let_def s0_def [symmetric] s1_def [symmetric] \<open>current s1 = current s\<close>
        n1 [folded s2_def] n2 s3_def)
  moreover have "register_esp (tasks s3 ?t) = None" "esp s3 = (c, k + 7)"
    using assms(3,4) by (auto simp: s3_def s2_def s1_def s0_def upd_task_def)
  ultimately show ?thesis using switch by simp
qed

text \<open>
  A process that yields while no other task is ready is chosen again and resumed from the
  stack pointer saved the last time it was suspended: there is none in a process that has
  never been suspended.
\<close>

lemma yield_alone:
  assumes inv: "sched_inv C fs [] idle s" and room: "stack_room C"
    and none: "register_esp (tasks s (current s)) = None"
  shows "system_call_handler C 13 args s = None"
proof -
  note i = sched_invD [OF inv]
  define c where "c = current s"
  define k where "k = KERNEL_STACK_SIZE - 16 - frame_words C ''sys_yield'' - 8"
  have "frame_words C ''sys_yield'' \<le> 900" using room by (simp add: stack_room_def)
  then have k: "KERNEL_STACK_SIZE - 16 = frame_words C ''sys_yield'' + k + 8"
    by (simp_all add: k_def KERNEL_STACK_SIZE_def)
  define s1 where "s1 = call_path C ''sys_yield'' (sysenter s)"
  have s1: "s1 = (sysenter s)\<lparr>stacks := (stacks s)(c := (stacks s c)(k + 7 := CodeAddr ''sys_yield'')),
      esp := (c, k + 7)\<rparr>"
    unfolding s1_def using sysenter_at [OF inv] by (subst call_path_at [where k = k]) (simp_all add: k c_def)
  have f: "links s1 = links s" "tasks s1 = tasks s" "current s1 = c" "idle_task s1 = Some idle"
    "esp s1 = (c, k + 7)"
    using i(2) by (simp_all add: s1 sysenter_def current_def)
  obtain s2 where s2: "update_process_state_rr c (Some Readyqueue) s1 = Some s2"
    "task_queues (links s2) fs ([] @ [c])" "frame_sched s1 s2"
    "frame_queue (s1\<lparr>links := links s2, tasks := (tasks s1)(c := (tasks s1 c)\<lparr>state := ST_READY\<rparr>)\<rparr>) s2"
    "esp s2 = esp s1"
    using update_process_ready [of s1 fs "[]" c] i(1,4,5,7) by (metis c_def f(1,2))
  have "sched_next_rr s2 = None"
  proof (rule sched_next_unsaved)
    show "task_queues (links s2) fs [c]" using s2(2) by simp
    show "idle_task s2 = Some idle" using s2(3) f by (simp add: frame_sched_def)
    show "esp s2 = (c, k + 7)" using s2(5) f by simp
    show "register_esp (tasks s2 (next_task [c] idle)) = None"
      using s2(4) none f by (simp add: frame_queue_def next_task_def c_def)
  qed
  then have "sys_yield s1 = None" using s2(1) f by (simp add: sys_yield_def force_task_switch_def)
  then show ?thesis by (simp add: call_13 s1_def)
qed

lemma write_unmapped:
  assumes "translate s 284 = None"
  shows "access_ok VERIFY_READ 0x11C000 1 \<noteq> 0" and "sys_write 1 0x11C000 1 s = None"
proof -
  show ok: "access_ok VERIFY_READ 0x11C000 1 \<noteq> 0" by (simp add: access_ok_iff)
  have "unat (0x11C000 :: DWord) div PAGE_SIZE = 284" by (simp add: PAGE_SIZE_def)
  then have "\<not> readable 0x11C000 1 s" using assms by (simp add: readable_def)
  then have "copy_in 0x11C000 1 s = None" by (simp add: copy_in_def)
  with ok show "sys_write 1 0x11C000 1 s = None"
    by (simp add: sys_write_def check_fd_def ESCRIPTURA_def write_chunks.simps TAM_BUFFER_def)
qed

section \<open>Calls that return\<close>

text \<open>
  The arguments for which a system call cannot leave the user pages: \<open>access_ok\<close> rejects the
  buffer or the buffer lies in the 28 mapped pages.
\<close>

definition safe_buffer :: "DWord \<Rightarrow> nat \<Rightarrow> bool" where
  "safe_buffer a n \<longleftrightarrow> access_ok VERIFY_READ a (of_nat n) = 0 \<or> user_range a n"

definition safe_call :: "int \<Rightarrow> int \<times> DWord \<times> int \<Rightarrow> game \<Rightarrow> bool" where
  "safe_call n args s \<longleftrightarrow> (case args of (a, b, c) \<Rightarrow>
     n \<noteq> MAX_SYSCALL \<and>
     (n = 13 \<longrightarrow> list_empty (Some Readyqueue) (links s) = Some False) \<and>
     (n = 2 \<longrightarrow> global_PID s < 2 ^ 31 - 1) \<and>
     (n = 4 \<longrightarrow> a \<noteq> 1 \<or> c < 0 \<or> safe_buffer b (nat c)) \<and>
     (n = 5 \<longrightarrow> safe_buffer (word_of_int a) 128) \<and>
     (n = 35 \<longrightarrow> safe_buffer b 28))"

lemma user_range_readable:
  assumes inv: "kinv_at C fs rs idle F K s" and C: "cfg_ok C" and u: "current s \<noteq> idle"
    and s1: "pt s1 = pt s" "cr3 s1 = cr3 s" and r: "user_range a n"
  shows "readable a n s1"
proof -
  have sc: "sched_inv C fs rs idle s" and mem: "mem_inv C (users fs idle) F K s" and lay: "game_layout C"
    using inv C by (simp_all add: kinv_at_def cfg_ok_def)
  have tU: "current s \<in> users fs idle" using u sched_invD(3,4) [OF sc] by (auto simp: users_def live_def)
  have "translate s1 (unat (a + of_nat i) div PAGE_SIZE) \<noteq> None" if "i < n" for i
    using user_page_translated [OF sc mem lay tU user_range_addr(2,3) [OF r that]] s1
    by (simp add: translate_def split: if_splits)
  then show ?thesis by (auto simp: readable_def list_all_iff)
qed

lemma table_cases:
  "i < 36 \<Longrightarrow> i \<in> {1, 2, 4, 5, 10, 13, 20, 35} \<or> sys_call_table ! i = NiSyscall"
  by (auto simp: sys_call_table_def nth_list_update)

lemma sysexit_total: "(\<exists>s'. sysexit r = Some s') \<longleftrightarrow> r \<noteq> None"
  by (auto simp: sysexit_def)

lemma safe_write:
  assumes "kinv_at C fs rs idle F K s" and "cfg_ok C" and "current s \<noteq> idle"
    and "pt s1 = pt s" "cr3 s1 = cr3 s" and "a \<noteq> 1 \<or> n < 0 \<or> safe_buffer b (nat n)"
  shows "sys_write a b n s1 \<noteq> None"
proof (cases "a \<noteq> 1 \<or> n < 0 \<or> access_ok VERIFY_READ b (word_of_int n) = 0")
  case True
  then show ?thesis by (auto simp: sys_write_def check_fd_def ESCRIPTURA_def EBADF_def)
next
  case False
  then obtain k where n: "n = int k" by (metis nonneg_int_cases not_less)
  with False assms(6) have ok: "access_ok VERIFY_READ b (of_nat k) \<noteq> 0" "user_range b k" "a = 1"
    by (simp_all add: safe_buffer_def)
  have r: "readable b k s1" by (rule user_range_readable [OF assms(1-5) ok(2)])
  show ?thesis using sys_write_readable [OF r ok(1)] ok(3) n by simp
qed

lemma safe_poll:
  assumes "kinv_at C fs rs idle F K s" and "cfg_ok C" and "current s \<noteq> idle"
    and "pt s1 = pt s" "cr3 s1 = cr3 s" "keyboard_vec s1 = keyboard_vec s" and "safe_buffer b 128"
  shows "sys_pollEvent b s1 \<noteq> None"
proof (cases "access_ok VERIFY_WRITE b 128 = 0")
  case False
  then have r: "user_range b (length (keyboard_vec s1))"
    using assms(1,6,7) by (simp add: safe_buffer_def kinv_at_def access_type_irrelevant(2) [of VERIFY_WRITE])
  show ?thesis
    by (rule copy_out_user [OF assms(1-5) r]) (auto simp: sys_pollEvent_def)
qed (simp add: sys_pollEvent_def)

lemma length_stats_bytes: "length (stats_bytes st) = 28"
  by (simp add: stats_bytes_def dword_bytes_def)

lemma safe_stats:
  assumes "kinv_at C fs rs idle F K s" and "cfg_ok C" and "current s \<noteq> idle"
    and "pt s1 = pt s" "cr3 s1 = cr3 s" and "safe_buffer b 28"
  shows "sys_get_stats pid b s1 \<noteq> None"
proof (cases "access_ok VERIFY_WRITE b 28 = 0 \<or> pid < 0 \<or> find_pid pid s1 = None")
  case False
  then obtain i where i: "find_pid pid s1 = Some i" "access_ok VERIFY_WRITE b 28 \<noteq> 0" "\<not> pid < 0" by auto
  let ?s = "upd_task i (p_stats_update (remaining_ticks_update (\<lambda>_. word_of_int (remaining_quantum s1)))) s1"
  have p: "pt ?s = pt s" "cr3 ?s = cr3 s" using assms(4,5) by (simp_all add: upd_task_def)
  have r: "user_range b (length (stats_bytes (p_stats (tasks ?s i))))"
    using assms(6) i(2) by (simp add: safe_buffer_def length_stats_bytes access_type_irrelevant(2) [of VERIFY_WRITE])
  show ?thesis
    by (rule copy_out_user [OF assms(1-3) p r]) (use i in \<open>simp add: sys_get_stats_def Let_def\<close>)
qed (auto simp: sys_get_stats_def)

lemma safe_fork:
  assumes inv: "kinv_at C fs rs idle F K s" and C: "cfg_ok C" and u: "current s \<noteq> idle"
    and g: "global_PID s < 2 ^ 31 - 1"
  shows "\<exists>s'. do_syscall C (sys_call_table ! 2) args (sysenter s) = Some s'"
proof (cases fs)
  case Nil
  then show ?thesis using kinv_fork_full(1) [of C rs idle F K s args] inv by simp
next
  case (Cons c' fs')
  show ?thesis by (rule kinv_fork [OF inv [unfolded Cons] C refl u g, of args]) simp
qed

lemma safe_returns:
  assumes inv: "kinv_at C fs rs idle F K s" and C: "cfg_ok C" and u: "current s \<noteq> idle"
    and safe: "safe_call n args s"
  shows "\<exists>s'. system_call_handler C n args s = Some s'"
proof (cases "n < 0 \<or> n > 36")
  case True
  then show ?thesis
    by (auto simp: system_call_handler_def Let_def MAX_SYSCALL_def length_sys_call_table sysexit_def)
next
  case False
  obtain a b c where args: "args = (a, b, c)" by (cases args)
  have sc: "sched_inv C fs rs idle s" using inv by (simp add: kinv_at_def)
  have "nat n < 36" "n = int (nat n)"
    using False safe by (auto simp: safe_call_def args MAX_SYSCALL_def length_sys_call_table)
  then have h: "system_call_handler C n args s = do_syscall C (sys_call_table ! nat n) args (sysenter s)"
    using False by (simp add: system_call_handler_def MAX_SYSCALL_def length_sys_call_table Let_def)
  have p: "pt (sysenter s) = pt s" "cr3 (sysenter s) = cr3 s" "keyboard_vec (sysenter s) = keyboard_vec s"
    by (simp_all add: sysenter_def)
  from table_cases [OF \<open>nat n < 36\<close>]
  consider (ni) "sys_call_table ! nat n = NiSyscall" | (exit) "nat n = 1" | (fork) "nat n = 2"
    | (console) "nat n = 4" | (poll) "nat n = 5" | (time) "nat n = 10" | (yield) "nat n = 13"
    | (pid) "nat n = 20" | (stats) "nat n = 35" by blast
  then show ?thesis
  proof cases
    case exit
    show ?thesis by (rule kinv_exit [OF inv C refl u, of args]) (use h exit in simp)
  next
    case fork
    then have "global_PID s < 2 ^ 31 - 1" using safe by (auto simp: safe_call_def args)
    then show ?thesis using safe_fork [OF inv C u] h fork by simp
  next
    case yield
    then have "rs \<noteq> []" using safe ready_empty [OF sched_invD(1) [OF sc]] by (auto simp: safe_call_def args)
    then obtain t rs' where rs: "rs = t # rs'" by (cases rs) auto
    show ?thesis by (rule kinv_yield [OF inv [unfolded rs] C, of args]) (use h yield in simp)
  next
    case console
    then show ?thesis
      using safe_write [OF inv C u p(1,2), of a c b] safe h by (auto simp: safe_call_def args sysexit_total)
  next
    case poll
    then show ?thesis
      using safe_poll [OF inv C u p, of "word_of_int a"] safe h by (auto simp: safe_call_def args sysexit_total)
  next
    case stats
    then show ?thesis
      using safe_stats [OF inv C u p(1,2), of b a] safe h by (auto simp: safe_call_def args sysexit_total)
  qed (use h args in \<open>simp_all add: sysexit_def\<close>)
qed

section \<open>What the calls deliver\<close>

lemma find_pid_live:
  assumes inv: "kinv_at C fs rs idle F K s" and i: "i \<in> live fs"
  shows "find_pid (PID (tasks s i)) s = Some i"
proof -
  have pid: "inj_on (\<lambda>t. PID (tasks s t)) (live fs)" using inv by (simp add: kinv_at_def pid_inv_def)
  have free: "PID (tasks s j) \<noteq> PID (tasks s i)" if "j \<in> set fs" for j
    using inv i that by (fastforce simp: kinv_at_def pid_inv_def)
  have other: "PID (tasks s j) \<noteq> PID (tasks s i)" if "j < i" for j
  proof (cases "j \<in> set fs")
    case False
    then have "j \<in> live fs" using i that by (auto simp: live_def)
    then show ?thesis using inj_onD [OF pid] i that by blast
  qed (use free in simp)
  have "i < NR_TASKS" using i by (simp add: live_def)
  then show ?thesis
    unfolding find_pid_def find_Some_iff using other by (intro exI [of _ i]) simp
qed

lemma user_range_ok:
  assumes "user_range b n"
  shows "access_ok t b (of_nat n) \<noteq> 0"
proof -
  have "unat b + n < 2 ^ 32" using assms by (simp add: user_range_def PAGE_SIZE_def)
  then have "unat (b + of_nat n) = unat b + n" by (intro unat_offset) simp
  then show ?thesis
    using assms unfolding access_ok_iff by (simp add: user_range_def PAGE_SIZE_def div_le_mono)
qed

lemma lin_cong: "pt s' = pt s \<Longrightarrow> cr3 s' = cr3 s \<Longrightarrow> fmem s' = fmem s \<Longrightarrow> lin s' = lin s"
  by (rule ext) (simp add: lin_def translate_def split: option.split)

lemma get_stats_spec:
  assumes inv: "kinv_at C fs rs idle F K s" and C: "cfg_ok C" and u: "current s \<noteq> idle"
    and s1: "pt s1 = pt s" "cr3 s1 = cr3 s" and b: "user_range b 28"
    and pid: "0 \<le> pid" "find_pid pid s1 = Some i"
  obtains s' where "sys_get_stats pid b s1 = Some (0, s')"
    and "\<And>x. user_addr x \<Longrightarrow> lin s' x = (if unat b \<le> unat x \<and> unat x < unat b + 28
      then stats_bytes ((p_stats (tasks s1 i))\<lparr>remaining_ticks := word_of_int (remaining_quantum s1)\<rparr>)
        ! (unat x - unat b) else lin s1 x)"
proof -
  let ?s = "upd_task i (p_stats_update (remaining_ticks_update (\<lambda>_. word_of_int (remaining_quantum s1)))) s1"
  let ?st = "(p_stats (tasks s1 i))\<lparr>remaining_ticks := word_of_int (remaining_quantum s1)\<rparr>"
  have p: "pt ?s = pt s" "cr3 ?s = cr3 s" "p_stats (tasks ?s i) = ?st"
    using s1 by (simp_all add: upd_task_def)
  have l: "lin ?s = lin s1"
    by (rule lin_cong) (simp_all add: upd_task_def)
  have r: "user_range b (length (stats_bytes ?st))" using b by (simp add: length_stats_bytes)
  have ok: "access_ok VERIFY_WRITE b 28 \<noteq> 0" using user_range_ok [OF b] by simp
  show thesis
  proof (rule copy_out_user [OF inv C u p(1,2) r])
    fix s' assume s': "copy_out b (stats_bytes ?st) ?s = Some s'"
      and w: "\<And>x. user_addr x \<Longrightarrow> lin s' x = (if unat b \<le> unat x \<and>
        unat x < unat b + length (stats_bytes ?st) then stats_bytes ?st ! (unat x - unat b) else lin ?s x)"
    show thesis
    proof (rule that)
      show "sys_get_stats pid b s1 = Some (0, s')"
        using ok pid p(3) s' by (simp add: sys_get_stats_def Let_def)
    qed (use w in \<open>simp add: l length_stats_bytes\<close>)
  qed
qed

end
