(* ===== verification/Exam_Kernel.thy ===== *)
theory Exam_Kernel
  imports Game_Facts
begin

text \<open>
  The kernel of \<^verbatim>\<open>so2_old/EXAM/Ex2\<close>. Its scheduler, memory management, system calls and entry
  points are those of \<^verbatim>\<open>GAME\<close> line by line; it has no keyboard buffer, so its keyboard and clock
  routines, its system call table and its \<open>main\<close> are its own. They run on the state of \<^verbatim>\<open>GAME\<close>,
  whose buffer they never touch, and the invariant of \<^verbatim>\<open>GAME\<close> carries over because the
  lemmas on interrupts hold for every routine that only writes to the screen and the tick counter.
\<close>

section \<open>The routines\<close>

definition clock_routine_x :: "kcfg \<Rightarrow> game \<Rightarrow> game option" where
  "clock_routine_x C s = do {
     let s = s\<lparr>scr := zeos_show_clock C (scr s)\<rparr>;
     let s = s\<lparr>zeos_ticks := c_int (zeos_ticks s + 1)\<rparr>;
     schedule s
   }"

definition keyboard_routine_x :: "kcfg \<Rightarrow> Byte \<Rightarrow> game \<Rightarrow> game" where
  "keyboard_routine_x C c s =
     (if c AND 0x80 \<noteq> 0
      then s\<lparr>scr := printc_xy 0 0 (char_at (after_char_map C) char_map_ex2 (c AND 0x7f)) (scr s)\<rparr>
      else s)"

definition clock_handler_x :: "kcfg \<Rightarrow> game \<Rightarrow> game option" where
  "clock_handler_x C s = do {
     s \<leftarrow> user_to_system (enter_interrupt s);
     s \<leftarrow> clock_routine_x C (call_path C ''clock_handler'' s);
     return_path C s
   }"

definition keyboard_handler_x :: "kcfg \<Rightarrow> Byte \<Rightarrow> game \<Rightarrow> game option" where
  "keyboard_handler_x C c s = do {
     s \<leftarrow> user_to_system (enter_interrupt s);
     s \<leftarrow> system_to_user (keyboard_routine_x C c s);
     Some (drop_words (entry_words s) s)
   }"

definition sys_call_table_x :: "syscall list" where
  "sys_call_table_x = (replicate 36 NiSyscall)[1 := Exit, 2 := Fork, 4 := Write, 10 := Gettime,
     13 := Yield, 20 := Getpid, 35 := GetStats]"

definition system_call_handler_x :: "kcfg \<Rightarrow> int \<Rightarrow> int \<times> DWord \<times> int \<Rightarrow> game \<Rightarrow> game option" where
  "system_call_handler_x C n args s =
     (let s = sysenter s in
      if n < 0 \<or> n > int (length sys_call_table_x) then sysexit (Some (- ENOSYS, s))
      else if nat n < length sys_call_table_x then do_syscall C (sys_call_table_x ! nat n) args s
      else None)"

definition main_x :: "kcfg \<Rightarrow> Byte list \<Rightarrow> game \<Rightarrow> game option" where
  "main_x C user_image s = do {
     let s = s\<lparr>scr := printk (str ''Kernel Loaded!    '') (scr s)\<rparr>;
     let s = init_mm C s;
     s \<leftarrow> init_sched s;
     s \<leftarrow> init_idle C s;
     s \<leftarrow> init_task1 C s;
     s \<leftarrow> copy_out L_USER_START user_image s;
     let s = s\<lparr>scr := printk (str ''Entering user mode...'') (scr s)\<rparr>;
     Some (s\<lparr>esp := tss_esp0 s\<rparr>)
   }"

section \<open>Steps\<close>

inductive xstep :: "kcfg \<Rightarrow> game \<Rightarrow> game \<Rightarrow> bool" for C where
  clock: "clock_handler_x C s = Some s' \<Longrightarrow> xstep C s s'"
| keyboard: "keyboard_handler_x C c s = Some s' \<Longrightarrow> xstep C s s'"
| syscall: "\<not> in_idle s \<Longrightarrow> system_call_handler_x C n args s = Some s' \<Longrightarrow>
    (n = 13 \<longrightarrow> list_empty (Some Readyqueue) (links s) = Some False) \<Longrightarrow>
    (n = 2 \<longrightarrow> global_PID s < 2 ^ 31 - 1) \<Longrightarrow> xstep C s s'"

definition no_buffer :: "game \<Rightarrow> bool" where
  "no_buffer s \<longleftrightarrow> k_buffer s = (k_buffer s)\<lparr>kb_head := 0, kb_tail := 0\<rparr>"

definition xreach :: "kcfg \<Rightarrow> game \<Rightarrow> bool" where
  "xreach C s \<longleftrightarrow> (\<exists>img s0 s1. power_on s0 \<and> no_buffer s0 \<and> length img \<le> 28 * PAGE_SIZE \<and>
     main_x C img s0 = Some s1 \<and> (xstep C)\<^sup>*\<^sup>* s1 s)"

lemma exam_console_only:
  "console_only (\<lambda>s. s\<lparr>scr := zeos_show_clock C (scr s), zeos_ticks := c_int (zeos_ticks s + 1)\<rparr>)"
  "console_only (keyboard_routine_x C c)"
  by (simp_all add: console_only_def keyboard_routine_x_def)

lemma kinv_clock_x:
  assumes "kinv_at C fs rs idle F K s" and "cfg_ok C"
  obtains s' rs' where "clock_handler_x C s = Some s'" and "kinv_at C fs rs' idle F K s'"
    and "rr_abs s' rs' = rr_tick (rr_abs s rs)"
proof (rule kinv_timer [OF assms exam_console_only(1) [of C]], simp)
  fix s' rs'
  assume "do { s \<leftarrow> user_to_system (enter_interrupt s);
      s \<leftarrow> schedule ((\<lambda>s. s\<lparr>scr := zeos_show_clock C (scr s), zeos_ticks := c_int (zeos_ticks s + 1)\<rparr>)
        (call_path C ''clock_handler'' s)); return_path C s } = Some s'"
    "kinv_at C fs rs' idle F K s'" "rr_abs s' rs' = rr_tick (rr_abs s rs)"
  then show thesis by (intro that [of s' rs']) (simp_all add: clock_handler_x_def clock_routine_x_def Let_def)
qed

lemma kinv_keyboard_x:
  assumes "kinv_at C fs rs idle F K s"
  obtains s' where "keyboard_handler_x C c s = Some s'" and "kinv_at C fs rs idle F K s'"
    and "rr_abs s' rs = rr_abs s rs"
    and "scr s' = (if c AND 0x80 \<noteq> 0
      then printc_xy 0 0 (char_at (after_char_map C) char_map_ex2 (c AND 0x7f)) (scr s) else scr s)"
  by (rule kinv_quiet [OF assms exam_console_only(2) [of C c], folded keyboard_handler_x_def])
     (simp add: keyboard_routine_x_def, rule that, assumption+, simp add: keyboard_routine_x_def)

lemma table_x: "sys_call_table_x = sys_call_table[5 := NiSyscall]"
  by (rule nth_equalityI) (simp_all add: sys_call_table_x_def sys_call_table_def nth_list_update)

text \<open>A system call of the exam kernel is one of \<^verbatim>\<open>GAME\<close>; call 5 does what an unknown call does.\<close>

lemma system_call_handler_x:
  "system_call_handler_x C n args s = system_call_handler C (if n = 5 then -1 else n) args s"
proof (cases "n = 5")
  case True
  then show ?thesis
    by (simp add: system_call_handler_x_def system_call_handler_def table_x length_sys_call_table
        Let_def sys_ni_syscall_def ENOSYS_def)
next
  case False
  then have "sys_call_table_x ! nat n = sys_call_table ! nat n" if "0 \<le> n"
    using that by (simp add: table_x nth_list_update' nat_eq_iff)
  with False show ?thesis
    by (simp add: system_call_handler_x_def system_call_handler_def table_x length_sys_call_table
        Let_def MAX_SYSCALL_def)
qed

lemma kinv_xstep:
  assumes C: "cfg_ok C" and "kinv C s" and "xstep C s s'"
  shows "kinv C s'"
proof -
  obtain fs rs idle F K where inv: "kinv_at C fs rs idle F K s" using assms(2) by (auto simp: kinv_def)
  from assms(3) show ?thesis
  proof cases
    case clock
    then show ?thesis by (rule_tac kinv_clock_x [OF inv C]) (auto intro: kinvI)
  next
    case (keyboard c)
    then show ?thesis by (rule_tac kinv_keyboard_x [OF inv, of c]) (auto intro: kinvI)
  next
    case (syscall n args)
    let ?n = "if n = 5 then -1 else n"
    have "(?n = 13 \<longrightarrow> n = 13) \<and> (?n = 2 \<longrightarrow> n = 2)" by auto
    with syscall have "kstep C s s'"
      by (intro kstep.syscall [of s C ?n args]) (simp_all add: system_call_handler_x)
    then show ?thesis by (rule kinv_step [OF C assms(2)])
  qed
qed

lemma main_x_eq:
  assumes "cfg_ok C" and "power_on s" and "no_buffer s"
  shows "main_x C img s = main C img s"
proof -
  let ?s = "s\<lparr>scr := printk (str ''Kernel Loaded!    '') (scr s)\<rparr>"
  have on: "power_on ?s" using assms(2) by (simp add: power_on_def)
  obtain s2 s3 s4 where b: "init_sched (init_mm C ?s) = Some s2" "init_idle C s2 = Some s3" "init_task1 C s3 = Some s4"
      "k_buffer s4 = k_buffer ?s"
    by (rule boot_kinv [OF assms(1) on]) (rule that)
  have "k_buffer s4 = (k_buffer s4)\<lparr>kb_head := 0, kb_tail := 0\<rparr>" using assms(3) b(4) by (simp add: no_buffer_def)
  then have "keyboard_init s4 = s4" by (simp add: keyboard_init_def)
  then show ?thesis using b(1-3) by (simp add: main_x_def main_def Let_def)
qed

section \<open>Properties\<close>

text \<open>C13. The exam kernel keeps the invariant of GAME in every state it reaches from power-on, through clock
  ticks, key strokes and system calls other than a \<open>yield\<close> with nobody ready and a fork past the
  last identifier, and its clock implements the abstract round-robin scheduler.\<close>

theorem exam_invariant:
  assumes "cfg_ok C" and "xreach C s"
  shows "\<exists>fs rs idle F K. kinv_at C fs rs idle F K s \<and> (\<exists>s' rs'. clock_handler_x C s = Some s' \<and>
    kinv_at C fs rs' idle F K s' \<and> rr_abs s' rs' = rr_tick (rr_abs s rs))"
proof -
  from assms(2) obtain img s0 s1 where r: "power_on s0" "no_buffer s0" "length img \<le> 28 * PAGE_SIZE"
      "main_x C img s0 = Some s1" "(xstep C)\<^sup>*\<^sup>* s1 s"
    unfolding xreach_def by blast
  have "main C img s0 = Some s1" using r(4) main_x_eq [OF assms(1) r(1,2)] by simp
  then have "kinv C s1" by (rule_tac boot_main [OF assms(1) r(1,3)]) (auto intro: kinvI)
  with r(5) have "kinv C s" by (induction rule: rtranclp_induct) (auto intro: kinv_xstep [OF assms(1)])
  then obtain fs rs idle F K where k: "kinv_at C fs rs idle F K s" by (auto simp: kinv_def)
  obtain s' rs' where "clock_handler_x C s = Some s'" "kinv_at C fs rs' idle F K s'"
      "rr_abs s' rs' = rr_tick (rr_abs s rs)"
    by (rule kinv_clock_x [OF k assms(1)])
  with k show ?thesis by blast
qed

theorem exam_invariant_witness: "\<exists>s. xreach game_cfg s \<and> kinv game_cfg s"
proof -
  have n: "no_buffer blank_game" by (simp add: no_buffer_def blank_game_def)
  have "main_x game_cfg [] blank_game = Some booted"
    by (rule booted_kinv) (simp add: main_x_eq [OF game_cfg_ok blank_game_on n])
  then have "xreach game_cfg booted"
    unfolding xreach_def using blank_game_on n by (intro exI [of _ "[]"] exI [of _ blank_game] exI [of _ booted]) auto
  with exam_invariant [OF game_cfg_ok this] show ?thesis by (auto intro: kinvI)
qed

text \<open>The keyboard interrupt of the exam kernel echoes a key when it is released: the character of its
  scan code goes to the top left corner of the screen, a press changes nothing on it, and neither
  changes the queues, the running task or the remaining quantum.\<close>

theorem exam_keyboard_echo:
  assumes "kinv_at C fs rs idle F K s"
  shows "\<exists>s'. keyboard_handler_x C c s = Some s' \<and> kinv_at C fs rs idle F K s' \<and> rr_abs s' rs = rr_abs s rs \<and>
    scr s' = (if bit c 7 then printc_xy 0 0 (char_at (after_char_map C) char_map_ex2 (c AND 0x7f)) (scr s) else scr s)"
proof -
  have "(c AND 2 ^ 7 \<noteq> 0) = bit c 7" by (simp only: and_exp_eq_0_iff_not_bit not_not)
  then have "(c AND 0x80 \<noteq> 0) = bit c 7" by simp
  then show ?thesis by (rule_tac kinv_keyboard_x [OF assms, of c]) auto
qed

theorem exam_keyboard_echo_witness:
  "\<exists>F K s'. kinv_at game_cfg [3..<NR_TASKS] [2] 0 F K two_procs \<and>
    keyboard_handler_x game_cfg 0x9E two_procs = Some s' \<and> kinv_at game_cfg [3..<NR_TASKS] [2] 0 F K s' \<and>
    scr s' = printc_xy 0 0 97 (scr two_procs)"
proof (rule two_procs_kinv)
  fix F K
  assume k: "kinv_at game_cfg [3..<NR_TASKS] [2] 0 F K two_procs"
  have c: "char_at (after_char_map game_cfg) char_map_ex2 (0x9E AND 0x7f) = 97"
    by (simp add: char_at_def char_map_ex2_def char_map_with_def)
  have "bit (0x9E :: Byte) 7" by simp
  with exam_keyboard_echo [OF k, of "0x9E"] c k show ?thesis by (intro exI [of _ F] exI [of _ K]) auto
qed

end
