(* ===== verification/Zeos_Libc.thy ===== *)
theory Zeos_Libc
  imports Zeos_Types
begin

text \<open>
  The user library \<^verbatim>\<open>libc.c\<close>: \<open>itoa\<close>, \<open>strlen\<close> and the three versions of \<open>perror\<close>
  (GAME and the two exams, E1_E2, and the root kernel). A \<open>char\<close> array is the list of its
  bytes; an access outside the array has no result. What \<open>perror\<close> does is the sequence of
  calls of \<open>write\<close> it makes: file descriptor, buffer and size of each.
\<close>

section \<open>Arrays of characters\<close>

definition load :: "Byte list \<Rightarrow> nat \<Rightarrow> Byte option" where
  "load b i = (if i < length b then Some (b ! i) else None)"

definition store :: "Byte list \<Rightarrow> nat \<Rightarrow> Byte \<Rightarrow> Byte list option" where
  "store b i v = (if i < length b then Some (b[i := v]) else None)"

section \<open>Routines\<close>

text \<open>The loop \<open>while (a>0)\<close>, the least significant digit first.\<close>

function itoa_digits :: "int \<Rightarrow> nat \<Rightarrow> Byte list \<Rightarrow> (nat \<times> Byte list) option" where
  "itoa_digits a i b =
     (if a > 0 then do {
        b \<leftarrow> store b i (word_of_int (a mod 10 + 48));
        itoa_digits (a div 10) (i + 1) b
      } else Some (i, b))"
  by pat_completeness auto
termination by (relation "measure (\<lambda>(a, _). nat a)") auto

text \<open>The loop \<open>for (i1=0; i1<i/2; i1++)\<close>, which reverses the first \<open>i\<close> characters in place.\<close>

function itoa_reverse :: "nat \<Rightarrow> nat \<Rightarrow> Byte list \<Rightarrow> Byte list option" where
  "itoa_reverse i i1 b =
     (if i1 < i div 2 then do {
        c \<leftarrow> load b i1;
        d \<leftarrow> load b (i - i1 - 1);
        b \<leftarrow> store b i1 d;
        b \<leftarrow> store b (i - i1 - 1) c;
        itoa_reverse i (i1 + 1) b
      } else Some b)"
  by pat_completeness auto
termination by (relation "measure (\<lambda>(i, i1, _). i div 2 - i1)") auto

definition itoa :: "int \<Rightarrow> Byte list \<Rightarrow> Byte list option" where
  "itoa a b =
     (if a = 0 then do {
        b \<leftarrow> store b 0 48;
        store b 1 0
      } else do {
        (i, b) \<leftarrow> itoa_digits a 0 b;
        b \<leftarrow> itoa_reverse i 0 b;
        store b i 0
      })"

fun strlen :: "Byte list \<Rightarrow> nat option" where
  "strlen [] = None"
| "strlen (c # cs) = (if c = 0 then Some 0 else map_option Suc (strlen cs))"

type_synonym write_call = "int \<times> Byte list \<times> nat"

text \<open>GAME: \<open>buffer\<close> is the uninitialised array of 256 characters on the stack.\<close>

definition perror :: "int \<Rightarrow> Byte list \<Rightarrow> write_call list option" where
  "perror errno buffer = do {
     buffer \<leftarrow> itoa errno buffer;
     n \<leftarrow> strlen buffer;
     Some [(1, buffer, n)]
   }"

definition perror_e :: "int \<Rightarrow> write_call list" where
  "perror_e errno = [(1, str ''PERROR: '', 8),
     if errno = EACCES then (1, str ''Permission denied'' @ [10], 18)
     else if errno = EFAULT then (1, str ''Bad address'' @ [10], 12)
     else if errno = EINVAL then (1, str ''Invalid argument'' @ [10], 17)
     else if errno = EBADF then (1, str ''Bad file number'' @ [10], 16)
     else if errno = ENOSYS then (1, str ''Function (Syscall) not implemented'' @ [10], 35)
     else (1, str ''Unknown error'' @ [10], 14)]"

text \<open>The root kernel: \<open>s\<close> is a string with its terminating zero, or NULL (\<open>None\<close>).\<close>

definition perror_message :: "int \<Rightarrow> Byte list" where
  "perror_message errno =
     (if errno = EBADF then str ''Bad file number''
      else if errno = EACCES then str ''Permission denied''
      else if errno = EFAULT then str ''Bad address''
      else if errno = EINVAL then str ''Invalid argument''
      else if errno = ENOSYS then str ''Function not implemented''
      else str ''Unknown error'') @ [0]"

definition perror_z :: "int \<Rightarrow> Byte list option \<Rightarrow> write_call list option" where
  "perror_z errno s = do {
     prefix \<leftarrow> (case s of
         None \<Rightarrow> Some []
       | Some s \<Rightarrow> do {
           c \<leftarrow> load s 0;
           if c \<noteq> 0 then do {
             n \<leftarrow> strlen s;
             Some [(1, s, n), (1, str '': '', 2)]
           } else Some []
         });
     n \<leftarrow> strlen (perror_message errno);
     Some (prefix @ [(1, perror_message errno, n), (1, [10], 1)])
   }"

text \<open>\<open>hex_convertor\<close> of \<^verbatim>\<open>interrupt.c\<close>, which the page fault routines use.\<close>

fun hex_digits :: "nat \<Rightarrow> DWord \<Rightarrow> Byte list \<Rightarrow> Byte list option" where
  "hex_digits 0 address s = Some s"
| "hex_digits (Suc i) address s = do {
     let digit = address mod 16;
     s \<leftarrow> store s i (if digit < 10 then 48 + ucast digit else 65 + ucast digit - 10);
     hex_digits i (address div 16) s
   }"

definition hex_convertor :: "DWord \<Rightarrow> Byte list \<Rightarrow> Byte list option" where
  "hex_convertor address s = do {
     s \<leftarrow> store s 8 0;
     hex_digits 8 address s
   }"

text \<open>What the calls of \<open>write\<close> send, if each gets its whole buffer.\<close>

definition sent :: "write_call list \<Rightarrow> Byte list" where
  "sent cs = concat (map (\<lambda>(fd, b, n). take n b) cs)"

section \<open>Decimal notation\<close>

fun decimal :: "nat \<Rightarrow> Byte list" where
  "decimal n =
     (if n < 10 then [48 + of_nat n] else decimal (n div 10) @ [48 + of_nat (n mod 10)])"

definition read_decimal :: "Byte list \<Rightarrow> nat" where
  "read_decimal = foldl (\<lambda>v c. 10 * v + unat (c - 48)) 0"

declare decimal.simps [simp del] itoa_digits.simps [simp del] itoa_reverse.simps [simp del]

lemma unat_digit: "n < 10 \<Longrightarrow> unat (of_nat n :: Byte) = n"
  by (simp add: unsigned_of_nat take_bit_nat_eq_self)

lemma decimal_read: "read_decimal (decimal n) = n"
proof (induction n rule: decimal.induct)
  case (1 n)
  show ?case
  proof (cases "n < 10")
    case True then show ?thesis by (subst decimal.simps) (simp add: read_decimal_def unat_digit)
  next
    case False
    have "foldl (\<lambda>v c. 10 * v + unat (c - 48)) 0 (decimal (n div 10)) = n div 10"
      using 1 False by (simp add: read_decimal_def)
    then show ?thesis using False by (subst decimal.simps) (simp add: read_decimal_def unat_digit)
  qed
qed

lemma digit_nonzero: "d < 10 \<Longrightarrow> (48 + of_nat d :: Byte) \<noteq> 0"
  by (simp add: less_Suc_eq eval_nat_numeral) auto

lemma decimal_nonzero: "0 \<notin> set (decimal n)"
proof (induction n rule: decimal.induct)
  case (1 n)
  then show ?case
    using digit_nonzero [of n] digit_nonzero [of "n mod 10"]
    by (subst decimal.simps) (simp add: eq_commute [of 0])
qed

lemma decimal_length: "n < 10 ^ Suc k \<Longrightarrow> length (decimal n) \<le> Suc k"
proof (induction k arbitrary: n)
  case 0 then show ?case by (subst decimal.simps) simp
next
  case (Suc k)
  then have "n div 10 < 10 ^ Suc k" by (simp add: div_less_iff_less_mult)
  then have "length (decimal (n div 10)) \<le> Suc k" by (rule Suc.IH)
  then show ?case by (subst decimal.simps) simp
qed

lemma decimal_pos: "0 < length (decimal n)"
  by (subst decimal.simps) simp

section \<open>The loops of \<open>itoa\<close>\<close>

lemma digit_byte: "0 < a \<Longrightarrow> word_of_int (a mod 10 + 48) = (48 + of_nat (nat a mod 10) :: Byte)"
proof -
  assume "0 < a"
  then have "a mod 10 + 48 = int (48 + nat a mod 10)" by (simp add: nat_mod_distrib zmod_int)
  then have "word_of_int (a mod 10 + 48) = (of_nat (48 + nat a mod 10) :: Byte)"
    by (simp only: of_int_of_nat_eq)
  then show ?thesis by simp
qed

lemma itoa_digits_spec:
  "0 < a \<Longrightarrow> i + length (decimal (nat a)) \<le> length b \<Longrightarrow>
   itoa_digits a i b = Some (i + length (decimal (nat a)),
     take i b @ rev (decimal (nat a)) @ drop (i + length (decimal (nat a))) b)"
proof (induction a i b rule: itoa_digits.induct)
  case (1 a i b)
  have dec: "decimal (nat a) =
      (if a < 10 then [] else decimal (nat (a div 10))) @ [48 + of_nat (nat a mod 10)]"
    using \<open>0 < a\<close> by (subst decimal.simps) (simp add: nat_div_distrib nat_less_iff)
  have i: "i < length b" using 1(3) dec by simp
  let ?d = "48 + of_nat (nat a mod 10) :: Byte"
  have step: "itoa_digits a i b = itoa_digits (a div 10) (i + 1) (b[i := ?d])"
    using \<open>0 < a\<close> i by (subst itoa_digits.simps) (simp add: store_def digit_byte del: of_int_add)
  have tk: "take (i + 1) (b[i := ?d]) = take i b @ [?d]" using i by (simp add: take_Suc_conv_app_nth)
  show ?case
  proof (cases "a < 10")
    case True
    then have "a div 10 = 0" using \<open>0 < a\<close> by simp
    then show ?thesis
      using True i unfolding step by (subst itoa_digits.simps) (simp add: dec upd_conv_take_nth_drop)
  next
    case False
    have "store b i (word_of_int (a mod 10 + 48)) = Some (b[i := ?d])"
      using i \<open>0 < a\<close> by (simp add: store_def digit_byte del: of_int_add)
    from 1(1) [OF \<open>0 < a\<close> this] show ?thesis
      using False 1(3) tk unfolding step by (simp add: dec)
  qed
qed

lemma itoa_reverse_spec:
  "i \<le> length b \<Longrightarrow> i1 \<le> i div 2 \<Longrightarrow>
   \<exists>b'. itoa_reverse i i1 b = Some b' \<and> length b' = length b \<and>
     (\<forall>k<length b. b' ! k = b ! (if i1 \<le> k \<and> k < i - i1 then i - 1 - k else k))"
proof (induction "i div 2 - i1" arbitrary: i1 b)
  case 0
  then have i1: "i1 = i div 2" by simp
  have "i - 1 - k = k" if "i1 \<le> k" "k < i - i1" for k using that unfolding i1 by linarith
  then have "\<forall>k<length b. b ! k = b ! (if i1 \<le> k \<and> k < i - i1 then i - 1 - k else k)" by auto
  with 0 show ?case by (subst itoa_reverse.simps) auto
next
  case (Suc n)
  let ?c = "b[i1 := b ! (i - i1 - 1), i - i1 - 1 := b ! i1]"
  have lt: "i1 < i div 2" "i1 < length b" "i - i1 - 1 < length b" using Suc by linarith+
  then have "itoa_reverse i i1 b = itoa_reverse i (i1 + 1) ?c"
    by (subst itoa_reverse.simps) (simp add: load_def store_def)
  moreover have "\<exists>b'. itoa_reverse i (i1 + 1) ?c = Some b' \<and> length b' = length ?c \<and>
     (\<forall>k<length ?c. b' ! k = ?c ! (if i1 + 1 \<le> k \<and> k < i - (i1 + 1) then i - 1 - k else k))"
    using Suc(2-4) lt by (intro Suc(1)) simp_all
  moreover have "?c ! (if i1 + 1 \<le> k \<and> k < i - (i1 + 1) then i - 1 - k else k) =
      b ! (if i1 \<le> k \<and> k < i - i1 then i - 1 - k else k)" if "k < length b" for k
  proof -
    define p where "p = i - i1 - 1"
    then have p: "i = p + i1 + 1" "i1 < p" "p < length b" using lt by linarith+
    consider "k = i1" | "k = p" | "i1 < k" "k < p" | "k < i1" | "p < k" by linarith
    then show ?thesis using p(2,3) that unfolding p(1) by cases (simp_all add: nth_list_update)
  qed
  ultimately show ?case by simp
qed

lemma itoa_reverse_prefix:
  "itoa_reverse (length xs) 0 (xs @ ys) = Some (rev xs @ ys)"
proof -
  obtain b' where b': "itoa_reverse (length xs) 0 (xs @ ys) = Some b'"
      "length b' = length (xs @ ys)"
      "\<And>k. k < length (xs @ ys) \<Longrightarrow> b' ! k = (xs @ ys) ! (if k < length xs then length xs - 1 - k else k)"
    using itoa_reverse_spec [of "length xs" "xs @ ys" 0] by auto
  have "b' = rev xs @ ys"
    using b' by (intro nth_equalityI) (auto simp: nth_append rev_nth)
  with b' show ?thesis by simp
qed

section \<open>Properties\<close>

lemma strlen_prefix: "0 \<notin> set cs \<Longrightarrow> strlen (cs @ 0 # ys) = Some (length cs)"
  by (induction cs) auto

lemma itoa_decimal:
  assumes "0 \<le> a" and "length (decimal (nat a)) < length b"
  shows "itoa a b = Some (decimal (nat a) @ 0 # drop (Suc (length (decimal (nat a)))) b)"
proof (cases "a = 0")
  case True
  have "decimal 0 = [48]" by (subst decimal.simps) simp
  with True assms show ?thesis
    by (cases b rule: list.exhaust; cases "tl b") (auto simp: itoa_def store_def)
next
  case False
  let ?d = "decimal (nat a)" and ?y = "drop (length (decimal (nat a))) b"
  have "itoa_digits a 0 b = Some (length ?d, rev ?d @ ?y)"
    using itoa_digits_spec [of a 0 b] False assms by simp
  moreover have "itoa_reverse (length ?d) 0 (rev ?d @ ?y) = Some (?d @ ?y)"
    using itoa_reverse_prefix [of "rev ?d" ?y] by simp
  moreover have "?y = b ! length ?d # drop (Suc (length ?d)) b"
    using assms by (simp add: Cons_nth_drop_Suc)
  ultimately show ?thesis
    using False assms by (simp add: itoa_def store_def list_update_append)
qed

text \<open>C39. \<open>itoa\<close> and reading the digits back are inverse: for every non-negative C integer and every
  array of at least 11 characters, \<open>itoa\<close> stays inside the array, leaves a zero-terminated string
  of at most 10 characters whose decimal value is the number, and changes nothing after it.\<close>

theorem itoa_roundtrip:
  assumes "0 \<le> a" and "a < 2 ^ 31" and "11 \<le> length b"
  shows "\<exists>b' n. itoa a b = Some b' \<and> strlen b' = Some n \<and> n \<le> 10 \<and>
    int (read_decimal (take n b')) = a \<and> drop (n + 1) b' = drop (n + 1) b"
proof -
  let ?d = "decimal (nat a)"
  have "nat a < 10 ^ Suc 9" using assms by simp
  then have len: "length ?d \<le> 10" using decimal_length by fastforce
  then have eq: "itoa a b = Some (?d @ 0 # drop (Suc (length ?d)) b)" using assms by (intro itoa_decimal) auto
  show ?thesis
    unfolding eq using len assms
    by (intro exI [of _ "?d @ 0 # drop (Suc (length ?d)) b"] exI [of _ "length ?d"])
      (simp add: decimal_read strlen_prefix decimal_nonzero)
qed

theorem itoa_roundtrip_witness:
  "\<exists>b' n. itoa 4070 (replicate 256 7) = Some b' \<and> strlen b' = Some n \<and> n \<le> 10 \<and>
    int (read_decimal (take n b')) = 4070 \<and> drop (n + 1) b' = drop (n + 1) (replicate 256 7)"
  by (rule itoa_roundtrip) simp_all

text \<open>A negative number has no digits for \<open>itoa\<close>: the loop does not run and the result is the
  empty string, so that \<open>perror\<close> prints nothing for the negative error codes of the kernel.\<close>

theorem perror_negative_empty:
  assumes "errno < 0" and "0 < length buffer"
  shows "itoa errno buffer = Some (0 # tl buffer) \<and> perror errno buffer = Some [(1, 0 # tl buffer, 0)]"
proof -
  have "itoa errno buffer = Some (buffer[0 := 0])"
    using assms by (simp add: itoa_def store_def itoa_digits.simps itoa_reverse.simps)
  moreover have "buffer[0 := 0] = 0 # tl buffer" using assms by (cases buffer) auto
  ultimately show ?thesis by (simp add: perror_def)
qed

theorem perror_negative_empty_witness:
  "itoa (- 11) (replicate 256 7) = Some (0 # replicate 255 7) \<and>
   perror (- 11) (replicate 256 7) = Some [(1, 0 # replicate 255 7, 0)]"
  using perror_negative_empty [of "- 11" "replicate 256 7"] by simp

text \<open>Every version of \<open>perror\<close> passes \<open>write\<close> a size within the array it passes: GAME sends the
  decimal notation of the error number, E1_E2 a prefix and a message, the root kernel the caller's
  prefix, a colon, the message and a newline.\<close>

theorem perror_output:
  assumes "0 \<le> errno" and "errno < 2 ^ 31" and "length buffer = 256"
    and "0 \<notin> set p" and "p \<noteq> []"
  shows "(\<exists>cs. perror errno buffer = Some cs \<and> sent cs = decimal (nat errno) \<and> (\<forall>(fd, b, n)\<in>set cs. n \<le> length b)) \<and>
    (\<forall>(fd, b, n)\<in>set (perror_e errno). n = length b) \<and>
    (\<exists>cs. perror_z errno (Some (p @ [0])) = Some cs \<and> (\<forall>(fd, b, n)\<in>set cs. n \<le> length b) \<and>
       sent cs = p @ str '': '' @ butlast (perror_message errno) @ [10])"
proof (intro conjI)
  let ?d = "decimal (nat errno)"
  have "nat errno < 10 ^ Suc 9" using assms by simp
  then have len: "length ?d \<le> 10" using decimal_length by fastforce
  then have "itoa errno buffer = Some (?d @ 0 # drop (Suc (length ?d)) buffer)"
    using assms by (intro itoa_decimal) auto
  then show "\<exists>cs. perror errno buffer = Some cs \<and> sent cs = ?d \<and> (\<forall>(fd, b, n)\<in>set cs. n \<le> length b)"
    by (simp add: perror_def strlen_prefix decimal_nonzero sent_def)
  show "\<forall>(fd, b, n)\<in>set (perror_e errno). n = length b" by (simp add: perror_e_def str_def)
  obtain q where q: "perror_message errno = q @ [0]" "0 \<notin> set q"
    by (simp add: perror_message_def str_def that)
  moreover have "load (p @ [0]) 0 = Some (hd p)" "hd p \<noteq> 0"
    using assms by (cases p; auto simp: load_def)+
  ultimately have "perror_z errno (Some (p @ [0])) =
      Some [(1, p @ [0], length p), (1, str '': '', 2), (1, q @ [0], length q), (1, [10], 1)]"
    using assms strlen_prefix [of p "[]"] strlen_prefix [of q "[]"] by (simp add: perror_z_def)
  then show "\<exists>cs. perror_z errno (Some (p @ [0])) = Some cs \<and> (\<forall>(fd, b, n)\<in>set cs. n \<le> length b) \<and>
       sent cs = p @ str '': '' @ butlast (perror_message errno) @ [10]"
    using q by (simp add: sent_def str_def)
qed

theorem perror_output_witness:
  "\<exists>cs. perror_z 14 (Some (str ''read'' @ [0])) = Some cs \<and>
    sent cs = str ''read'' @ str '': '' @ butlast (perror_message 14) @ [10]"
  using perror_output [of 14 "replicate 256 7" "str ''read''"] by (simp add: str_def) blast

end
