(* ===== verification/User_Programs.thy ===== *)
theory User_Programs
  imports Zeos_Libc
begin

text \<open>
  The user programs that come with the kernels: \<^verbatim>\<open>user.c\<close> of E1_E2 and of the root kernel, and the
  system call wrappers they use (\<^verbatim>\<open>wrapper.S\<close>, \<^verbatim>\<open>wrappers.S\<close>).

  A program sees the kernel through its traps only. The kernel is an argument, a \<open>sys\<close>: what a trap with
  a system call number and the argument registers returns in \<open>eax\<close>, and what becomes of the kernel while
  the program spends time in a counting loop. The buffer argument is given by the bytes it points at.
  \<open>None\<close> is a call that never comes back, and an access outside an array of the program.

  The locale \<open>console_kernel\<close> is the contract the programs rely on, over an abstract view of the kernel
  (console output, identifier, time); \<open>User_Root\<close> and \<open>User_E1\<close> show that the kernels keep it.
\<close>

section \<open>Traps and wrappers\<close>

datatype gate = Int80 | Sysenter

record 'k sys =
  trap :: "gate \<Rightarrow> int \<Rightarrow> int \<times> Byte list \<times> int \<Rightarrow> 'k \<Rightarrow> (int \<times> 'k) option"
  spin :: "'k \<Rightarrow> 'k"

record 'k uproc =
  kern :: 'k
  errno :: int
  pid :: int

text \<open>The end of a wrapper: \<open>cmpl $0, %eax; jge\<close>, else \<open>negl\<close>, store in \<open>errno\<close> and return \<open>-1\<close>.\<close>

definition wrapper_result :: "int \<Rightarrow> ('k, 'a) uproc_scheme \<Rightarrow> int \<times> ('k, 'a) uproc_scheme" where
  "wrapper_result r u = (if r < 0 then (-1, u\<lparr>errno := c_int (- r)\<rparr>) else (r, u))"

definition wrapper :: "'k sys \<Rightarrow> gate \<Rightarrow> int \<Rightarrow> int \<times> Byte list \<times> int \<Rightarrow> ('k, 'a) uproc_scheme \<Rightarrow>
    (int \<times> ('k, 'a) uproc_scheme) option" where
  "wrapper S g n args u = do {
     (r, k) \<leftarrow> trap S g n args (kern u);
     Some (wrapper_result r (u\<lparr>kern := k\<rparr>))
   }"

definition write_u :: "'k sys \<Rightarrow> int \<Rightarrow> Byte list \<Rightarrow> int \<Rightarrow> ('k, 'a) uproc_scheme \<Rightarrow> (int \<times> ('k, 'a) uproc_scheme) option" where
  "write_u S fd b n = wrapper S Int80 4 (fd, b, n)"

definition write_f :: "'k sys \<Rightarrow> int \<Rightarrow> Byte list \<Rightarrow> int \<Rightarrow> ('k, 'a) uproc_scheme \<Rightarrow> (int \<times> ('k, 'a) uproc_scheme) option" where
  "write_f S fd b n = wrapper S Sysenter 4 (fd, b, n)"

definition gettime_u :: "'k sys \<Rightarrow> ('k, 'a) uproc_scheme \<Rightarrow> (int \<times> ('k, 'a) uproc_scheme) option" where
  "gettime_u S = wrapper S Int80 10 (0, [], 0)"

definition gettime_f :: "'k sys \<Rightarrow> ('k, 'a) uproc_scheme \<Rightarrow> (int \<times> ('k, 'a) uproc_scheme) option" where
  "gettime_f S = wrapper S Sysenter 10 (0, [], 0)"

text \<open>\<open>getpid\<close> of E1_E2 returns \<open>eax\<close> as it is; that of the root kernel tests for errors.\<close>

definition getpid_u :: "'k sys \<Rightarrow> ('k, 'a) uproc_scheme \<Rightarrow> (int \<times> ('k, 'a) uproc_scheme) option" where
  "getpid_u S u = do {
     (r, k) \<leftarrow> trap S Int80 20 (0, [], 0) (kern u);
     Some (r, u\<lparr>kern := k\<rparr>)
   }"

definition getpid_z :: "'k sys \<Rightarrow> ('k, 'a) uproc_scheme \<Rightarrow> (int \<times> ('k, 'a) uproc_scheme) option" where
  "getpid_z S = wrapper S Int80 20 (0, [], 0)"

definition fork_u :: "'k sys \<Rightarrow> ('k, 'a) uproc_scheme \<Rightarrow> (int \<times> ('k, 'a) uproc_scheme) option" where
  "fork_u S = wrapper S Int80 2 (0, [], 0)"

definition unblock_u :: "'k sys \<Rightarrow> int \<Rightarrow> ('k, 'a) uproc_scheme \<Rightarrow> (int \<times> ('k, 'a) uproc_scheme) option" where
  "unblock_u S p = wrapper S Int80 13 (p, [], 0)"

definition exit_u :: "'k sys \<Rightarrow> ('k, 'a) uproc_scheme \<Rightarrow> ('k, 'a) uproc_scheme option" where
  "exit_u S u = do {
     (_, k) \<leftarrow> trap S Int80 1 (0, [], 0) (kern u);
     Some (u\<lparr>kern := k\<rparr>)
   }"

definition block_u :: "'k sys \<Rightarrow> ('k, 'a) uproc_scheme \<Rightarrow> ('k, 'a) uproc_scheme option" where
  "block_u S u = do {
     (_, k) \<leftarrow> trap S Int80 12 (0, [], 0) (kern u);
     Some (u\<lparr>kern := k\<rparr>)
   }"

text \<open>A counting loop with an empty body: only the kernel moves on.\<close>

definition wait_loop :: "'k sys \<Rightarrow> ('k, 'a) uproc_scheme \<Rightarrow> ('k, 'a) uproc_scheme option" where
  "wait_loop S u = Some (u\<lparr>kern := spin S (kern u)\<rparr>)"

section \<open>The program of the root kernel\<close>

text \<open>Its \<open>write\<close> enters through \<open>sysenter\<close>; \<open>buff\<close> is an array of 24 characters.\<close>

record 'k uproc_z = "'k uproc" +
  buff_z :: "Byte list"

definition write_z :: "'k sys \<Rightarrow> int \<Rightarrow> Byte list \<Rightarrow> int \<Rightarrow> ('k, 'a) uproc_scheme \<Rightarrow> (int \<times> ('k, 'a) uproc_scheme) option" where
  "write_z S fd b n = wrapper S Sysenter 4 (fd, b, n)"

text \<open>The calls of \<open>perror\<close>, in their order.\<close>

fun do_writes :: "'k sys \<Rightarrow> (int \<Rightarrow> Byte list \<Rightarrow> int \<Rightarrow> ('k, 'a) uproc_scheme \<Rightarrow> (int \<times> ('k, 'a) uproc_scheme) option) \<Rightarrow>
    write_call list \<Rightarrow> ('k, 'a) uproc_scheme \<Rightarrow> ('k, 'a) uproc_scheme option" where
  "do_writes S w [] u = Some u"
| "do_writes S w ((fd, b, n) # cs) u = do {
     (_, u) \<leftarrow> w fd b (int n) u;
     do_writes S w cs u
   }"

text \<open>The message is chosen from \<open>errno\<close> before the first \<open>write\<close>.\<close>

definition perror_u_z :: "'k sys \<Rightarrow> Byte list \<Rightarrow> ('k, 'a) uproc_scheme \<Rightarrow> ('k, 'a) uproc_scheme option" where
  "perror_u_z S s u = do {
     cs \<leftarrow> perror_z (errno u) (Some s);
     do_writes S (write_z S) cs u
   }"

definition puts_z :: "'k sys \<Rightarrow> Byte list \<Rightarrow> int \<Rightarrow> ('k, 'a) uproc_scheme \<Rightarrow> ('k, 'a) uproc_scheme option" where
  "puts_z S b n u = map_option snd (write_z S 1 (b @ [0]) n u)"

definition itoa_z :: "int \<Rightarrow> 'k uproc_z \<Rightarrow> 'k uproc_z option" where
  "itoa_z a u = map_option (\<lambda>b. u\<lparr>buff_z := b\<rparr>) (itoa a (buff_z u))"

definition put_buff_z :: "'k sys \<Rightarrow> 'k uproc_z \<Rightarrow> 'k uproc_z option" where
  "put_buff_z S u = do {
     n \<leftarrow> strlen (buff_z u);
     map_option snd (write_z S 1 (buff_z u) (int n) u)
   }"

text \<open>The two halves of \<open>main\<close>: the test of \<open>gettime\<close>, and those of \<open>write\<close> and \<open>getpid\<close>.\<close>

definition gettime_test_z :: "'k sys \<Rightarrow> 'k uproc_z \<Rightarrow> 'k uproc_z option" where
  "gettime_test_z S u = do {
     u \<leftarrow> puts_z S [10] 1 u;
     u \<leftarrow> puts_z S (str ''Starting test gettime...'' @ [10]) 25 u;
     (i, u) \<leftarrow> gettime_u S u;
     u \<leftarrow> itoa_z i u;
     u \<leftarrow> puts_z S (str ''Current time: '') 14 u;
     u \<leftarrow> put_buff_z S u;
     u \<leftarrow> puts_z S (str '' ticks'' @ [10]) 7 u;
     u \<leftarrow> wait_loop S u;
     u \<leftarrow> puts_z S (str ''Finished some work...'' @ [10]) 22 u;
     (j, u) \<leftarrow> gettime_u S u;
     u \<leftarrow> puts_z S (str ''Time elapsed: '') 14 u;
     u \<leftarrow> itoa_z (c_int (j - i)) u;
     u \<leftarrow> put_buff_z S u;
     puts_z S (str '' ticks'' @ [10]) 7 u
   }"

definition write_test_z :: "'k sys \<Rightarrow> 'k uproc_z \<Rightarrow> 'k uproc_z option" where
  "write_test_z S u = do {
     (n, u) \<leftarrow> write_z S 1 (str ''WRITE TEST'' @ [10, 0]) 11 u;
     u \<leftarrow> (if n < 0 then perror_u_z S (str ''write'' @ [0]) u else Some u);
     (n, u) \<leftarrow> write_z S 2 (str ''WRITE TEST ERROR'' @ [10, 0]) 18 u;
     u \<leftarrow> (if n < 0 then perror_u_z S (str ''write'' @ [0]) u else Some u);
     (p, u) \<leftarrow> getpid_z S u;
     let u = u\<lparr>pid := p\<rparr>;
     u \<leftarrow> puts_z S (str ''PID: '') 5 u;
     u \<leftarrow> itoa_z (pid u) u;
     u \<leftarrow> put_buff_z S u;
     puts_z S [10] 1 u
   }"

definition user_main_z :: "'k sys \<Rightarrow> 'k uproc_z \<Rightarrow> 'k uproc_z option" where
  "user_main_z S u = gettime_test_z S u \<bind> write_test_z S"

section \<open>The program of E1_E2\<close>

text \<open>
  \<open>buff\<close> is a pointer, which the program sets to string constants and then gives to \<open>itoa\<close>, so that the
  constants change (the linker script puts them into the data pages). A constant is an array named by its
  text; equal constants are one array.
\<close>

record 'k uproc_e = "'k uproc" +
  lits :: "Byte list \<Rightarrow> Byte list"
  buff_e :: "Byte list"

definition put_lit :: "'k sys \<Rightarrow> int \<Rightarrow> Byte list \<Rightarrow> int \<Rightarrow> 'k uproc_e \<Rightarrow> (int \<times> 'k uproc_e) option" where
  "put_lit S fd l n u = write_u S fd (lits u l) n u"

definition put_lit_f :: "'k sys \<Rightarrow> int \<Rightarrow> Byte list \<Rightarrow> int \<Rightarrow> 'k uproc_e \<Rightarrow> (int \<times> 'k uproc_e) option" where
  "put_lit_f S fd l n u = write_f S fd (lits u l) n u"

text \<open>\<open>write(1, buff, n)\<close>, \<open>write(1, buff, strlen(buff))\<close> and \<open>itoa(a, buff)\<close>.\<close>

definition put_buff :: "'k sys \<Rightarrow> int \<Rightarrow> 'k uproc_e \<Rightarrow> (int \<times> 'k uproc_e) option" where
  "put_buff S n u = put_lit S 1 (buff_e u) n u"

definition put_string :: "'k sys \<Rightarrow> 'k uproc_e \<Rightarrow> 'k uproc_e option" where
  "put_string S u = do {
     n \<leftarrow> strlen (lits u (buff_e u));
     map_option snd (put_buff S (int n) u)
   }"

definition itoa_buff :: "int \<Rightarrow> 'k uproc_e \<Rightarrow> 'k uproc_e option" where
  "itoa_buff a u = map_option (\<lambda>b. u\<lparr>lits := (lits u)(buff_e u := b)\<rparr>) (itoa a (lits u (buff_e u)))"

text \<open>Here the message is chosen after the first \<open>write\<close>.\<close>

definition perror_u_e :: "'k sys \<Rightarrow> 'k uproc_e \<Rightarrow> 'k uproc_e option" where
  "perror_u_e S u = do {
     u \<leftarrow> do_writes S (write_u S) [hd (perror_e (errno u))] u;
     do_writes S (write_u S) (tl (perror_e (errno u))) u
   }"

definition test_gettime :: "'k sys \<Rightarrow> 'k uproc_e \<Rightarrow> 'k uproc_e option" where
  "test_gettime S u = do {
     (t1, u) \<leftarrow> gettime_u S u;
     u \<leftarrow> wait_loop S u;
     (t2, u) \<leftarrow> gettime_u S u;
     if t2 > t1 then map_option snd (put_lit S 1 (str ''Gettime: Succeed'' @ [10]) 17 u)
     else Some u
   }"

definition test_write :: "'k sys \<Rightarrow> 'k uproc_e \<Rightarrow> 'k uproc_e option" where
  "test_write S u = do {
     (r, u) \<leftarrow> put_lit S 1 (str ''Write: Succeed'' @ [10]) 15 u;
     u \<leftarrow> (if r \<noteq> 15 then perror_u_e S u else Some u);
     (r, u) \<leftarrow> put_lit S 2 (str ''error'') 5 u;
     if r < 0 then perror_u_e S u else Some u
   }"

definition test_fsyscalls :: "'k sys \<Rightarrow> 'k uproc_e \<Rightarrow> 'k uproc_e option" where
  "test_fsyscalls S u = do {
     (t1, u) \<leftarrow> gettime_f S u;
     (_, u) \<leftarrow> put_lit_f S 1 (str ''Write_f: Sysenter Succeed'' @ [10]) 26 u;
     (r, u) \<leftarrow> put_lit_f S 2 (str ''Error'') 5 u;
     u \<leftarrow> (if r < 0 then perror_u_e S u else Some u);
     (t2, u) \<leftarrow> gettime_f S u;
     u \<leftarrow> (if t2 \<le> t1 then map_option snd (put_lit_f S 1 (str ''Error in gettime_f'' @ [10]) 19 u) else Some u);
     if t2 > t1 then map_option snd (put_lit_f S 1 (str ''gettime_f: Sysenter Succeed'' @ [10]) 27 u) else Some u
   }"

definition test_getpid :: "'k sys \<Rightarrow> 'k uproc_e \<Rightarrow> 'k uproc_e option" where
  "test_getpid S u = do {
     (_, u) \<leftarrow> put_lit S 1 [10] 1 u;
     u \<leftarrow> put_string S (u\<lparr>buff_e := str ''Testing getpid: PID = ''\<rparr>);
     (p, u) \<leftarrow> getpid_u S u;
     let u = u\<lparr>pid := p\<rparr>;
     if pid u = 1 then do {
       u \<leftarrow> put_string S (u\<lparr>buff_e := str ''getpid: Succeed'' @ [10]\<rparr>);
       u \<leftarrow> put_string S (u\<lparr>buff_e := str ''PID number = ''\<rparr>);
       u \<leftarrow> itoa_buff (pid u) u;
       u \<leftarrow> put_string S u;
       map_option snd (put_lit S 1 [10] 1 u)
     }
     else put_string S (u\<lparr>buff_e := str ''Error in getpid'' @ [10]\<rparr>)
   }"

text \<open>\<open>if (write(1,buff,n) == -1) {perror(); exit();}\<close>\<close>

definition put_or_exit :: "'k sys \<Rightarrow> int \<Rightarrow> 'k uproc_e \<Rightarrow> 'k uproc_e option" where
  "put_or_exit S n u = do {
     (r, u) \<leftarrow> put_buff S n u;
     if r = -1 then perror_u_e S u \<bind> exit_u S else Some u
   }"

text \<open>The endless loop of the second process, after a number of rounds.\<close>

fun unblock_rounds :: "'k sys \<Rightarrow> int \<Rightarrow> nat \<Rightarrow> 'k uproc_e \<Rightarrow> 'k uproc_e option" where
  "unblock_rounds S p 0 u = Some u"
| "unblock_rounds S p (Suc n) u = do {
     (r, u) \<leftarrow> unblock_u S p u;
     u \<leftarrow> (if r = -1 then perror_u_e S u \<bind> exit_u S else Some u);
     unblock_rounds S p n u
   }"

definition put_pid :: "'k sys \<Rightarrow> 'k uproc_e \<Rightarrow> 'k uproc_e option" where
  "put_pid S u = do {
     u \<leftarrow> put_or_exit S 17 u;
     (p, u) \<leftarrow> getpid_u S u;
     u \<leftarrow> itoa_buff p u;
     put_or_exit S 2 u
   }"

text \<open>The third process, \<open>pid_test2 == 0\<close>.\<close>

definition block_test :: "'k sys \<Rightarrow> 'k uproc_e \<Rightarrow> 'k uproc_e option" where
  "block_test S u = do {
     u \<leftarrow> put_pid S (u\<lparr>buff_e := [10] @ str ''Im the PROCESS: ''\<rparr>);
     u \<leftarrow> put_or_exit S 21 (u\<lparr>buff_e := str '' im going to block!'' @ [10]\<rparr>);
     u \<leftarrow> block_u S u;
     u \<leftarrow> put_or_exit S 12 (u\<lparr>buff_e := str ''Unlocked! '' @ [10]\<rparr>);
     u \<leftarrow> exit_u S u;
     put_or_exit S 21 (u\<lparr>buff_e := [10] @ str ''I should not be here'' @ [10]\<rparr>)
   }"

text \<open>The result, or \<open>None\<close> for the second process, which is still in its loop.\<close>

definition test_fork_and_blocks :: "'k sys \<Rightarrow> nat \<Rightarrow> 'k uproc_e \<Rightarrow> (int option \<times> 'k uproc_e) option" where
  "test_fork_and_blocks S rounds u = do {
     (pid_test, u) \<leftarrow> fork_u S u;
     if pid_test = 0 then do {
       (pid_test2, u) \<leftarrow> fork_u S u;
       if pid_test2 > 0 then do {
         u \<leftarrow> put_pid S (u\<lparr>buff_e := [10] @ str ''Im the PROCESS: ''\<rparr>);
         u \<leftarrow> unblock_rounds S pid_test2 rounds u;
         Some (None, u)
       }
       else if pid_test2 = 0 then map_option (Pair (Some 1)) (block_test S u)
       else map_option (Pair (Some 1)) (perror_u_e S u)
     }
     else if pid_test > 0 then do {
       u \<leftarrow> put_pid S (u\<lparr>buff_e := str ''Im the PROCESS: ''\<rparr>);
       (_, u) \<leftarrow> put_lit S 1 [10] 1 u;
       Some (Some 1, u)
     }
     else do {
       u \<leftarrow> perror_u_e S u;
       u \<leftarrow> exit_u S u;
       Some (Some 1, u)
     }
   }"

definition user_main_e :: "'k sys \<Rightarrow> nat \<Rightarrow> 'k uproc_e \<Rightarrow> 'k uproc_e option" where
  "user_main_e S rounds u = do {
     u \<leftarrow> test_gettime S u;
     u \<leftarrow> test_write S u;
     u \<leftarrow> test_fsyscalls S u;
     u \<leftarrow> test_getpid S u;
     (r, u) \<leftarrow> test_fork_and_blocks S rounds u;
     case r of
       None \<Rightarrow> Some u
     | Some v \<Rightarrow>
         if v \<noteq> 0 then put_string S (u\<lparr>buff_e := str ''Tests E2 passed! :) '' @ [10]\<rparr>)
         else put_string S (u\<lparr>buff_e := str ''Tests E2 NOT passed :( '' @ [10]\<rparr>)
   }"

end
