(* ===== verification/User_Spec.thy ===== *)
theory User_Spec
  imports User_Programs Zeos_Screen
begin

text \<open>
  The contract between a user program and a kernel, and what the two programs do on every kernel that
  keeps it. A kernel is seen through a \<open>kview\<close>: the bytes on the console, the identifier of the running
  process, the clock, and whether a fork can succeed.
\<close>

lemma length_str [simp]: "length (str cs) = length cs"
  by (simp add: str_def)

section \<open>Calls that come back\<close>

definition yields :: "'a option \<Rightarrow> ('a \<Rightarrow> bool) \<Rightarrow> bool" where
  "yields m Q \<longleftrightarrow> (\<exists>x. m = Some x \<and> Q x)"

lemma yields_simps [simp]:
  "yields (Some x) Q = Q x" "\<not> yields None Q"
  "yields (map_option f m) Q = yields m (\<lambda>x. Q (f x))"
  "yields (m \<bind> h) Q = yields m (\<lambda>x. yields (h x) Q)"
  by (auto simp: yields_def split: bind_splits)

lemma yieldsE: "yields m P \<Longrightarrow> (\<And>x. m = Some x \<Longrightarrow> P x \<Longrightarrow> Q x) \<Longrightarrow> yields m Q"
  by (auto simp: yields_def)

section \<open>The contract\<close>

record kview =
  v_out :: "Byte list"
  v_pid :: int
  v_time :: int
  v_fork :: bool

definition add_out :: "Byte list \<Rightarrow> kview \<Rightarrow> kview" where
  "add_out w v = v\<lparr>v_out := v_out v @ w\<rparr>"

lemma add_out_time [simp]: "add_out w (v\<lparr>v_time := t\<rparr>) = (add_out w v)\<lparr>v_time := t\<rparr>"
  by (simp add: add_out_def)

lemma add_out_simps [simp]:
  "v_out (add_out w v) = v_out v @ w" "v_pid (add_out w v) = v_pid v" "v_time (add_out w v) = v_time v"
  "v_fork (add_out w v) = v_fork v" "add_out w' (add_out w v) = add_out (w @ w') v" "add_out [] v = v"
  by (simp_all add: add_out_def)

text \<open>The clock of the library only adds to what is on the console.\<close>

definition clock_appends :: "(screen \<Rightarrow> screen) \<Rightarrow> bool" where
  "clock_appends f \<longleftrightarrow> (\<forall>sc. \<exists>w. port_e9 (f sc) = port_e9 sc @ w)"

locale console_kernel =
  fixes S :: "'k sys" and ok :: "'k \<Rightarrow> bool" and view :: "'k \<Rightarrow> kview" and elapsed :: int
  assumes write_out: "\<lbrakk>ok k; 0 \<le> n; nat n \<le> length b; length b \<le> 256\<rbrakk> \<Longrightarrow>
      yields (trap S g 4 (1, b, n) k) (\<lambda>(r, k'). r = n \<and> ok k' \<and> view k' = add_out (take (nat n) b) (view k))"
    and write_fd: "\<lbrakk>ok k; fd \<noteq> 1; length b \<le> 256\<rbrakk> \<Longrightarrow>
      yields (trap S g 4 (fd, b, n) k) (\<lambda>(r, k'). r = - EBADF \<and> ok k' \<and> view k' = view k)"
    and get_time: "ok k \<Longrightarrow>
      yields (trap S g 10 (0, [], 0) k) (\<lambda>(r, k'). r = v_time (view k) \<and> ok k' \<and> view k' = view k)"
    and get_ident: "ok k \<Longrightarrow>
      yields (trap S g 20 (0, [], 0) k) (\<lambda>(r, k'). r = v_pid (view k) \<and> ok k' \<and> view k' = view k)"
    and pass: "\<lbrakk>ok k; 0 \<le> v_time (view k); v_time (view k) + elapsed < 2 ^ 31\<rbrakk> \<Longrightarrow>
      ok (spin S k) \<and> (\<exists>w. view (spin S k) = (add_out w (view k))\<lparr>v_time := v_time (view k) + elapsed\<rparr>)"
    and elapsed_pos: "0 \<le> elapsed"

locale forking_kernel = console_kernel +
  assumes fork: "\<lbrakk>ok k; v_fork (view k)\<rbrakk> \<Longrightarrow>
      yields (trap S g 2 (0, [], 0) k) (\<lambda>(r, k'). 0 < r \<and> ok k' \<and> (\<exists>f. view k' = (view k)\<lparr>v_fork := f\<rparr>))"

context console_kernel
begin

section \<open>The wrappers on such a kernel\<close>

lemma wrapper_write:
  assumes "ok (kern u)" and "0 \<le> n" and "nat n \<le> length b" and "length b \<le> 256"
    and "\<And>k. ok k \<Longrightarrow> view k = add_out (take (nat n) b) (view (kern u)) \<Longrightarrow> Q (n, u\<lparr>kern := k\<rparr>)"
  shows "yields (wrapper S g 4 (1, b, n) u) Q"
  unfolding wrapper_def yields_simps
  by (rule yieldsE [OF write_out [OF assms(1-4)]]) (use assms(2,5) in \<open>auto simp: wrapper_result_def\<close>)

lemma wrapper_fd:
  assumes "ok (kern u)" and "fd \<noteq> 1" and "length b \<le> 256"
    and "\<And>k. ok k \<Longrightarrow> view k = view (kern u) \<Longrightarrow> Q (-1, u\<lparr>kern := k, errno := EBADF\<rparr>)"
  shows "yields (wrapper S g 4 (fd, b, n) u) Q"
  unfolding wrapper_def yields_simps
  by (rule yieldsE [OF write_fd [OF assms(1-3)]])
    (use assms(4) in \<open>auto simp: wrapper_result_def EBADF_def c_int_def\<close>)

lemma wrapper_time:
  assumes "ok (kern u)" and "0 \<le> v_time (view (kern u))"
    and "\<And>k. ok k \<Longrightarrow> view k = view (kern u) \<Longrightarrow> Q (v_time (view (kern u)), u\<lparr>kern := k\<rparr>)"
  shows "yields (wrapper S g 10 (0, [], 0) u) Q"
  unfolding wrapper_def yields_simps
  by (rule yieldsE [OF get_time [OF assms(1)]]) (use assms(2,3) in \<open>auto simp: wrapper_result_def\<close>)

lemma wrapper_ident:
  assumes "ok (kern u)" and "0 \<le> v_pid (view (kern u))"
    and "\<And>k. ok k \<Longrightarrow> view k = view (kern u) \<Longrightarrow> Q (v_pid (view (kern u)), u\<lparr>kern := k\<rparr>)"
  shows "yields (wrapper S g 20 (0, [], 0) u) Q"
  unfolding wrapper_def yields_simps
  by (rule yieldsE [OF get_ident [OF assms(1)]]) (use assms(2,3) in \<open>auto simp: wrapper_result_def\<close>)

lemma trap_ident:
  assumes "ok k" and "\<And>k'. ok k' \<Longrightarrow> view k' = view k \<Longrightarrow> Q (v_pid (view k), k')"
  shows "yields (trap S g 20 (0, [], 0) k) Q"
  by (rule yieldsE [OF get_ident [OF assms(1)]]) (use assms(2) in auto)

lemma wait_passes:
  assumes "ok (kern u)" and "0 \<le> v_time (view (kern u))" and "v_time (view (kern u)) + elapsed < 2 ^ 31"
    and "\<And>k w. ok k \<Longrightarrow> view k = (add_out w (view (kern u)))\<lparr>v_time := v_time (view (kern u)) + elapsed\<rparr> \<Longrightarrow>
      Q (u\<lparr>kern := k\<rparr>)"
  shows "yields (wait_loop S u) Q"
  using pass [OF assms(1-3)] assms(4) by (auto simp: wait_loop_def)

lemma do_writes_out:
  assumes "ok (kern u)" and "\<forall>(fd, b, n)\<in>set cs. fd = 1 \<and> n \<le> length b \<and> length b \<le> 256"
    and "\<And>k. ok k \<Longrightarrow> view k = add_out (sent cs) (view (kern u)) \<Longrightarrow> Q (u\<lparr>kern := k\<rparr>)"
  shows "yields (do_writes S (\<lambda>fd b n. wrapper S g 4 (fd, b, n)) cs u) Q"
  using assms
proof (induction cs arbitrary: u)
  case Nil
  then show ?case using Nil.prems(3) [of "kern u"] by (simp add: sent_def)
next
  case (Cons c cs)
  obtain b n where c: "c = (1, b, n)" "n \<le> length b" "length b \<le> 256" using Cons.prems(2) by (cases c) auto
  show ?case
    unfolding c do_writes.simps yields_simps
  proof (rule wrapper_write [OF Cons.prems(1)], use c in simp_all)
    fix k
    assume k: "ok k" "view k = add_out (take n b) (view (kern u))"
    show "yields (do_writes S (\<lambda>fd b n. wrapper S g 4 (fd, b, n)) cs (u\<lparr>kern := k\<rparr>)) Q"
      by (rule Cons.IH) (use k Cons.prems(2,3) c in \<open>auto simp: sent_def\<close>)
  qed
qed

section \<open>The program of the root kernel\<close>

lemma puts_out:
  assumes "ok (kern u)" and "0 \<le> n" and "nat n \<le> length b" and "length b < 256"
    and "\<And>k. ok k \<Longrightarrow> view k = add_out (take (nat n) b) (view (kern u)) \<Longrightarrow> Q (u\<lparr>kern := k\<rparr>)"
  shows "yields (puts_z S b n u) Q"
  unfolding puts_z_def write_z_def yields_simps
  by (rule wrapper_write [OF assms(1,2)]) (use assms in auto)

end

lemma itoa_z_writes:
  assumes "0 \<le> a" and "a < 2 ^ 31" and "length (buff_z u) = 24"
    and "\<And>ys. length (decimal (nat a) @ 0 # ys) = 24 \<Longrightarrow> Q (u\<lparr>buff_z := decimal (nat a) @ 0 # ys\<rparr>)"
  shows "yields (itoa_z a u) Q"
proof -
  have "nat a < 10 ^ Suc 9" using assms(2) by simp
  then have "length (decimal (nat a)) \<le> 10" using decimal_length [of "nat a" 9] by simp
  then show ?thesis
    using assms(3) itoa_decimal [OF assms(1), of "buff_z u"]
    by (auto simp: itoa_z_def intro!: assms(4))
qed

definition time_report :: "int \<Rightarrow> int \<Rightarrow> Byte list \<Rightarrow> Byte list" where
  "time_report t d w =
     [10] @ str ''Starting test gettime...'' @ [10] @
     str ''Current time: '' @ decimal (nat t) @ str '' ticks'' @ [10] @ w @
     str ''Finished some work...'' @ [10] @
     str ''Time elapsed: '' @ decimal (nat d) @ str '' ticks'' @ [10]"

definition call_report :: "int \<Rightarrow> Byte list" where
  "call_report p =
     str ''WRITE TEST'' @ [10] @ str ''write: Bad file number'' @ [10] @
     str ''PID: '' @ decimal (nat p) @ [10]"

definition write_report :: "Byte list" where
  "write_report = str ''Write: Succeed'' @ [10] @ str ''PERROR: Bad file number'' @ [10]"

definition fast_report :: "Byte list" where
  "fast_report = str ''Write_f: Sysenter Succeed'' @ [10] @ str ''PERROR: Bad file number'' @ [10] @
     str ''Error in gettime_f'' @ [10]"

definition pid_report :: "Byte list" where
  "pid_report = [10] @ str ''Testing getpid: PID = '' @ str ''getpid: Succeed'' @ [10] @ str ''PID number = '' @ [49, 10]"

definition test_report :: "int \<Rightarrow> Byte list" where
  "test_report d = (if 0 < d then str ''Gettime: Succeed'' @ [10] else []) @ write_report @ fast_report @ pid_report @
     str ''Im the PROCESS: '' @ [0, 49, 0, 10] @ str ''Tests E2 passed! :) '' @ [10]"

text \<open>The string constants before the program changes one, each with its terminating zero.\<close>

definition fresh :: "Byte list \<Rightarrow> Byte list" where
  "fresh l = l @ [0]"

lemma length_fresh: "length (fresh l) = Suc (length l)"
  by (simp add: fresh_def)

lemma no_zero:
  "0 \<notin> set (str ''Testing getpid: PID = '')" "0 \<notin> set (str ''getpid: Succeed'')" "0 \<notin> set (str ''PID number = '')"
  "0 \<notin> set (str ''Tests E2 passed! :) '')"
  by (simp_all add: str_def)

lemma other_lits:
  "[10] \<noteq> str ''PID number = ''" "[10] \<noteq> str ''Im the PROCESS: ''" "str ''Im the PROCESS: '' \<noteq> str ''PID number = ''"
  "str ''Tests E2 passed! :) '' @ [10] \<noteq> str ''PID number = ''"
  "str ''Tests E2 passed! :) '' @ [10] \<noteq> str ''Im the PROCESS: ''"
  by (simp_all add: str_def)

lemma fresh_newline: "fresh [10] = [10, 0]"
  by (simp add: fresh_def)

lemmas lit_simps = length_fresh no_zero other_lits fresh_newline

lemma itoa_buff_1:
  assumes "2 \<le> length (lits u (buff_e u))"
    and "Q (u\<lparr>lits := (lits u)(buff_e u := 49 # 0 # drop 2 (lits u (buff_e u)))\<rparr>)"
  shows "yields (itoa_buff 1 u) Q"
proof -
  have "decimal 1 = [49]" by (subst decimal.simps) simp
  then show ?thesis using assms itoa_decimal [of 1 "lits u (buff_e u)"] by (simp add: itoa_buff_def numeral_2_eq_2)
qed

context console_kernel
begin

lemma put_buff_out:
  assumes "ok (kern u)" and "buff_z u = decimal a @ 0 # ys" and "length (buff_z u) = 24"
    and "\<And>k. ok k \<Longrightarrow> view k = add_out (decimal a) (view (kern u)) \<Longrightarrow> Q (u\<lparr>kern := k\<rparr>)"
  shows "yields (put_buff_z S u) Q"
  unfolding put_buff_z_def write_z_def yields_simps assms(2) strlen_prefix [OF decimal_nonzero]
  by (rule wrapper_write [OF assms(1)]) (use assms in auto)

lemma perror_out:
  assumes "ok (kern u)" and "errno u = EBADF"
    and "\<And>k. ok k \<Longrightarrow> view k = add_out (str ''write: Bad file number'' @ [10]) (view (kern u)) \<Longrightarrow> Q (u\<lparr>kern := k\<rparr>)"
  shows "yields (perror_u_z S (str ''write'' @ [0]) u) Q"
proof -
  have cs: "perror_z EBADF (Some (str ''write'' @ [0])) = Some [(1, str ''write'' @ [0], 5), (1, str '': '', 2),
      (1, str ''Bad file number'' @ [0], 15), (1, [10], 1)]"
    by (simp add: perror_z_def load_def perror_message_def str_def)
  show ?thesis
    unfolding perror_u_z_def assms(2) cs yields_simps write_z_def
    by (rule do_writes_out [OF assms(1)]) (use assms(3) in \<open>auto simp: sent_def str_def\<close>)
qed

lemmas user_rules = puts_out itoa_z_writes put_buff_out wrapper_time wrapper_write wrapper_fd perror_out
  wrapper_ident wait_passes

lemma gettime_test_out:
  assumes "ok (kern u)" and "length (buff_z u) = 24" and "0 \<le> v_time (view (kern u))"
    and "v_time (view (kern u)) + elapsed < 2 ^ 31"
  shows "yields (gettime_test_z S u) (\<lambda>u'. ok (kern u') \<and> length (buff_z u') = 24 \<and> (\<exists>w. view (kern u') =
    (add_out (time_report (v_time (view (kern u))) elapsed w) (view (kern u)))
      \<lparr>v_time := v_time (view (kern u)) + elapsed\<rparr>))"
proof -
  have t: "v_time (view (kern u)) < 2 ^ 31" "0 \<le> v_time (view (kern u)) + elapsed" "0 \<le> elapsed" "elapsed < 2 ^ 31"
    "c_int elapsed = elapsed"
    using elapsed_pos assms(3,4) by auto
  show ?thesis
    using assms t unfolding gettime_test_z_def yields_simps gettime_u_def
    by - (rule user_rules | (rule exI, rule refl) | simp add: Let_def time_report_def)+
qed

lemma write_test_out:
  assumes "ok (kern u)" and "length (buff_z u) = 24" and "0 \<le> v_pid (view (kern u))" and "v_pid (view (kern u)) < 2 ^ 31"
  shows "yields (write_test_z S u) (\<lambda>u'. ok (kern u') \<and> view (kern u') =
    add_out (call_report (v_pid (view (kern u)))) (view (kern u)))"
  using assms unfolding write_test_z_def yields_simps getpid_z_def write_z_def
  by - (rule user_rules | simp add: Let_def call_report_def)+

lemma user_main_z_out:
  assumes "ok (kern u)" and "length (buff_z u) = 24" and "0 \<le> v_time (view (kern u))"
    and "v_time (view (kern u)) + elapsed < 2 ^ 31" and "0 \<le> v_pid (view (kern u))" and "v_pid (view (kern u)) < 2 ^ 31"
  shows "yields (user_main_z S u) (\<lambda>u'. \<exists>w. v_out (view (kern u')) = v_out (view (kern u)) @
    time_report (v_time (view (kern u))) elapsed w @ call_report (v_pid (view (kern u))))"
  unfolding user_main_z_def yields_simps
  by (rule yieldsE [OF gettime_test_out [OF assms(1-4)]])
    (use assms(5,6) in \<open>auto intro!: yieldsE [OF write_test_out]\<close>)

section \<open>The program of E1_E2\<close>

lemma put_lit_out:
  assumes "ok (kern u)" and "0 \<le> n" and "nat n \<le> length (lits u l)" and "length (lits u l) \<le> 256"
    and "\<And>k. ok k \<Longrightarrow> view k = add_out (take (nat n) (lits u l)) (view (kern u)) \<Longrightarrow> Q (n, u\<lparr>kern := k\<rparr>)"
  shows "yields (put_lit S 1 l n u) Q" and "yields (put_lit_f S 1 l n u) Q"
  unfolding put_lit_def put_lit_f_def write_u_def write_f_def
  by (rule wrapper_write [OF assms(1-4)], rule assms(5), assumption+)+

lemma put_lit_fd:
  assumes "ok (kern u)" and "fd \<noteq> 1" and "length (lits u l) \<le> 256"
    and "\<And>k. ok k \<Longrightarrow> view k = view (kern u) \<Longrightarrow> Q (-1, u\<lparr>kern := k, errno := EBADF\<rparr>)"
  shows "yields (put_lit S fd l n u) Q" and "yields (put_lit_f S fd l n u) Q"
  unfolding put_lit_def put_lit_f_def write_u_def write_f_def
  by (rule wrapper_fd [OF assms(1-3)], rule assms(4), assumption+)+

lemma put_string_prefix:
  assumes "ok (kern u)" and "lits u (buff_e u) = cs @ 0 # ys" and "0 \<notin> set cs" and "length (cs @ 0 # ys) \<le> 256"
    and "\<And>k. ok k \<Longrightarrow> view k = add_out cs (view (kern u)) \<Longrightarrow> Q (u\<lparr>kern := k\<rparr>)"
  shows "yields (put_string S u) Q"
  unfolding put_string_def put_buff_def yields_simps assms(2) strlen_prefix [OF assms(3)]
  by (rule put_lit_out [OF assms(1)]) (use assms in auto)

lemma put_string_out:
  assumes "ok (kern u)" and "lits u (buff_e u) = fresh (buff_e u)" and "0 \<notin> set (buff_e u)" and "length (buff_e u) < 256"
    and "\<And>k. ok k \<Longrightarrow> view k = add_out (buff_e u) (view (kern u)) \<Longrightarrow> Q (u\<lparr>kern := k\<rparr>)"
  shows "yields (put_string S u) Q"
  by (rule put_string_prefix [OF assms(1) assms(2) [unfolded fresh_def] assms(3)]) (use assms(4,5) in auto)

lemma itoa_put_1:
  assumes "ok (kern u)" and "lits u (buff_e u) = fresh (buff_e u)" and "0 < length (buff_e u)" and "length (buff_e u) < 256"
    and "\<And>k. ok k \<Longrightarrow> view k = add_out [49] (view (kern u)) \<Longrightarrow>
      Q (u\<lparr>lits := (lits u)(buff_e u := 49 # 0 # drop 2 (fresh (buff_e u))), kern := k\<rparr>)"
  shows "yields (itoa_buff 1 u) (\<lambda>u. yields (put_string S u) Q)"
proof (rule itoa_buff_1)
  let ?u = "u\<lparr>lits := (lits u)(buff_e u := 49 # 0 # drop 2 (lits u (buff_e u)))\<rparr>"
  show "2 \<le> length (lits u (buff_e u))" using assms(2,3) by (simp add: length_fresh Suc_le_eq)
  show "yields (put_string S ?u) Q"
    by (rule put_string_prefix [of ?u "[49]" "drop 2 (fresh (buff_e u))"])
      (use assms in \<open>simp_all add: length_fresh\<close>)
qed

lemma perror_e_out:
  assumes "ok (kern u)" and "errno u = EBADF"
    and "\<And>k. ok k \<Longrightarrow> view k = add_out (str ''PERROR: Bad file number'' @ [10]) (view (kern u)) \<Longrightarrow> Q (u\<lparr>kern := k\<rparr>)"
  shows "yields (perror_u_e S u) Q"
proof -
  have cs: "perror_e EBADF = [(1, str ''PERROR: '', 8), (1, str ''Bad file number'' @ [10], 16)]"
    by (simp add: perror_e_def EACCES_def EFAULT_def EINVAL_def EBADF_def)
  show ?thesis
    unfolding perror_u_e_def yields_simps write_u_def assms(2) cs list.sel
    by (rule do_writes_out [OF assms(1)], simp, rule do_writes_out)
      (use assms in \<open>auto simp: cs sent_def str_def\<close>)
qed

lemma put_or_exit_out:
  assumes "ok (kern u)" and "0 \<le> n" and "nat n \<le> length (lits u (buff_e u))" and "length (lits u (buff_e u)) \<le> 256"
    and "\<And>k. ok k \<Longrightarrow> view k = add_out (take (nat n) (lits u (buff_e u))) (view (kern u)) \<Longrightarrow> Q (u\<lparr>kern := k\<rparr>)"
  shows "yields (put_or_exit S n u) Q"
  unfolding put_or_exit_def put_buff_def yields_simps
  by (rule put_lit_out(1) [OF assms(1-4)]) (use assms(2,5) in auto)

lemma getpid_out:
  assumes "ok (kern u)" and "\<And>k. ok k \<Longrightarrow> view k = view (kern u) \<Longrightarrow> Q (v_pid (view (kern u)), u\<lparr>kern := k\<rparr>)"
  shows "yields (getpid_u S u) Q"
  unfolding getpid_u_def yields_simps by (rule trap_ident [OF assms(1)]) (use assms(2) in auto)

lemmas user_rules_e = put_lit_out put_lit_fd put_string_out perror_e_out put_or_exit_out getpid_out wrapper_time wait_passes

lemma test_gettime_out:
  assumes "ok (kern u)" and "lits u = fresh" and "0 \<le> v_time (view (kern u))"
    and "v_time (view (kern u)) + elapsed < 2 ^ 31"
  shows "yields (test_gettime S u) (\<lambda>u'. ok (kern u') \<and> lits u' = fresh \<and> (\<exists>w. view (kern u') =
    (add_out (w @ (if 0 < elapsed then str ''Gettime: Succeed'' @ [10] else [])) (view (kern u)))
      \<lparr>v_time := v_time (view (kern u)) + elapsed\<rparr>))"
proof -
  have "0 \<le> v_time (view (kern u)) + elapsed" using elapsed_pos assms(3) by simp
  then show ?thesis
    using assms unfolding test_gettime_def yields_simps gettime_u_def
    by (cases "0 < elapsed") (rule user_rules_e | (rule exI, rule refl) | simp add: Let_def fresh_def)+
qed

lemma test_write_out:
  assumes "ok (kern u)" and "lits u = fresh"
  shows "yields (test_write S u) (\<lambda>u'. ok (kern u') \<and> lits u' = fresh \<and> view (kern u') =
    add_out (str ''Write: Succeed'' @ [10] @ str ''PERROR: Bad file number'' @ [10]) (view (kern u)))"
  using assms unfolding test_write_def yields_simps
  by - (rule user_rules_e | simp add: fresh_def)+

lemma test_fsyscalls_out:
  assumes "ok (kern u)" and "lits u = fresh" and "0 \<le> v_time (view (kern u))"
  shows "yields (test_fsyscalls S u) (\<lambda>u'. ok (kern u') \<and> lits u' = fresh \<and> view (kern u') =
    add_out (str ''Write_f: Sysenter Succeed'' @ [10] @ str ''PERROR: Bad file number'' @ [10] @
      str ''Error in gettime_f'' @ [10]) (view (kern u)))"
  using assms unfolding test_fsyscalls_def yields_simps gettime_f_def
  by - (rule user_rules_e | simp add: fresh_def)+

lemma test_getpid_out:
  assumes "ok (kern u)" and "lits u = fresh" and "v_pid (view (kern u)) = 1"
  shows "yields (test_getpid S u) (\<lambda>u'. ok (kern u') \<and>
    lits u' = fresh(str ''PID number = '' := 49 # 0 # drop 2 (fresh (str ''PID number = ''))) \<and> view (kern u') =
    add_out ([10] @ str ''Testing getpid: PID = '' @ str ''getpid: Succeed'' @ [10] @ str ''PID number = '' @ [49, 10]) (view (kern u)))"
  using assms unfolding test_getpid_def yields_simps
  by - (rule itoa_put_1 user_rules_e | simp add: Let_def lit_simps)+

lemma put_pid_out:
  assumes "ok (kern u)" and "lits u (buff_e u) = fresh (buff_e u)" and "length (buff_e u) \<in> {16, 17}"
    and "v_pid (view (kern u)) = 1"
    and "\<And>k. ok k \<Longrightarrow> view k = add_out (take 17 (fresh (buff_e u)) @ [49, 0]) (view (kern u)) \<Longrightarrow>
      Q (u\<lparr>lits := (lits u)(buff_e u := 49 # 0 # drop 2 (fresh (buff_e u))), kern := k\<rparr>)"
  shows "yields (put_pid S u) Q"
  using assms unfolding put_pid_def yields_simps
  by - (rule user_rules_e itoa_buff_1 | (auto simp: length_fresh)[1])+

end

context forking_kernel
begin

lemma fork_out:
  assumes "ok (kern u)" and "v_fork (view (kern u))"
    and "\<And>k r f. 0 < r \<Longrightarrow> ok k \<Longrightarrow> view k = (view (kern u))\<lparr>v_fork := f\<rparr> \<Longrightarrow> Q (r, u\<lparr>kern := k\<rparr>)"
  shows "yields (fork_u S u) Q"
  unfolding fork_u_def wrapper_def yields_simps
  by (rule yieldsE [OF fork [OF assms(1,2)]]) (use assms(3) in \<open>auto simp: wrapper_result_def\<close>)

lemma test_fork_out:
  assumes "ok (kern u)" and "v_fork (view (kern u))" and "v_pid (view (kern u)) = 1"
    and "lits u (str ''Im the PROCESS: '') = fresh (str ''Im the PROCESS: '')" and "lits u [10] = fresh [10]"
  shows "yields (test_fork_and_blocks S n u) (\<lambda>(r, u'). r = Some 1 \<and> ok (kern u') \<and>
    (\<forall>l. l \<noteq> str ''Im the PROCESS: '' \<longrightarrow> lits u' l = lits u l) \<and>
    v_out (view (kern u')) = v_out (view (kern u)) @ str ''Im the PROCESS: '' @ [0, 49, 0, 10])"
  using assms unfolding test_fork_and_blocks_def yields_simps
  by - (rule fork_out put_pid_out put_lit_out | simp add: lit_simps | simp add: fresh_def)+

lemma user_main_e_out:
  assumes "ok (kern u)" and "lits u = fresh" and "0 \<le> v_time (view (kern u))"
    and "v_time (view (kern u)) + elapsed < 2 ^ 31" and "v_pid (view (kern u)) = 1" and "v_fork (view (kern u))"
  shows "yields (user_main_e S n u) (\<lambda>u'. \<exists>w. v_out (view (kern u')) = v_out (view (kern u)) @ w @ test_report elapsed)"
proof -
  let ?P = "\<lambda>w u'. ok (kern u') \<and> v_pid (view (kern u')) = 1 \<and> v_fork (view (kern u')) \<and>
    v_out (view (kern u')) = v_out (view (kern u)) @ w"
  let ?g = "if 0 < elapsed then str ''Gettime: Succeed'' @ [10] else []"
  obtain u1 w where 1: "test_gettime S u = Some u1" "lits u1 = fresh" "0 \<le> v_time (view (kern u1))" "?P (w @ ?g) u1"
    using test_gettime_out [OF assms(1-4)] elapsed_pos assms(3,5,6) by (auto simp: yields_def split del: if_split)
  obtain u2 where 2: "test_write S u1 = Some u2" "lits u2 = fresh" "0 \<le> v_time (view (kern u2))"
      "?P (w @ ?g @ write_report) u2"
    using test_write_out [of u1] 1 by (auto simp: yields_def write_report_def)
  obtain u3 where 3: "test_fsyscalls S u2 = Some u3" "lits u3 = fresh" "?P (w @ ?g @ write_report @ fast_report) u3"
    using test_fsyscalls_out [of u2] 2 by (auto simp: yields_def fast_report_def)
  obtain u4 where 4: "test_getpid S u3 = Some u4" "?P (w @ ?g @ write_report @ fast_report @ pid_report) u4"
      "lits u4 = fresh(str ''PID number = '' := 49 # 0 # drop 2 (fresh (str ''PID number = '')))"
    using test_getpid_out [of u3] 3 by (auto simp: yields_def pid_report_def)
  obtain u5 where 5: "test_fork_and_blocks S n u4 = Some (Some 1, u5)" "ok (kern u5)"
      "lits u5 (str ''Tests E2 passed! :) '' @ [10]) = fresh (str ''Tests E2 passed! :) '' @ [10])"
      "v_out (view (kern u5)) = v_out (view (kern u4)) @ str ''Im the PROCESS: '' @ [0, 49, 0, 10]"
    using test_fork_out [of u4 n] 4 by (auto simp: yields_def lit_simps)
  show ?thesis
    unfolding user_main_e_def yields_simps 1(1) 2(1) 3(1) 4(1) 5(1) prod.case option.case
    by (simp, rule put_string_out) (use 4(2) 5 in \<open>auto simp: lit_simps test_report_def\<close>)
qed

end

end
