(* ===== verification/E1_Sched.thy ===== *)
theory E1_Sched
  imports Zeos_Addr Zeos_Kbd Zeos_Libc
begin

text \<open>
  Process management of the earlier kernel \<^verbatim>\<open>so2_old/E1_E2/zeos/sched.c\<close>: the task array
  with parent links and lists of children, the free, ready and blocked queues, the
  round-robin policy and the task switch. The record \<open>e1\<close> extends the machine state with
  the globals of this kernel. Names that GAME uses too carry the suffix \<open>_e\<close>.

  A task structure has two list heads, \<open>list\<close> (\<open>TaskList t\<close>) and \<open>kids\<close> (\<open>TaskKids t\<close>);
  the code links \<open>list\<close> both in a scheduler queue and in the parent's \<open>kids\<close>.
\<close>

section \<open>State\<close>

definition DEFAULT_QUANTUM_e :: int where "DEFAULT_QUANTUM_e = 100"

record task_struct_e =
  PID_e :: int
  dir_pages_baseAddr_e :: DWord
  parent :: "nat option"
  state_e :: state_t
  quantum :: int
  pending_unblocks :: int
  kernel_esp :: "(nat \<times> nat) option"

record e1 = machine +
  tasks_e :: "nat \<Rightarrow> task_struct_e"
  idle_task_e :: "nat option"
  task1 :: "nat option"
  queue_ticks :: int
  PID_counter :: int
  zeos_ticks_e :: int

record e1cfg = mm_cfg +
  show_clock_e :: "screen \<Rightarrow> screen"                      \<comment> \<open>\<open>zeos_show_clock\<close> of \<^verbatim>\<open>libzeos.a\<close>\<close>
  monoprocess_init_addr_space :: "e1 \<Rightarrow> e1"              \<comment> \<open>also of \<^verbatim>\<open>libzeos.a\<close>\<close>
  after_char_map_e :: "nat \<Rightarrow> Byte"
  frame_words_e :: "string \<Rightarrow> nat"

definition upd_task_e :: "nat \<Rightarrow> (task_struct_e \<Rightarrow> task_struct_e) \<Rightarrow> e1 \<Rightarrow> e1" where
  "upd_task_e t f s = s\<lparr>tasks_e := (tasks_e s)(t := f (tasks_e s t))\<rparr>"

section \<open>Task structures\<close>

definition list_head_to_task_struct_e :: "node option \<Rightarrow> nat option" where
  "list_head_to_task_struct_e l = (case l of Some (TaskList t) \<Rightarrow> Some t | _ \<Rightarrow> None)"

definition current_e :: "e1 \<Rightarrow> nat" where
  "current_e s = fst (esp s)"

definition get_DIR_e :: "nat \<Rightarrow> e1 \<Rightarrow> DWord" where
  "get_DIR_e t s = dir_pages_baseAddr_e (tasks_e s t)"

definition get_PT_e :: "nat \<Rightarrow> e1 \<Rightarrow> DWord" where
  "get_PT_e t s = pte_pbase_addr (pt s (dir_pages_baseAddr_e (tasks_e s t)) 0)"

definition allocate_DIR_e :: "e1cfg \<Rightarrow> nat \<Rightarrow> e1 \<Rightarrow> int \<times> e1" where
  "allocate_DIR_e C t s =
     (1, upd_task_e t (dir_pages_baseAddr_e_update (\<lambda>_. dir_page C t)) s)"

definition get_quantum_e :: "nat \<Rightarrow> e1 \<Rightarrow> int" where
  "get_quantum_e t s = quantum (tasks_e s t)"

definition set_quantum_e :: "nat \<Rightarrow> int \<Rightarrow> e1 \<Rightarrow> e1" where
  "set_quantum_e t new_quantum s = upd_task_e t (quantum_update (\<lambda>_. new_quantum)) s"

section \<open>The task switch\<close>

definition saved_ptr :: "kword \<Rightarrow> (nat \<times> nat) option" where
  "saved_ptr w = (case w of StackAddr t i \<Rightarrow> Some (t, i) | _ \<Rightarrow> None)"

definition inner_task_switch_e :: "nat \<Rightarrow> e1 \<Rightarrow> e1 option" where
  "inner_task_switch_e new s = do {
     let s = s\<lparr>tss_esp0 := (new, KERNEL_STACK_SIZE)\<rparr>;
     let s = set_cr3 (get_DIR_e new s) s;
     let s = s\<lparr>msr_175 := tss_esp0 s\<rparr>;
     new_sp \<leftarrow> kernel_esp (tasks_e s new);
     let s = upd_task_e (current_e s) (kernel_esp_update (\<lambda>_. saved_ptr (ebp s))) s;
     Some (switch_stack_load new_sp s)
   }"

definition task_switch_e :: "nat \<Rightarrow> e1 \<Rightarrow> e1 option" where
  "task_switch_e new s = inner_task_switch_e new (task_switch_entry s)"

section \<open>Round robin\<close>

definition update_sched_data_rr_e :: "e1 \<Rightarrow> e1" where
  "update_sched_data_rr_e s = s\<lparr>queue_ticks := c_int (queue_ticks s - 1)\<rparr>"

definition needs_sched_rr_e :: "e1 \<Rightarrow> (int \<times> e1) option" where
  "needs_sched_rr_e s =
     (if queue_ticks s \<le> 0 then do {
        let s = s\<lparr>queue_ticks := get_quantum_e (current_e s) s\<rparr>;
        empty \<leftarrow> list_empty (Some Readyqueue) (links s);
        if \<not> empty then Some (1, s) else Some (0, s)
      }
      else if state_e (tasks_e s (current_e s)) = ST_BLOCKED then Some (1, s)
      else Some (0, s))"

definition update_process_state_rr_e :: "nat \<Rightarrow> node option \<Rightarrow> e1 \<Rightarrow> e1 option" where
  "update_process_state_rr_e t dst_queue s = do {
     s \<leftarrow> (if state_e (tasks_e s t) \<noteq> ST_RUN
          then map_option (\<lambda>h. s\<lparr>links := h\<rparr>) (list_del (Some (TaskList t)) (links s))
          else Some s);
     if dst_queue \<noteq> None then do {
       h \<leftarrow> list_add_tail (Some (TaskList t)) dst_queue (links s);
       let s = s\<lparr>links := h\<rparr>;
       if dst_queue = Some Readyqueue
       then Some (upd_task_e t (state_e_update (\<lambda>_. ST_READY)) s)
       else Some (upd_task_e t (state_e_update (\<lambda>_. ST_BLOCKED)) s)
     }
     else Some (upd_task_e t (state_e_update (\<lambda>_. ST_RUN)) s)
   }"

definition sched_next_rr_e :: "e1 \<Rightarrow> e1 option" where
  "sched_next_rr_e s = do {
     empty \<leftarrow> list_empty (Some Readyqueue) (links s);
     (next_task, s) \<leftarrow>
       (if \<not> empty then do {
          next \<leftarrow> list_first (Some Readyqueue) (links s);
          next_task \<leftarrow> list_head_to_task_struct_e next;
          s \<leftarrow> update_process_state_rr_e next_task None s;
          Some (next_task, s)
        } else do {
          next_task \<leftarrow> idle_task_e s;
          Some (next_task, s)
        });
     let s = s\<lparr>queue_ticks := quantum (tasks_e s next_task)\<rparr>;
     task_switch_e next_task s
   }"

definition schedule_e :: "e1 \<Rightarrow> e1 option" where
  "schedule_e s = do {
     let s = update_sched_data_rr_e s;
     (need, s) \<leftarrow> needs_sched_rr_e s;
     if need \<noteq> 0 then do {
       s \<leftarrow> update_process_state_rr_e (current_e s) (Some Readyqueue) s;
       sched_next_rr_e s
     } else Some s
   }"

section \<open>Initialisation\<close>

definition take_free_e :: "e1 \<Rightarrow> (nat \<times> e1) option" where
  "take_free_e s = do {
     first_free \<leftarrow> list_first (Some Freequeue) (links s);
     h \<leftarrow> list_del first_free (links s);
     c \<leftarrow> list_head_to_task_struct_e first_free;
     Some (c, s\<lparr>links := h\<rparr>)
   }"

definition init_idle_e :: "e1cfg \<Rightarrow> e1 \<Rightarrow> e1 option" where
  "init_idle_e C s = do {
     (c, s) \<leftarrow> take_free_e s;
     let s = upd_task_e c (PID_e_update (\<lambda>_. 0)) s;
     let s = set_quantum_e c DEFAULT_QUANTUM_e s;
     let s = upd_task_e c (pending_unblocks_update (\<lambda>_. 0)) s;
     let s = upd_task_e c (state_e_update (\<lambda>_. ST_READY)) s;
     h \<leftarrow> INIT_LIST_HEAD (Some (TaskKids c)) (links s);
     let s = s\<lparr>links := h\<rparr>;
     let s = snd (allocate_DIR_e C c s);
     let s = set_stack c (KERNEL_STACK_SIZE - 2) (Num 0) s;
     let s = set_stack c (KERNEL_STACK_SIZE - 1) (CodeAddr ''cpu_idle'') s;
     let s = upd_task_e c (kernel_esp_update (\<lambda>_. Some (c, KERNEL_STACK_SIZE - 2))) s;
     Some (s\<lparr>idle_task_e := Some c\<rparr>)
   }"

definition init_task1_e :: "e1cfg \<Rightarrow> e1 \<Rightarrow> e1 option" where
  "init_task1_e C s = do {
     (c, s) \<leftarrow> take_free_e s;
     let s = upd_task_e c (PID_e_update (\<lambda>_. 1)) s;
     let s = set_quantum_e c DEFAULT_QUANTUM_e s;
     let s = upd_task_e c (pending_unblocks_update (\<lambda>_. 0)) s;
     let s = upd_task_e c (state_e_update (\<lambda>_. ST_RUN)) s;
     h \<leftarrow> INIT_LIST_HEAD (Some (TaskKids c)) (links s);
     let s = s\<lparr>links := h\<rparr>;
     let s = snd (allocate_DIR_e C c s);
     let s = set_user_pages C (get_PT_e c s) s;
     let s = s\<lparr>tss_esp0 := (c, KERNEL_STACK_SIZE)\<rparr>;
     let s = s\<lparr>msr_175 := tss_esp0 s\<rparr>;
     let s = set_cr3 (dir_pages_baseAddr_e (tasks_e s c)) s;
     Some (s\<lparr>task1 := Some c\<rparr>)
   }"

fun fill_freequeue :: "nat list \<Rightarrow> e1 \<Rightarrow> e1 option" where
  "fill_freequeue [] s = Some s"
| "fill_freequeue (i # is) s = do {
     h \<leftarrow> list_add (Some (TaskList i)) (Some Freequeue) (links s);
     fill_freequeue is (s\<lparr>links := h\<rparr>)
   }"

definition init_sched_e :: "e1 \<Rightarrow> e1 option" where
  "init_sched_e s = do {
     h \<leftarrow> INIT_LIST_HEAD (Some Freequeue) (links s);
     h \<leftarrow> INIT_LIST_HEAD (Some Readyqueue) h;
     h \<leftarrow> INIT_LIST_HEAD (Some Blocked) h;
     s \<leftarrow> fill_freequeue [0..<NR_TASKS] (s\<lparr>links := h\<rparr>);
     Some (s\<lparr>queue_ticks := DEFAULT_QUANTUM_e\<rparr>)
   }"

end
