(* ===== verification/E1_Sys.thy ===== *)
theory E1_Sys
  imports E1_Sched Zeos_User
begin

text \<open>
  The system calls of \<^verbatim>\<open>so2_old/E1_E2/zeos/sys.c\<close>, the interrupt routines of
  \<^verbatim>\<open>interrupt.c\<close>, the entry points of \<^verbatim>\<open>entry.S\<close> and the boot sequence of \<^verbatim>\<open>system.c\<close>. As
  in GAME, the frames of C functions between a handler and \<open>task_switch\<close> are one return
  address, and \<open>None\<close> is a routine from which control does not come back: a page fault
  (whose routine loops forever), or an access through a pointer to something else.
\<close>

section \<open>\<open>init_child_address_space\<close>\<close>

definition BUFFER_SIZE :: int where "BUFFER_SIZE = 256"

text \<open>The first loop: \<open>new_frames\<close>, or what is left after giving back a partial allocation.\<close>

fun new_frames_from :: "nat \<Rightarrow> DWord list \<Rightarrow> 'a mm_state_scheme \<Rightarrow> DWord list option \<times> 'a mm_state_scheme" where
  "new_frames_from 0 fs m = (Some fs, m)"
| "new_frames_from (Suc n) fs m =
     (let (f, m) = alloc_frame m in
      if f < 0 then (None, fold free_frame fs m)
      else new_frames_from n (fs @ [word_of_int f]) m)"

definition map_data_pages :: "e1cfg \<Rightarrow> DWord \<Rightarrow> DWord list \<Rightarrow> 'a mm_state_scheme \<Rightarrow> 'a mm_state_scheme" where
  "map_data_pages C child_PT new_frames m =
     fold (\<lambda>frame. set_ss_pag child_PT (PAG_LOG_INIT_DATA C + frame) (new_frames ! frame))
       [0..<NUM_PAG_DATA] m"

definition init_child_address_space :: "e1cfg \<Rightarrow> nat \<Rightarrow> e1 \<Rightarrow> (int \<times> e1) option" where
  "init_child_address_space C child_pcb s = do {
     let (r, s) = new_frames_from NUM_PAG_DATA [] s;
     case r of
       None \<Rightarrow> do {
         h \<leftarrow> list_add_tail (Some (TaskList child_pcb)) (Some Freequeue) (links s);
         Some (- EAGAIN, s\<lparr>links := h\<rparr>)
       }
     | Some new_frames \<Rightarrow> do {
         let child_PT = get_PT_e child_pcb s;
         let parent_PT = get_PT_e (current_e s) s;
         let SHARED_SPACE = NUM_PAG_KERNEL + NUM_PAG_CODE;
         let TOTAL_SPACE = SHARED_SPACE + NUM_PAG_DATA;
         let s = share_kernel_and_code C child_PT parent_PT s;
         let s = map_data_pages C child_PT new_frames s;
         s \<leftarrow> copy_data_pages parent_PT (\<lambda>frame. PAG_LOG_INIT_DATA C + frame)
               (\<lambda>frame. TOTAL_SPACE + frame) (\<lambda>frame s. new_frames ! frame) [0..<NUM_PAG_DATA] s;
         Some (0, set_cr3 (get_DIR_e (current_e s) s) s)
       }
   }"

section \<open>System calls\<close>

definition check_fd_e :: "int \<Rightarrow> int \<Rightarrow> int" where
  "check_fd_e fd permissions = (if fd \<noteq> 1 then - 9 else if permissions \<noteq> 1 then - 13 else 0)"

definition sys_ni_syscall_e :: int where
  "sys_ni_syscall_e = - 38"

definition sys_getpid_e :: "e1 \<Rightarrow> int" where
  "sys_getpid_e s = PID_e (tasks_e s (current_e s))"

definition sys_gettime_e :: "e1 \<Rightarrow> int" where
  "sys_gettime_e s = zeos_ticks_e s"

text \<open>\<open>copy_data(current(), child_union, PAGE_SIZE)\<close>: structure, both list heads and stack.\<close>

definition copy_task_union_e :: "nat \<Rightarrow> nat \<Rightarrow> e1 \<Rightarrow> e1" where
  "copy_task_union_e p c s = s\<lparr>
     tasks_e := (tasks_e s)(c := tasks_e s p),
     stacks := (stacks s)(c := stacks s p),
     links := (links s)\<lparr>
       nxt := (nxt (links s))(TaskList c := nxt (links s) (TaskList p),
                              TaskKids c := nxt (links s) (TaskKids p)),
       prv := (prv (links s))(TaskList c := prv (links s) (TaskList p),
                              TaskKids c := prv (links s) (TaskKids p))\<rparr>\<rparr>"

definition start_child_e :: "nat \<Rightarrow> e1 \<Rightarrow> (int \<times> e1) option" where
  "start_child_e c s = do {
     let PID = PID_counter s;
     let s = upd_task_e c (PID_e_update (\<lambda>_. PID)) s;
     let s = upd_task_e c (parent_update (\<lambda>_. Some (current_e s))) s;
     let s = s\<lparr>PID_counter := c_int (PID_counter s + 1)\<rparr>;
     let s = upd_task_e c (quantum_update (\<lambda>_. DEFAULT_QUANTUM_e)) s;
     let s = upd_task_e c (state_e_update (\<lambda>_. ST_READY)) s;
     let s = upd_task_e c (pending_unblocks_update (\<lambda>_. 0)) s;
     h \<leftarrow> INIT_LIST_HEAD (Some (TaskKids c)) (links s);
     h \<leftarrow> list_add_tail (Some (TaskList c)) (Some (TaskKids (current_e s))) h;
     let s = s\<lparr>links := h\<rparr>;
     let s = set_stack c (KERNEL_STACK_SIZE - 19) (Num 0) s;
     let s = set_stack c (KERNEL_STACK_SIZE - 18) (CodeAddr ''ret_from_fork'') s;
     let s = upd_task_e c (kernel_esp_update (\<lambda>_. Some (c, KERNEL_STACK_SIZE - 19))) s;
     h \<leftarrow> list_add_tail (Some (TaskList c)) (Some Readyqueue) (links s);
     Some (PID, s\<lparr>links := h\<rparr>)
   }"

definition sys_fork_e :: "e1cfg \<Rightarrow> e1 \<Rightarrow> (int \<times> e1) option" where
  "sys_fork_e C s = do {
     empty \<leftarrow> list_empty (Some Freequeue) (links s);
     if empty then Some (- ENOMEM, s)
     else do {
       (c, s) \<leftarrow> take_free_e s;
       let s = copy_task_union_e (current_e s) c s;
       let s = snd (allocate_DIR_e C c s);
       (res, s) \<leftarrow> init_child_address_space C c s;
       if res < 0 then Some (res, s) else start_child_e c s
     }
   }"

text \<open>The loop of \<open>sys_exit\<close> over the children; \<open>None\<close> as its body's first result: no \<open>return\<close>.\<close>

definition adopt_kid :: "node option \<Rightarrow> e1 \<Rightarrow> (unit option \<times> e1) option" where
  "adopt_kid current_kids s = do {
     idle \<leftarrow> idle_task_e s;
     h \<leftarrow> list_add_tail current_kids (Some (TaskKids idle)) (links s);
     let s = s\<lparr>links := h\<rparr>;
     child_pcb \<leftarrow> list_head_to_task_struct_e current_kids;
     let s = upd_task_e child_pcb (parent_update (\<lambda>_. idle_task_e s)) s;
     h \<leftarrow> list_del current_kids (links s);
     Some (None, s\<lparr>links := h\<rparr>)
   }"

definition sys_exit_e :: "e1cfg \<Rightarrow> e1 \<Rightarrow> e1 option" where
  "sys_exit_e C s = do {
     let current_pcb = current_e s;
     let current_PT = get_PT_e current_pcb s;
     current_kids \<leftarrow> list_first (Some (TaskKids current_pcb)) (links s);
     if PID_e (tasks_e s current_pcb) = 1
     then Some (s\<lparr>scr := printk ([10] @ str ''The task 1 cannot exit'' @ [10]) (scr s)\<rparr>)
     else do {
       s \<leftarrow> (if current_kids \<noteq> None
            then map_option snd (list_for_each links (Some (TaskKids current_pcb)) adopt_kid s)
            else Some s);
       let s = release_data_pages C current_PT NUM_PAG_DATA s;
       h \<leftarrow> list_add_tail (Some (TaskList current_pcb)) (Some Freequeue) (links s);
       sched_next_rr_e (s\<lparr>links := h\<rparr>)
     }
   }"

definition sys_block :: "e1 \<Rightarrow> e1 option" where
  "sys_block s =
     (let current_pcb = current_e s in
      if pending_unblocks (tasks_e s current_pcb) = 0 then do {
        let s = upd_task_e current_pcb (state_e_update (\<lambda>_. ST_BLOCKED)) s;
        h \<leftarrow> list_add_tail (Some (TaskList current_pcb)) (Some Blocked) (links s);
        schedule_e (s\<lparr>links := h\<rparr>)
      }
      else Some (upd_task_e current_pcb (pending_unblocks_update (\<lambda>n. c_int (n - 1))) s))"

definition unblock_kid :: "int \<Rightarrow> node option \<Rightarrow> e1 \<Rightarrow> (int option \<times> e1) option" where
  "unblock_kid PID unblocked_list s = do {
     unblocked_pcb \<leftarrow> list_head_to_task_struct_e unblocked_list;
     if PID_e (tasks_e s unblocked_pcb) = PID then
       (if state_e (tasks_e s unblocked_pcb) = ST_BLOCKED then do {
          let s = upd_task_e unblocked_pcb (state_e_update (\<lambda>_. ST_READY)) s;
          h \<leftarrow> list_del unblocked_list (links s);
          h \<leftarrow> list_add_tail unblocked_list (Some Readyqueue) h;
          Some (Some 0, s\<lparr>links := h\<rparr>)
        }
        else Some (Some 0, upd_task_e (current_e s) (pending_unblocks_update (\<lambda>n. c_int (n + 1))) s))
     else Some (None, s)
   }"

definition sys_unblock :: "int \<Rightarrow> e1 \<Rightarrow> (int \<times> e1) option" where
  "sys_unblock PID s = do {
     (r, s) \<leftarrow> list_for_each links (Some (TaskKids (current_e s))) (unblock_kid PID) s;
     case r of Some v \<Rightarrow> Some (v, s) | None \<Rightarrow> Some (- ECHILD, s)
   }"

text \<open>
  The loop of \<open>sys_write\<close>: \<open>dest_buffer\<close> gets each full piece and is printed. What
  \<open>copy_from_user\<close> returns is never negative.
\<close>

function write_pieces :: "DWord \<Rightarrow> int \<Rightarrow> int \<Rightarrow> int \<Rightarrow> e1 \<Rightarrow> (int \<times> int \<times> int \<times> e1) option" where
  "write_pieces buffer bytes_left bytes_written buffer_offset s =
     (if bytes_left > BUFFER_SIZE then
        (case copy_in (buffer + word_of_int buffer_offset) (nat BUFFER_SIZE) s of
           None \<Rightarrow> None
         | Some dest_buffer \<Rightarrow>
             (let (r, sc) = sys_write_console dest_buffer BUFFER_SIZE (scr s)
              in write_pieces buffer (bytes_left - BUFFER_SIZE) (bytes_written + r)
                   (buffer_offset + BUFFER_SIZE) (s\<lparr>scr := sc\<rparr>)))
      else Some (bytes_left, bytes_written, buffer_offset, s))"
  by pat_completeness auto
termination
  by (relation "measure (\<lambda>(b, n, w, off, s). nat n)") (auto simp: BUFFER_SIZE_def)

declare write_pieces.simps [simp del]

definition sys_write_e :: "int \<Rightarrow> DWord \<Rightarrow> int \<Rightarrow> e1 \<Rightarrow> (int \<times> e1) option" where
  "sys_write_e fd buffer n s =
     (let error_fd = check_fd_e fd 1 in
      if error_fd < 0 then Some (error_fd, s)
      else if buffer = 0 then Some (- 14, s)
      else if n < 0 then Some (- 22, s)
      else do {
        (bytes_left, bytes_written, buffer_offset, s) \<leftarrow> write_pieces buffer n 0 0 s;
        if bytes_left > 0 then do {
          dest_buffer \<leftarrow> copy_in (buffer + word_of_int buffer_offset) (nat bytes_left) s;
          printed \<leftarrow> copy_in buffer (nat bytes_left) s;
          let (r, sc) = sys_write_console printed bytes_left (scr s);
          Some (bytes_written + r, s\<lparr>scr := sc\<rparr>)
        } else Some (bytes_written, s)
      })"

section \<open>Interrupt routines\<close>

text \<open>\<open>inb(0x60)\<close> is the argument \<open>kb_register\<close>.\<close>

definition keyboard_routine_e :: "e1cfg \<Rightarrow> Byte \<Rightarrow> e1 \<Rightarrow> e1" where
  "keyboard_routine_e C kb_register s =
     (let is_make = kb_register AND 0x80; code = kb_register AND 0x7F in
      if is_make = 0 then
        let to_print = char_at (after_char_map_e C) char_map code in
        if to_print \<noteq> 0 then s\<lparr>scr := printc_xy 0 0 to_print (scr s)\<rparr>
        else s\<lparr>scr := printc_xy 0 0 67 (scr s)\<rparr>
      else s)"

definition clock_routine_e :: "e1cfg \<Rightarrow> e1 \<Rightarrow> e1" where
  "clock_routine_e C s =
     (let s = s\<lparr>zeos_ticks_e := c_int (zeos_ticks_e s + 1)\<rparr>
      in s\<lparr>scr := show_clock_e C (scr s)\<rparr>)"

text \<open>
  What \<open>my_page_fault_routine\<close> prints before it loops forever; \<open>s\<close> is its uninitialised
  array of 16 characters.
\<close>

definition my_page_fault_routine :: "DWord \<Rightarrow> DWord \<Rightarrow> Byte list \<Rightarrow> screen \<Rightarrow> screen option" where
  "my_page_fault_routine error at s sc = do {
     s \<leftarrow> hex_convertor at s;
     let sc = printk (str ''Process generates a PAGE FAULT exception at EIP: 0x'') sc;
     let sc = printc 10 (printk s sc);
     s \<leftarrow> hex_convertor error s;
     let sc = printk (str ''Error Code: 0x'') sc;
     Some (printc 10 (printk s sc))
   }"

section \<open>Entry points\<close>

definition in_idle_e :: "e1 \<Rightarrow> bool" where
  "in_idle_e s \<longleftrightarrow> idle_task_e s = Some (current_e s)"

definition enter_interrupt_e :: "e1 \<Rightarrow> e1" where
  "enter_interrupt_e s =
     (if in_idle_e s then s\<lparr>esp := (fst (esp s), snd (esp s) - 14), eip := CodeAddr ''kernel''\<rparr>
      else s\<lparr>esp := (fst (tss_esp0 s), snd (tss_esp0 s) - 16), eip := CodeAddr ''kernel''\<rparr>)"

definition leave_interrupt_e :: "e1 \<Rightarrow> e1" where
  "leave_interrupt_e s = drop_words (if in_idle_e s then 14 else 16) s"

definition clock_handler_e :: "e1cfg \<Rightarrow> e1 \<Rightarrow> e1" where
  "clock_handler_e C s = leave_interrupt_e (clock_routine_e C (enter_interrupt_e s))"

definition keyboard_handler_e :: "e1cfg \<Rightarrow> Byte \<Rightarrow> e1 \<Rightarrow> e1" where
  "keyboard_handler_e C c s = leave_interrupt_e (keyboard_routine_e C c (enter_interrupt_e s))"

datatype syscall_e = Ni_e | Exit_e | Fork_e | Write_e | Gettime_e | Block_e | Unblock_e | Getpid_e

definition sys_call_table_e :: "syscall_e list" where
  "sys_call_table_e = (replicate 21 Ni_e)[1 := Exit_e, 2 := Fork_e, 4 := Write_e, 10 := Gettime_e,
     12 := Block_e, 13 := Unblock_e, 20 := Getpid_e]"

definition MAX_SYSCALL_e :: int where "MAX_SYSCALL_e = int (length sys_call_table_e)"

definition call_path_e :: "e1cfg \<Rightarrow> string \<Rightarrow> e1 \<Rightarrow> e1" where
  "call_path_e C h s =
     push (CodeAddr h) (s\<lparr>esp := (fst (esp s), snd (esp s) - frame_words_e C h)\<rparr>)"

text \<open>
  Back in the handler with the C frames popped: the end of \<open>sys_exit\<close> (of process 1) or
  \<open>sys_block\<close>, the first return of a child, or the idle loop.
\<close>

definition back_to_handler_e :: "e1cfg \<Rightarrow> e1 \<Rightarrow> e1 option" where
  "back_to_handler_e C s =
     (if eip s = CodeAddr ''sys_exit'' then Some (drop_words 16 (drop_words (frame_words_e C ''sys_exit'') s))
      else if eip s = CodeAddr ''sys_block'' then Some (drop_words 16 (drop_words (frame_words_e C ''sys_block'') s))
      else if eip s = CodeAddr ''system_call_handler'' then Some (drop_words 16 s)
      else if eip s = CodeAddr ''cpu_idle'' then Some s
      else None)"

definition return_path_e :: "e1cfg \<Rightarrow> e1 \<Rightarrow> e1 option" where
  "return_path_e C s =
     back_to_handler_e C (if eip s = CodeAddr ''kernel'' then ret s else resume s)"

definition give :: "(int \<times> e1) option \<Rightarrow> e1 option" where
  "give r = map_option (\<lambda>(v, s). drop_words 16 (s\<lparr>eax := v\<rparr>)) r"

text \<open>The call pushes the return address that the child of \<open>sys_fork\<close> inherits.\<close>

fun do_syscall_e :: "e1cfg \<Rightarrow> syscall_e \<Rightarrow> int \<times> DWord \<times> int \<Rightarrow> e1 \<Rightarrow> e1 option" where
  "do_syscall_e C Ni_e _ s = give (Some (sys_ni_syscall_e, s))"
| "do_syscall_e C Exit_e _ s = do {
     s \<leftarrow> sys_exit_e C (call_path_e C ''sys_exit'' s);
     return_path_e C s
   }"
| "do_syscall_e C Fork_e _ s = do {
     (v, s) \<leftarrow> sys_fork_e C (push (CodeAddr ''system_call_handler'') s);
     give (Some (v, drop_words 1 s))
   }"
| "do_syscall_e C Write_e (fd, buffer, n) s = give (sys_write_e fd buffer n s)"
| "do_syscall_e C Gettime_e _ s = give (Some (sys_gettime_e s, s))"
| "do_syscall_e C Block_e _ s = do {
     s \<leftarrow> sys_block (call_path_e C ''sys_block'' s);
     return_path_e C s
   }"
| "do_syscall_e C Unblock_e (pid, _, _) s = give (sys_unblock pid s)"
| "do_syscall_e C Getpid_e _ s = give (Some (sys_getpid_e s, s))"

definition dispatch_e :: "e1cfg \<Rightarrow> int \<Rightarrow> int \<times> DWord \<times> int \<Rightarrow> e1 \<Rightarrow> e1 option" where
  "dispatch_e C n args s =
     (if n < 0 \<or> n > MAX_SYSCALL_e then give (Some (- ENOSYS, s))
      else if nat n < length sys_call_table_e then do_syscall_e C (sys_call_table_e ! nat n) args s
      else None)"

definition system_call_handler_e :: "e1cfg \<Rightarrow> int \<Rightarrow> int \<times> DWord \<times> int \<Rightarrow> e1 \<Rightarrow> e1 option" where
  "system_call_handler_e C n args s = dispatch_e C n args
     (s\<lparr>esp := (fst (tss_esp0 s), snd (tss_esp0 s) - 16), eip := CodeAddr ''kernel''\<rparr>)"

definition syscall_handler_sysenter :: "e1cfg \<Rightarrow> int \<Rightarrow> int \<times> DWord \<times> int \<Rightarrow> e1 \<Rightarrow> e1 option" where
  "syscall_handler_sysenter C n args s = dispatch_e C n args
     (s\<lparr>esp := (fst (msr_175 s), snd (msr_175 s) - 16), eip := CodeAddr ''kernel''\<rparr>)"

section \<open>Boot\<close>

definition init_mm_e :: "e1cfg \<Rightarrow> e1 \<Rightarrow> e1" where
  "init_mm_e C s =
     (let s = init_table_pages C s;
          s = snd (init_frames s);
          s = init_dir_pages C s;
          s = snd (allocate_DIR_e C 0 s);
          s = set_cr3 (get_DIR_e 0 s) s
      in set_pe_flag s)"

definition banner_e :: "screen \<Rightarrow> screen" where
  "banner_e =
     printk (str ''Entering user mode...'' @ [10]) \<circ>
     printk (str ''---------------------------------'' @ [10, 10]) \<circ>
     printk (str ''Gerard Chaparro & Albert Porta'' @ [10]) \<circ>
     printk (str ''SO2 - ZeOs Project'' @ [10]) \<circ>
     printk ([10] @ str ''---------------------------------'' @ [10]) \<circ>
     printk (str '' <-- Keyborad Routine Key'' @ [10]) \<circ>
     printk [10, 10, 10, 10, 10, 10] \<circ> clear_screen"

definition main_e :: "e1cfg \<Rightarrow> Byte list \<Rightarrow> e1 \<Rightarrow> e1 option" where
  "main_e C user_image s = do {
     let s = s\<lparr>scr := printk (str ''Kernel Loaded!    '') (scr s)\<rparr>;
     let s = init_mm_e C s;
     let s = monoprocess_init_addr_space C s;
     s \<leftarrow> init_sched_e s;
     s \<leftarrow> init_idle_e C s;
     s \<leftarrow> init_task1_e C s;
     s \<leftarrow> copy_out L_USER_START user_image s;
     let s = s\<lparr>scr := banner_e (scr s)\<rparr>;
     Some (s\<lparr>esp := tss_esp0 s\<rparr>)
   }"

end
