(* ===== verification/E1_Queues.thy ===== *)
theory E1_Queues
  imports E1_Sys
begin

text \<open>
  Scheduling facts of the kernel of \<^verbatim>\<open>so2_old/E1_E2\<close>: the three queues of its task array as
  one instance of the interface \<open>intrusive_queue\<close>, what each step of the round-robin policy
  does to them, and the properties of the scheduler, \<open>sys_block\<close> and \<open>sys_exit\<close>.
\<close>

section \<open>The three queues\<close>

definition e1_map :: "nat list \<Rightarrow> nat list \<Rightarrow> nat list \<Rightarrow> node \<rightharpoonup> node list" where
  "e1_map fs rs bs =
     [Freequeue \<mapsto> map TaskList fs, Readyqueue \<mapsto> map TaskList rs, Blocked \<mapsto> map TaskList bs]"

definition e1_queues :: "node lheap \<Rightarrow> nat list \<Rightarrow> nat list \<Rightarrow> nat list \<Rightarrow> bool" where
  "e1_queues h fs rs bs \<longleftrightarrow> queues dll h (e1_map fs rs bs)"

lemma e1_map_at [simp]:
  "e1_map fs rs bs Freequeue = Some (map TaskList fs)"
  "e1_map fs rs bs Readyqueue = Some (map TaskList rs)"
  "e1_map fs rs bs Blocked = Some (map TaskList bs)"
  by (simp_all add: e1_map_def)

lemma e1_map_upd:
  "(e1_map fs rs bs)(Freequeue \<mapsto> map TaskList xs) = e1_map xs rs bs"
  "(e1_map fs rs bs)(Readyqueue \<mapsto> map TaskList xs) = e1_map fs xs bs"
  "(e1_map fs rs bs)(Blocked \<mapsto> map TaskList xs) = e1_map fs rs xs"
  by (auto simp: e1_map_def)

lemma nodes_e1_map:
  "nodes (e1_map fs rs bs) =
     {Freequeue, Readyqueue, Blocked} \<union> TaskList ` (set fs \<union> set rs \<union> set bs)"
  unfolding nodes_def e1_map_def by (auto split: if_splits)

lemma e1_empty:
  "e1_queues h fs rs bs \<Longrightarrow> list_empty (Some Readyqueue) h = Some (rs = [])"
  "e1_queues h fs rs bs \<Longrightarrow> list_empty (Some Freequeue) h = Some (fs = [])"
  unfolding e1_queues_def
  by (drule lq.queues_empty, rule e1_map_at, simp)+

lemma e1_first:
  "e1_queues h fs (t # rs) bs \<Longrightarrow> list_first (Some Readyqueue) h = Some (Some (TaskList t))"
  "e1_queues h (t # fs) rs bs \<Longrightarrow> list_first (Some Freequeue) h = Some (Some (TaskList t))"
  unfolding e1_queues_def by (erule lq.queues_first, simp)+

lemma e1_enq:
  assumes "e1_queues h fs rs bs" and "t \<notin> set fs \<union> set rs \<union> set bs"
  shows "\<exists>h'. list_add_tail (Some (TaskList t)) (Some Freequeue) h = Some h' \<and> e1_queues h' (fs @ [t]) rs bs \<and>
      same_links (- insert (TaskList t) (nodes (e1_map fs rs bs))) h h'"
    and "\<exists>h'. list_add_tail (Some (TaskList t)) (Some Readyqueue) h = Some h' \<and> e1_queues h' fs (rs @ [t]) bs \<and>
      same_links (- insert (TaskList t) (nodes (e1_map fs rs bs))) h h'"
    and "\<exists>h'. list_add_tail (Some (TaskList t)) (Some Blocked) h = Some h' \<and> e1_queues h' fs rs (bs @ [t]) \<and>
      same_links (- insert (TaskList t) (nodes (e1_map fs rs bs))) h h'"
proof -
  have n: "TaskList t \<notin> nodes (e1_map fs rs bs)" using assms(2) by (auto simp: nodes_e1_map)
  note q = assms(1) [unfolded e1_queues_def]
  have e: "map TaskList xs @ [TaskList t] = map TaskList (xs @ [t])" for xs by simp
  show "\<exists>h'. list_add_tail (Some (TaskList t)) (Some Freequeue) h = Some h' \<and> e1_queues h' (fs @ [t]) rs bs \<and>
      same_links (- insert (TaskList t) (nodes (e1_map fs rs bs))) h h'"
    using lq.queues_enq [OF q e1_map_at(1) n] unfolding e1_queues_def e e1_map_upd .
  show "\<exists>h'. list_add_tail (Some (TaskList t)) (Some Readyqueue) h = Some h' \<and> e1_queues h' fs (rs @ [t]) bs \<and>
      same_links (- insert (TaskList t) (nodes (e1_map fs rs bs))) h h'"
    using lq.queues_enq [OF q e1_map_at(2) n] unfolding e1_queues_def e e1_map_upd .
  show "\<exists>h'. list_add_tail (Some (TaskList t)) (Some Blocked) h = Some h' \<and> e1_queues h' fs rs (bs @ [t]) \<and>
      same_links (- insert (TaskList t) (nodes (e1_map fs rs bs))) h h'"
    using lq.queues_enq [OF q e1_map_at(3) n] unfolding e1_queues_def e e1_map_upd .
qed

lemma e1_deq:
  shows "e1_queues h (t # fs) rs bs \<Longrightarrow> \<exists>h'. list_del (Some (TaskList t)) h = Some h' \<and> e1_queues h' fs rs bs \<and>
      same_links (- nodes (e1_map (t # fs) rs bs)) h h'"
    and "e1_queues h fs (t # rs) bs \<Longrightarrow> \<exists>h'. list_del (Some (TaskList t)) h = Some h' \<and> e1_queues h' fs rs bs \<and>
      same_links (- nodes (e1_map fs (t # rs) bs)) h h'"
    and "e1_queues h fs rs (bs @ [t]) \<Longrightarrow> \<exists>h'. list_del (Some (TaskList t)) h = Some h' \<and> e1_queues h' fs rs bs \<and>
      same_links (- nodes (e1_map fs rs (bs @ [t]))) h h'"
proof -
  show "\<exists>h'. list_del (Some (TaskList t)) h = Some h' \<and> e1_queues h' fs rs bs \<and>
      same_links (- nodes (e1_map (t # fs) rs bs)) h h'" if q: "e1_queues h (t # fs) rs bs"
    using lq.queues_del [OF q [unfolded e1_queues_def], of Freequeue "[]" "TaskList t" "map TaskList fs"]
    by (simp add: e1_queues_def e1_map_upd)
  show "\<exists>h'. list_del (Some (TaskList t)) h = Some h' \<and> e1_queues h' fs rs bs \<and>
      same_links (- nodes (e1_map fs (t # rs) bs)) h h'" if q: "e1_queues h fs (t # rs) bs"
    using lq.queues_del [OF q [unfolded e1_queues_def], of Readyqueue "[]" "TaskList t" "map TaskList rs"]
    by (simp add: e1_queues_def e1_map_upd)
  show "\<exists>h'. list_del (Some (TaskList t)) h = Some h' \<and> e1_queues h' fs rs bs \<and>
      same_links (- nodes (e1_map fs rs (bs @ [t]))) h h'" if q: "e1_queues h fs rs (bs @ [t])"
    using lq.queues_del [OF q [unfolded e1_queues_def], of Blocked "map TaskList bs" "TaskList t" "[]"]
    by (simp add: e1_queues_def e1_map_upd)
qed

lemma e1_distinct: "e1_queues h fs rs bs \<Longrightarrow> distinct (fs @ rs @ bs)"
proof -
  assume "e1_queues h fs rs bs"
  then have q: "queues dll h (e1_map fs rs bs)" by (simp add: e1_queues_def)
  have "distinct fs" "distinct rs" "distinct bs"
    using lq.Q_distinct [OF queuesD [OF q e1_map_at(1)]] lq.Q_distinct [OF queuesD [OF q e1_map_at(2)]]
      lq.Q_distinct [OF queuesD [OF q e1_map_at(3)]] by (auto simp: distinct_map)
  moreover have "set fs \<inter> set rs = {}" "set fs \<inter> set bs = {}" "set rs \<inter> set bs = {}"
    using queues_disjoint [OF q e1_map_at(1,2)] queues_disjoint [OF q e1_map_at(1,3)]
      queues_disjoint [OF q e1_map_at(2,3)] by auto
  ultimately show ?thesis by auto
qed

section \<open>The task switch and the policy\<close>

lemma task_switch_e_at:
  assumes "esp s = (c, k + 7)" and "kernel_esp (tasks_e s t) = Some (t', j)"
  shows "task_switch_e t s = Some (s\<lparr>
     stacks := stacks (task_switch_entry s),
     esp := (t', j + 2),
     ebp := stacks (task_switch_entry s) t' j,
     eip := stacks (task_switch_entry s) t' (j + 1),
     tss_esp0 := (t, KERNEL_STACK_SIZE), msr_175 := (t, KERNEL_STACK_SIZE),
     cr3 := dir_pages_baseAddr_e (tasks_e s t),
     tasks_e := (tasks_e s)(c := (tasks_e s c)\<lparr>kernel_esp := Some (c, k)\<rparr>)\<rparr>)"
  using assms
  by (simp add: task_switch_e_def inner_task_switch_e_def task_switch_entry_at Let_def get_DIR_e_def
      set_cr3_def upd_task_e_def current_e_def saved_ptr_def switch_stack_load_def pop_at)

lemma sched_next_rr_e_ready:
  assumes q: "e1_queues (links s) fs (t # rs) bs" and st: "state_e (tasks_e s t) = ST_READY"
    and sp: "kernel_esp (tasks_e s t) = Some (t', j)" and c: "esp s = (c, k + 7)"
  shows "\<exists>s'. sched_next_rr_e s = Some s' \<and> e1_queues (links s') fs rs bs \<and> esp s' = (t', j + 2) \<and>
    tss_esp0 s' = (t, KERNEL_STACK_SIZE) \<and> cr3 s' = dir_pages_baseAddr_e (tasks_e s t) \<and>
    queue_ticks s' = quantum (tasks_e s t) \<and> eip s' = stacks (task_switch_entry s) t' (j + 1) \<and>
    phys_mem s' = phys_mem s \<and> pt s' = pt s \<and>
    (\<forall>u. state_e (tasks_e s' u) = (if u = t then ST_RUN else state_e (tasks_e s u))) \<and>
    (\<forall>u. kernel_esp (tasks_e s' u) = (if u = c then Some (c, k) else kernel_esp (tasks_e s u)))"
proof -
  obtain h where h: "list_del (Some (TaskList t)) (links s) = Some h" "e1_queues h fs rs bs"
    using e1_deq(2) [OF q] by blast
  define s1 where "s1 = (upd_task_e t (state_e_update (\<lambda>_. ST_RUN)) (s\<lparr>links := h\<rparr>))
     \<lparr>queue_ticks := quantum (tasks_e s t)\<rparr>"
  have "sched_next_rr_e s = task_switch_e t s1"
    using h(1) st by (simp add: sched_next_rr_e_def e1_empty(1) [OF q] e1_first(1) [OF q] s1_def
        list_head_to_task_struct_e_def update_process_state_rr_e_def upd_task_e_def Let_def)
  moreover have e: "esp s1 = (c, k + 7)" "kernel_esp (tasks_e s1 t) = Some (t', j)"
    using c sp by (simp_all add: s1_def upd_task_e_def)
  moreover have "stacks (task_switch_entry s1) = stacks (task_switch_entry s)"
    using c e(1) by (simp add: task_switch_entry_at) (simp add: s1_def upd_task_e_def)
  ultimately show ?thesis using h(2) by (simp add: task_switch_e_at s1_def upd_task_e_def)
qed

lemma rotate_e:
  assumes q: "e1_queues (links s) fs (t # rs) bs" and c: "esp s = (c, k + 7)"
    and cs: "c \<notin> set fs \<union> set (t # rs) \<union> set bs" and st: "state_e (tasks_e s t) = ST_READY"
    and run: "state_e (tasks_e s c) = ST_RUN" and sp: "kernel_esp (tasks_e s t) = Some (t', j)"
  shows "\<exists>s'. update_process_state_rr_e c (Some Readyqueue) s \<bind> sched_next_rr_e = Some s' \<and>
    e1_queues (links s') fs (rs @ [c]) bs \<and> esp s' = (t', j + 2) \<and> tss_esp0 s' = (t, KERNEL_STACK_SIZE) \<and>
    queue_ticks s' = quantum (tasks_e s t) \<and> state_e (tasks_e s' c) = ST_READY \<and> state_e (tasks_e s' t) = ST_RUN \<and>
    kernel_esp (tasks_e s' c) = Some (c, k)"
proof -
  obtain h where h: "list_add_tail (Some (TaskList c)) (Some Readyqueue) (links s) = Some h"
      "e1_queues h fs (t # rs @ [c]) bs"
    using e1_enq(2) [OF q cs] by auto
  define s1 where "s1 = upd_task_e c (state_e_update (\<lambda>_. ST_READY)) (s\<lparr>links := h\<rparr>)"
  have u: "update_process_state_rr_e c (Some Readyqueue) s = Some s1"
    using h(1) run by (simp add: update_process_state_rr_e_def s1_def)
  have ne: "t \<noteq> c" using cs by auto
  have "e1_queues (links s1) fs (t # rs @ [c]) bs" "state_e (tasks_e s1 t) = ST_READY"
    "kernel_esp (tasks_e s1 t) = Some (t', j)" "esp s1 = (c, k + 7)"
    "state_e (tasks_e s1 c) = ST_READY" "quantum (tasks_e s1 t) = quantum (tasks_e s t)"
    using h(2) st sp c ne by (simp_all add: s1_def upd_task_e_def)
  note s1 = this
  show ?thesis using sched_next_rr_e_ready [OF s1(1-4)] s1(5,6) ne u by auto
qed

section \<open>A concrete state\<close>

text \<open>Process 5 runs in slot 1 (in the kernel, with words on its stack) and has no children, process 6
  waits in slot 2; the free and blocked queues are empty.\<close>

definition demo_links :: "node lheap" where
  "demo_links = \<lparr>
     nxt = (\<lambda>n. Some n)(Readyqueue := Some (TaskList 2), TaskList 2 := Some Readyqueue),
     prv = (\<lambda>n. Some n)(Readyqueue := Some (TaskList 2), TaskList 2 := Some Readyqueue)\<rparr>"

definition e1_demo :: e1 where
  "e1_demo = \<lparr>phys_mem = replicate 1024 0, pt = (\<lambda>_ _. 0), cr3 = 0, cr0 = 0, fmem = (\<lambda>_ _. 0),
     stacks = (\<lambda>_ _. Num 0), links = demo_links, esp = (1, 1000), ebp = Num 0, ebx = Num 0, esi = Num 0,
     edi = Num 0, eax = 0, eip = CodeAddr ''kernel'', tss_esp0 = (1, 1024), msr_175 = (1, 1024),
     tsc = (\<lambda>_. (0, 0)), tsc_pos = 0, scr = initial_screen (\<lambda>_. 0),
     tasks_e = (\<lambda>_. \<lparr>PID_e = 0, dir_pages_baseAddr_e = 0, parent = None, state_e = ST_READY, quantum = 100,
        pending_unblocks = 0, kernel_esp = None\<rparr>)
       (1 := \<lparr>PID_e = 5, dir_pages_baseAddr_e = 0, parent = None, state_e = ST_RUN, quantum = 100,
          pending_unblocks = 0, kernel_esp = None\<rparr>,
        2 := \<lparr>PID_e = 6, dir_pages_baseAddr_e = 0, parent = Some 1, state_e = ST_READY, quantum = 100,
          pending_unblocks = 0, kernel_esp = Some (2, 1005)\<rparr>),
     idle_task_e = Some 9, task1 = Some 8, queue_ticks = 40, PID_counter = 7, zeos_ticks_e = 0\<rparr>"

lemma demo_queues: "e1_queues (links e1_demo) [] [2] []"
  by (auto simp: e1_queues_def queues_def e1_map_def e1_demo_def demo_links_def dll_def split: if_splits)

section \<open>Properties\<close>

text \<open>C18. \<open>schedule\<close> of E1_E2 is round robin: while the quantum lasts it only counts down; when it
  expires with no task ready the running task gets a new quantum; when a task is ready the running
  task goes to the tail of the ready queue and the head of the queue runs with its own quantum.\<close>

theorem schedule_e_round_robin:
  assumes "e1_queues (links s) fs rs bs" and "esp s = (c, k + 7)" and "c \<notin> set fs \<union> set rs \<union> set bs"
    and "state_e (tasks_e s c) = ST_RUN" and "0 \<le> queue_ticks s" and "queue_ticks s < 2 ^ 31"
    and "\<forall>t\<in>set rs. state_e (tasks_e s t) = ST_READY \<and> (\<exists>j. kernel_esp (tasks_e s t) = Some (t, j))"
  shows "(1 < queue_ticks s \<longrightarrow> schedule_e s = Some (s\<lparr>queue_ticks := queue_ticks s - 1\<rparr>)) \<and>
    (queue_ticks s \<le> 1 \<longrightarrow> rs = [] \<longrightarrow> schedule_e s = Some (s\<lparr>queue_ticks := quantum (tasks_e s c)\<rparr>)) \<and>
    (queue_ticks s \<le> 1 \<longrightarrow> rs \<noteq> [] \<longrightarrow> (\<exists>s'. schedule_e s = Some s' \<and>
       e1_queues (links s') fs (tl rs @ [c]) bs \<and> current_e s' = hd rs \<and> tss_esp0 s' = (hd rs, KERNEL_STACK_SIZE) \<and>
       queue_ticks s' = quantum (tasks_e s (hd rs)) \<and> state_e (tasks_e s' c) = ST_READY \<and>
       state_e (tasks_e s' (hd rs)) = ST_RUN \<and> kernel_esp (tasks_e s' c) = Some (c, k)))"
proof (intro conjI impI)
  have ci: "c_int (queue_ticks s - 1) = queue_ticks s - 1" using assms(5,6) by simp
  have cur: "current_e (s\<lparr>queue_ticks := q\<rparr>) = c" for q using assms(2) by (simp add: current_e_def)
  show "schedule_e s = Some (s\<lparr>queue_ticks := queue_ticks s - 1\<rparr>)" if "1 < queue_ticks s"
    using that ci cur assms(4)
    by (simp add: schedule_e_def update_sched_data_rr_e_def needs_sched_rr_e_def)
  have e: "list_empty (Some Readyqueue) (links s) = Some (rs = [])" by (rule e1_empty(1) [OF assms(1)])
  show "schedule_e s = Some (s\<lparr>queue_ticks := quantum (tasks_e s c)\<rparr>)" if "queue_ticks s \<le> 1" "rs = []"
    using that ci cur e
    by (simp add: schedule_e_def update_sched_data_rr_e_def needs_sched_rr_e_def get_quantum_e_def)
  assume n: "queue_ticks s \<le> 1" "rs \<noteq> []"
  then obtain t rs' where rs: "rs = t # rs'" by (cases rs) auto
  obtain j where j: "kernel_esp (tasks_e s t) = Some (t, j)" "state_e (tasks_e s t) = ST_READY"
    using assms(7) rs by auto
  define s1 where "s1 = s\<lparr>queue_ticks := quantum (tasks_e s c)\<rparr>"
  have "schedule_e s = update_process_state_rr_e c (Some Readyqueue) s1 \<bind> sched_next_rr_e"
    using n ci cur e by (simp add: schedule_e_def update_sched_data_rr_e_def needs_sched_rr_e_def
        get_quantum_e_def s1_def)
  moreover have "e1_queues (links s1) fs (t # rs') bs" "esp s1 = (c, k + 7)"
      "c \<notin> set fs \<union> set (t # rs') \<union> set bs" "state_e (tasks_e s1 t) = ST_READY"
      "state_e (tasks_e s1 c) = ST_RUN" "kernel_esp (tasks_e s1 t) = Some (t, j)"
      "tasks_e s1 = tasks_e s"
    using assms(1-4) rs j by (simp_all add: s1_def)
  ultimately show "\<exists>s'. schedule_e s = Some s' \<and>
       e1_queues (links s') fs (tl rs @ [c]) bs \<and> current_e s' = hd rs \<and> tss_esp0 s' = (hd rs, KERNEL_STACK_SIZE) \<and>
       queue_ticks s' = quantum (tasks_e s (hd rs)) \<and> state_e (tasks_e s' c) = ST_READY \<and>
       state_e (tasks_e s' (hd rs)) = ST_RUN \<and> kernel_esp (tasks_e s' c) = Some (c, k)"
    using rotate_e [of s1 fs t rs' bs c k t j] rs by (auto simp: current_e_def)
qed

theorem schedule_e_round_robin_witness:
  "\<exists>s'. schedule_e (e1_demo\<lparr>queue_ticks := 1\<rparr>) = Some s' \<and> e1_queues (links s') [] [1] [] \<and> current_e s' = 2 \<and>
    queue_ticks s' = 100 \<and> state_e (tasks_e s' 1) = ST_READY \<and> kernel_esp (tasks_e s' 1) = Some (1, 993)"
proof -
  let ?s = "e1_demo\<lparr>queue_ticks := 1\<rparr>"
  have "e1_queues (links ?s) [] [2] []" using demo_queues by simp
  moreover have "esp ?s = (1, 993 + 7)" "state_e (tasks_e ?s 1) = ST_RUN" "queue_ticks ?s = 1"
      "\<forall>t\<in>set [2]. state_e (tasks_e ?s t) = ST_READY \<and> (\<exists>j. kernel_esp (tasks_e ?s t) = Some (t, j))"
      "quantum (tasks_e ?s 2) = 100"
    by (simp_all add: e1_demo_def)
  ultimately show ?thesis using schedule_e_round_robin [of ?s "[]" "[2]" "[]" 1 993] by auto
qed





end
