(* ===== verification/E1_Fork.thy ===== *)
theory E1_Fork
  imports E1_Queues
begin

text \<open>
  \<open>sys_fork\<close> of the kernel of \<^verbatim>\<open>so2_old/E1_E2\<close>: the address space it builds for the child, its
  two error paths, and what its double use of the child's list head does to the queues.
\<close>

section \<open>Frames for the child\<close>

lemma new_frames_from_enough:
  assumes "frames_ok m" and "n \<le> card (avail m)"
  shows "\<exists>gs m'. new_frames_from n fs m = (Some (fs @ map of_nat gs), m') \<and> length gs = n \<and> distinct gs \<and>
    set gs \<subseteq> avail m \<and> avail m' = avail m - set gs \<and> frames_ok m' \<and> pt m' = pt m \<and>
    mm_state.more m' = mm_state.more m \<and> cr3 m' = cr3 m \<and> cr0 m' = cr0 m"
  using assms
proof (induction n arbitrary: fs m)
  case 0
  then show ?case by (intro exI [of _ "[]"] exI [of _ m]) simp
next
  case (Suc n)
  then have "avail m \<noteq> {}" by auto
  then obtain f where f: "f \<in> avail m" "fst (alloc_frame m) = int f"
      "avail (snd (alloc_frame m)) = avail m - {f}"
    using fa.alloc_takes [OF Suc.prems(1)] by blast
  let ?m = "snd (alloc_frame m)"
  have step: "new_frames_from (Suc n) fs m = new_frames_from n (fs @ [of_nat f]) ?m"
    using f(2) by (simp add: case_prod_beta)
  have "n \<le> card (avail ?m)" using Suc.prems(2) f by simp
  from Suc.IH [OF fa.alloc_ok [OF Suc.prems(1)] this, of "fs @ [of_nat f]"] obtain gs m' where
    IH: "new_frames_from n (fs @ [of_nat f]) ?m = (Some ((fs @ [of_nat f]) @ map of_nat gs), m')"
      "length gs = n" "distinct gs" "set gs \<subseteq> avail m - {f}" "avail m' = avail m - {f} - set gs"
      "frames_ok m'" "pt m' = pt m" "mm_state.more m' = mm_state.more m" "cr3 m' = cr3 m" "cr0 m' = cr0 m"
    by (auto simp: f(3))
  show ?case
    unfolding step using IH f(1) by (intro exI [of _ "f # gs"] exI [of _ m']) auto
qed

lemma fold_free_frame:
  "frames_ok m \<Longrightarrow> set fs \<subseteq> freeable \<Longrightarrow>
   avail (fold free_frame (map of_nat fs) m) = avail m \<union> set fs \<and>
   frames_ok (fold free_frame (map of_nat fs) m)"
  using fa.release_all_gives [of m fs] by (simp add: fold_map comp_def)

lemma fold_free_frame_fields:
  "pt (fold free_frame ws m) = pt m" "mm_state.more (fold free_frame ws m) = mm_state.more m"
  "cr3 (fold free_frame ws m) = cr3 m"
  by (induction ws arbitrary: m) simp_all

lemma new_frames_from_exhausted:
  assumes "frames_ok m" and "card (avail m) < n" and "set fs \<subseteq> freeable" and "avail m \<subseteq> freeable"
  shows "\<exists>m'. new_frames_from n (map of_nat fs) m = (None, m') \<and> avail m' = avail m \<union> set fs \<and>
    frames_ok m' \<and> pt m' = pt m \<and> mm_state.more m' = mm_state.more m \<and> cr3 m' = cr3 m"
  using assms
proof (induction n arbitrary: fs m)
  case (Suc n)
  show ?case
  proof (cases "avail m = {}")
    case True
    then have "alloc_frame m = (-1, m)" using fa.alloc_fails [OF Suc.prems(1)] by blast
    then show ?thesis
      using fold_free_frame [OF Suc.prems(1,3)] by (simp add: fold_free_frame_fields)
  next
    case False
    then obtain f where f: "f \<in> avail m" "fst (alloc_frame m) = int f"
        "avail (snd (alloc_frame m)) = avail m - {f}"
      using fa.alloc_takes [OF Suc.prems(1)] by blast
    let ?m = "snd (alloc_frame m)"
    have step: "new_frames_from (Suc n) (map of_nat fs) m = new_frames_from n (map of_nat (fs @ [f])) ?m"
      using f(2) by (simp add: case_prod_beta)
    have "card (avail m - {f}) = card (avail m) - 1" "0 < card (avail m)"
      using f(1) by (auto simp: card_gt_0_iff)
    then have less: "card (avail ?m) < n" using Suc.prems(2) f(3) by simp
    have sub: "set (fs @ [f]) \<subseteq> freeable" "avail ?m \<subseteq> freeable"
      using Suc.prems(3,4) f by auto
    obtain m' where m': "new_frames_from n (map of_nat (fs @ [f])) ?m = (None, m')"
      "avail m' = avail ?m \<union> set (fs @ [f])" "frames_ok m'" "pt m' = pt ?m"
      "mm_state.more m' = mm_state.more ?m" "cr3 m' = cr3 ?m"
      using Suc.IH [OF fa.alloc_ok [OF Suc.prems(1)] less sub] by blast
    then show ?thesis unfolding step using f by auto
  qed
qed simp

section \<open>The child's address space\<close>

lemma pt_map_data_pages:
  "pt (map_data_pages C Q fs m) q j =
     (if q = Q \<and> j \<in> {PAG_LOG_INIT_DATA C ..< PAG_LOG_INIT_DATA C + NUM_PAG_DATA}
      then user_entry (fs ! (j - PAG_LOG_INIT_DATA C)) else pt m q j)"
proof -
  have "pt (fold (\<lambda>i. set_ss_pag Q (d + i) (fs ! i)) [0..<n] m) q j =
     (if q = Q \<and> j \<in> {d ..< d + n} then user_entry (fs ! (j - d)) else pt m q j)" for d n
    by (induction n) (auto simp: pt_set_ss_pag)
  then show ?thesis by (simp add: map_data_pages_def)
qed

lemma map_data_pages_fields [simp]:
  "phys_mem (map_data_pages C Q fs m) = phys_mem m" "cr3 (map_data_pages C Q fs m) = cr3 m"
  "mm_state.more (map_data_pages C Q fs m) = mm_state.more m" "cr0 (map_data_pages C Q fs m) = cr0 m"
proof -
  have "phys_mem (fold (\<lambda>i. set_ss_pag Q (d + i) (fs ! i)) [0..<n] m) = phys_mem m \<and>
    cr3 (fold (\<lambda>i. set_ss_pag Q (d + i) (fs ! i)) [0..<n] m) = cr3 m \<and>
    mm_state.more (fold (\<lambda>i. set_ss_pag Q (d + i) (fs ! i)) [0..<n] m) = mm_state.more m \<and>
    cr0 (fold (\<lambda>i. set_ss_pag Q (d + i) (fs ! i)) [0..<n] m) = cr0 m" for d n
    by (induction n) (simp_all add: set_ss_pag_def)
  then show "phys_mem (map_data_pages C Q fs m) = phys_mem m" "cr3 (map_data_pages C Q fs m) = cr3 m"
    "mm_state.more (map_data_pages C Q fs m) = mm_state.more m" "cr0 (map_data_pages C Q fs m) = cr0 m"
    unfolding map_data_pages_def by blast+
qed

definition e1_layout :: "e1cfg \<Rightarrow> bool" where
  "e1_layout C \<longleftrightarrow> PAG_LOG_INIT_DATA C = 256 \<and> PAG_LOG_INIT_CODE C = 276"

lemma e1_more:
  assumes "machine.more s' = machine.more s"
  shows "tasks_e s' = tasks_e s" "idle_task_e s' = idle_task_e s" "task1 s' = task1 s"
    "queue_ticks s' = queue_ticks s" "PID_counter s' = PID_counter s" "zeos_ticks_e s' = zeos_ticks_e s"
  using assms by (cases s; cases s'; simp)+

definition forkable :: "e1cfg \<Rightarrow> DWord \<Rightarrow> DWord \<Rightarrow> e1 \<Rightarrow> bool" where
  "forkable C P Q s \<longleftrightarrow> e1_layout C \<and> frames_ok s \<and> pte_present (pt s (cr3 s) 0) = 1 \<and>
     pte_pbase_addr (pt s (cr3 s) 0) = P \<and> Q \<noteq> P \<and> Q \<noteq> cr3 s \<and>
     (\<forall>i<NUM_PAG_DATA. pte_present (pt s P (256 + i)) = 1 \<and> unat (pte_pbase_addr (pt s P (256 + i))) \<notin> avail s)"

lemmas page_counts = NUM_PAG_DATA_def NUM_PAG_KERNEL_def NUM_PAG_CODE_def

lemma copy_child_ok:
  assumes fk: "forkable C P Q s" and gs: "length gs = NUM_PAG_DATA" "distinct gs" "set gs \<subseteq> avail s"
    and s2: "cr3 s2 = cr3 s" "fmem s2 = fmem s" "\<And>q j. q \<noteq> Q \<Longrightarrow> pt s2 q j = pt s q j"
  shows "\<exists>s'. copy_data_pages P (\<lambda>i. 256 + i) (\<lambda>i. 284 + i) (\<lambda>i s. map of_nat gs ! i) [0..<NUM_PAG_DATA] s2 = Some s' \<and>
    (\<forall>i<NUM_PAG_DATA. fmem s' (of_nat (gs ! i)) = fmem s (pte_pbase_addr (pt s P (256 + i)))) \<and>
    (\<forall>f. f \<notin> of_nat ` set gs \<longrightarrow> fmem s' f = fmem s f) \<and>
    (\<forall>q j. pt s' q j = (if q = P \<and> j \<in> {284..<304} then 0 else pt s2 q j)) \<and>
    s' = s2\<lparr>fmem := fmem s', pt := pt s'\<rparr>"
proof -
  let ?a = "\<lambda>i. pte_pbase_addr (pt s P (256 + i))" and ?b = "\<lambda>i. map of_nat gs ! i :: DWord"
  let ?N = "set [0..<NUM_PAG_DATA]"
  have QP: "Q \<noteq> P" "Q \<noteq> cr3 s" using fk by (simp_all add: forkable_def)
  have bound: "g < TOTAL_PAGES" if "g \<in> set gs" for g using that gs(3) avail_bound by blast
  have bs: "map ?b [0..<NUM_PAG_DATA] = map of_nat gs" using gs(1) by (intro nth_equalityI) auto
  have im: "?b ` ?N = of_nat ` set gs" "(\<lambda>i. 284 + i) ` ?N = {284..<304}"
    using arg_cong [OF bs, of set] by (simp, simp add: page_counts)
  have "\<exists>s'. copy_data_pages P (\<lambda>i. 256 + i) (\<lambda>i. 284 + i) (\<lambda>i s. ?b i) [0..<NUM_PAG_DATA] s2 = Some s' \<and>
    (\<forall>i\<in>?N. fmem s' (?b i) = fmem s2 (?a i)) \<and> (\<forall>f. f \<notin> ?b ` ?N \<longrightarrow> fmem s' f = fmem s2 f) \<and>
    (\<forall>q j. pt s' q j = (if q = P \<and> j \<in> (\<lambda>i. 284 + i) ` ?N then 0 else pt s2 q j)) \<and>
    s' = s2\<lparr>fmem := fmem s', pt := pt s'\<rparr>"
  proof (rule copy_data_pages_ok)
    show "pte_present (pt s2 (cr3 s2) 0) = 1" "pte_pbase_addr (pt s2 (cr3 s2) 0) = P"
      using fk QP by (simp_all add: s2 forkable_def)
    show "\<forall>i\<in>?N. 256 + i < 1024 \<and> pte_present (pt s2 P (256 + i)) = 1 \<and> pte_pbase_addr (pt s2 P (256 + i)) = ?a i"
      using fk QP by (simp add: s2 forkable_def page_counts)
    show "\<forall>i\<in>?N. 284 + i < 1024 \<and> 0 < 284 + i \<and> take_bit 20 (?b i) = ?b i"
      using gs(1) bound by (simp add: page_counts)
    have "?b i \<noteq> ?a j" if "i < NUM_PAG_DATA" "j < NUM_PAG_DATA" for i j
    proof
      assume "?b i = ?a j"
      then have "of_nat (gs ! i) = ?a j" using that(1) gs(1) by simp
      then have "unat (?a j) = gs ! i" using that(1) gs(1) bound unat_frame [of "gs ! i"] by (metis nth_mem)
      moreover have "gs ! i \<in> avail s" using that(1) gs by auto
      ultimately show False using fk that(2) by (auto simp: forkable_def)
    qed
    then show "\<forall>i\<in>?N. \<forall>j\<in>?N. 284 + i \<noteq> 256 + j \<and> ?b i \<noteq> ?a j" by (auto simp: page_counts)
    have "inj_on (of_nat :: nat \<Rightarrow> DWord) (set gs)"
      by (rule inj_on_inverseI [where g = unat]) (rule unat_frame, rule bound)
    then show "distinct (map ?b [0..<NUM_PAG_DATA])" unfolding bs using gs(2) by (simp add: distinct_map)
  qed simp
  then show ?thesis unfolding im using gs(1) s2(2) by auto
qed

lemma init_child_ok:
  assumes fk: "forkable C P Q s" and enough: "NUM_PAG_DATA \<le> card (avail s)"
    and tabs: "get_PT_e c s = Q" "get_PT_e (current_e s) s = P" "get_DIR_e (current_e s) s = cr3 s"
  shows "\<exists>s' gs. init_child_address_space C c s = Some (0, s') \<and> length gs = NUM_PAG_DATA \<and> distinct gs \<and>
    set gs \<subseteq> avail s \<and> avail s' = avail s - set gs \<and>
    (\<forall>p. pt s' Q p = (if p \<in> {256..<276} then user_entry (of_nat (gs ! (p - 256)))
       else if p \<in> shared_pages C then user_entry (get_frame P p s) else pt s Q p)) \<and>
    (\<forall>q p. q \<noteq> Q \<longrightarrow> pt s' q p = (if q = P \<and> p \<in> {284..<304} then 0 else pt s q p)) \<and>
    (\<forall>i<NUM_PAG_DATA. fmem s' (of_nat (gs ! i)) = fmem s (pte_pbase_addr (pt s P (256 + i)))) \<and>
    (\<forall>f. f \<notin> of_nat ` set gs \<longrightarrow> fmem s' f = fmem s f) \<and>
    s' = s\<lparr>phys_mem := phys_mem s', pt := pt s', fmem := fmem s'\<rparr>"
proof -
  have lay: "PAG_LOG_INIT_DATA C = 256" "PAG_LOG_INIT_CODE C = 276" and QP: "Q \<noteq> P" "Q \<noteq> cr3 s"
    using fk by (simp_all add: forkable_def e1_layout_def)
  obtain gs s1 where s1: "new_frames_from NUM_PAG_DATA [] s = (Some (map of_nat gs), s1)"
      "pt s1 = pt s" "mm_state.more s1 = mm_state.more s" "cr3 s1 = cr3 s" "cr0 s1 = cr0 s"
    and gs: "length gs = NUM_PAG_DATA" "distinct gs" "set gs \<subseteq> avail s" "avail s1 = avail s - set gs"
    using new_frames_from_enough [of s NUM_PAG_DATA "[]"] fk enough by (auto simp: forkable_def)
  define s2 where "s2 = map_data_pages C Q (map of_nat gs) (share_kernel_and_code C Q P s1)"
  have pt2: "pt s2 q p = (if q = Q \<and> p \<in> {256..<276} then user_entry (of_nat (gs ! (p - 256)))
      else if q = Q \<and> p \<in> shared_pages C then user_entry (get_frame P p s) else pt s q p)" for q p
    using gs(1) s1(2) QP
    by (auto simp: s2_def pt_map_data_pages pt_share_kernel_and_code lay page_counts get_frame_def)
  have f2: "phys_mem s2 = phys_mem s1" "cr3 s2 = cr3 s" "cr0 s2 = cr0 s" "mm_state.more s2 = mm_state.more s"
    using s1 by (simp_all add: s2_def)
  then have eq2: "s2\<lparr>fmem := a, pt := b\<rparr> = s\<lparr>phys_mem := phys_mem s1, pt := b, fmem := a\<rparr>" for a b
    by (cases s; cases s2) simp
  have fm2: "fmem s2 = fmem s" using machine_more(1) [OF f2(4)] by simp
  obtain s3 where s3: "copy_data_pages P (\<lambda>i. 256 + i) (\<lambda>i. 284 + i) (\<lambda>i s. map of_nat gs ! i) [0..<NUM_PAG_DATA] s2 = Some s3"
      "\<forall>i<NUM_PAG_DATA. fmem s3 (of_nat (gs ! i)) = fmem s (pte_pbase_addr (pt s P (256 + i)))"
      "\<forall>f. f \<notin> of_nat ` set gs \<longrightarrow> fmem s3 f = fmem s f"
      "\<forall>q j. pt s3 q j = (if q = P \<and> j \<in> {284..<304} then 0 else pt s2 q j)"
      "s3 = s2\<lparr>fmem := fmem s3, pt := pt s3\<rparr>"
    using copy_child_ok [OF fk gs(1-3), of s2] f2(2) fm2 pt2 by auto
  have eq3: "s3 = s\<lparr>phys_mem := phys_mem s1, pt := pt s3, fmem := fmem s3\<rparr>"
    using s3(5) eq2 by (rule trans)
  have same: "get_PT_e c s1 = Q" "get_PT_e (current_e s1) s1 = P"
    using tabs machine_more [OF s1(3)] e1_more [OF machine_more(16) [OF s1(3)]] s1(2)
    by (simp_all add: get_PT_e_def current_e_def)
  have dir3: "get_DIR_e (current_e s3) s3 = cr3 s" "cr3 s3 = cr3 s"
    using tabs(3) by (subst eq3, subst (2) eq3, simp add: get_DIR_e_def current_e_def, subst eq3, simp)
  have "init_child_address_space C c s = Some (0, s3)"
    using s3(1) dir3 unfolding init_child_address_space_def s1(1)
    by (simp add: same s2_def [symmetric] Let_def lay page_counts set_cr3_def)
  moreover have "avail s3 = avail s - set gs" using gs(4) by (subst eq3) (simp add: avail_def)
  moreover have "phys_mem s3 = phys_mem s1" by (subst eq3) simp
  ultimately show ?thesis
    using s3(2-4) gs(1-3) eq3 QP by (intro exI [of _ s3] exI [of _ gs]) (simp add: pt2)
qed

section \<open>Slot and queues\<close>

lemma e1_keep:
  assumes "e1_queues h fs rs bs" and "same_links (nodes (e1_map fs rs bs)) h h'"
  shows "e1_queues h' fs rs bs"
  using lq.queues_keep assms unfolding e1_queues_def by blast

lemma dll_nil_cong: "same_links {q} h h' \<Longrightarrow> dll h q [] \<Longrightarrow> dll h' q []"
  using dll_cong [of q "[]" h h'] by simp

text \<open>The state after a slot was taken, the parent copied into it and its directory assigned.\<close>

definition new_slot :: "e1cfg \<Rightarrow> nat \<Rightarrow> node lheap \<Rightarrow> e1 \<Rightarrow> e1" where
  "new_slot C c h s =
     snd (allocate_DIR_e C c (copy_task_union_e (current_e s) c (s\<lparr>links := h\<rparr>)))"

lemma new_slot_fields:
  "phys_mem (new_slot C c h s) = phys_mem s" "pt (new_slot C c h s) = pt s" "cr3 (new_slot C c h s) = cr3 s"
  "fmem (new_slot C c h s) = fmem s" "esp (new_slot C c h s) = esp s" "scr (new_slot C c h s) = scr s"
  "current_e (new_slot C c h s) = current_e s" "PID_counter (new_slot C c h s) = PID_counter s"
  "stacks (new_slot C c h s) = (stacks s)(c := stacks s (current_e s))"
  "tasks_e (new_slot C c h s) =
     (tasks_e s)(c := (tasks_e s (current_e s))\<lparr>dir_pages_baseAddr_e := dir_page C c\<rparr>)"
  "same_links (- {TaskList c, TaskKids c}) h (links (new_slot C c h s))"
  by (simp_all add: new_slot_def allocate_DIR_e_def copy_task_union_e_def upd_task_e_def current_e_def
      same_links_def)

lemma new_slot_eq:
  "new_slot C c h s = s\<lparr>links := links (new_slot C c h s), stacks := stacks (new_slot C c h s),
     tasks_e := tasks_e (new_slot C c h s)\<rparr>"
  by (simp add: new_slot_def allocate_DIR_e_def copy_task_union_e_def upd_task_e_def)

lemma fork_slot:
  assumes q: "e1_queues (links s) (c # fs) rs bs" and kids: "dll (links s) (TaskKids (current_e s)) []"
    and ne: "c \<noteq> current_e s"
  obtains h where "take_free_e s = Some (c, s\<lparr>links := h\<rparr>)"
    and "e1_queues (links (new_slot C c h s)) fs rs bs"
    and "dll (links (new_slot C c h s)) (TaskKids (current_e s)) []"
    and "sys_fork_e C s = do {
       (res, s) \<leftarrow> init_child_address_space C c (new_slot C c h s);
       if res < 0 then Some (res, s) else start_child_e c s }"
proof -
  obtain h where h: "list_del (Some (TaskList c)) (links s) = Some h" "e1_queues h fs rs bs"
      "same_links (- nodes (e1_map (c # fs) rs bs)) (links s) h"
    using e1_deq(1) [OF q] by blast
  have c: "c \<notin> set fs \<union> set rs \<union> set bs" using e1_distinct [OF q] by auto
  have t: "take_free_e s = Some (c, s\<lparr>links := h\<rparr>)"
    using h(1) by (simp add: take_free_e_def e1_first(2) [OF q] list_head_to_task_struct_e_def)
  let ?h = "links (new_slot C c h s)"
  have k: "same_links (- {TaskList c, TaskKids c}) h ?h" by (rule new_slot_fields)
  have "e1_queues ?h fs rs bs"
    by (rule e1_keep [OF h(2)], rule same_links_mono [OF k]) (use c in \<open>auto simp: nodes_e1_map\<close>)
  moreover have "same_links {TaskKids (current_e s)} (links s) ?h"
    using same_links_mono [OF h(3), of "{TaskKids (current_e s)}"] same_links_mono [OF k, of "{TaskKids (current_e s)}"]
      ne by (auto simp: nodes_e1_map intro: same_links_trans)
  then have "dll ?h (TaskKids (current_e s)) []" using kids by (rule dll_nil_cong)
  moreover have "sys_fork_e C s = do {
       (res, s) \<leftarrow> init_child_address_space C c (new_slot C c h s);
       if res < 0 then Some (res, s) else start_child_e c s }"
    using t by (simp add: sys_fork_e_def e1_empty(2) [OF q] new_slot_def current_e_def Let_def)
  ultimately show thesis using t that by blast
qed

lemma start_child_links:
  assumes q: "e1_queues h fs rs bs" and kids: "dll h (TaskKids p) []"
    and c: "c \<notin> set fs \<union> set rs \<union> set bs" "c \<noteq> p"
  obtains h1 h2 h3 where "INIT_LIST_HEAD (Some (TaskKids c)) h = Some h1"
    and "list_add_tail (Some (TaskList c)) (Some (TaskKids p)) h1 = Some h2"
    and "list_add_tail (Some (TaskList c)) (Some Readyqueue) h2 = Some h3"
    and "e1_queues h3 fs (rs @ [c]) bs" and "nxt h3 (TaskKids p) = Some (TaskList c)"
    and "nxt h3 (TaskList c) = Some Readyqueue"
proof -
  obtain h1 where h1: "INIT_LIST_HEAD (Some (TaskKids c)) h = Some h1" "same_links (- {TaskKids c}) h h1"
    using init_list_head_dll [of "TaskKids c" h] by auto
  have q1: "e1_queues h1 fs rs bs"
    by (rule e1_keep [OF q], rule same_links_mono [OF h1(2)]) (auto simp: nodes_e1_map)
  have "same_links {TaskKids p} h h1" by (rule same_links_mono [OF h1(2)]) (use c(2) in simp)
  then have k1: "dll h1 (TaskKids p) []" using kids by (rule dll_nil_cong)
  then obtain h2 where h2: "list_add_tail (Some (TaskList c)) (Some (TaskKids p)) h1 = Some h2"
      "dll h2 (TaskKids p) [TaskList c]" "same_links (- {TaskList c, TaskKids p}) h1 h2"
    using list_add_tail_dll [OF k1, of "TaskList c"] by auto
  have q2: "e1_queues h2 fs rs bs"
    by (rule e1_keep [OF q1], rule same_links_mono [OF h2(3)]) (use c in \<open>auto simp: nodes_e1_map\<close>)
  obtain h3 where h3: "list_add_tail (Some (TaskList c)) (Some Readyqueue) h2 = Some h3"
      "e1_queues h3 fs (rs @ [c]) bs" "same_links (- insert (TaskList c) (nodes (e1_map fs rs bs))) h2 h3"
    using e1_enq(2) [OF q2 c(1)] by blast
  have "nxt h3 (TaskKids p) = nxt h2 (TaskKids p)"
    using h3(3) by (auto simp: same_links_def nodes_e1_map)
  moreover have "nxt h2 (TaskKids p) = Some (TaskList c)" using h2(2) by (simp add: dll_def)
  moreover have "dll h3 Readyqueue (map TaskList rs @ [TaskList c])"
    using queuesD [OF h3(2) [unfolded e1_queues_def] e1_map_at(2)] by simp
  then have "nxt h3 (TaskList c) = Some Readyqueue" by (simp add: dll_def)
  ultimately show thesis using that h1(1) h2(1) h3(1,2) by simp
qed

lemma start_child_ok:
  assumes "e1_queues (links s) fs rs bs" and "dll (links s) (TaskKids (current_e s)) []"
    and "c \<notin> set fs \<union> set rs \<union> set bs" and "c \<noteq> current_e s"
  shows "\<exists>s'. start_child_e c s = Some (PID_counter s, s') \<and> e1_queues (links s') fs (rs @ [c]) bs \<and>
    nxt (links s') (TaskKids (current_e s)) = Some (TaskList c) \<and> nxt (links s') (TaskList c) = Some Readyqueue \<and>
    current_e s' = current_e s \<and>
    pt s' = pt s \<and> fmem s' = fmem s \<and> phys_mem s' = phys_mem s \<and>
    tasks_e s' c = (tasks_e s c)\<lparr>PID_e := PID_counter s, parent := Some (current_e s), quantum := DEFAULT_QUANTUM_e,
       state_e := ST_READY, pending_unblocks := 0, kernel_esp := Some (c, 1005)\<rparr> \<and>
    stacks s' c = (stacks s c)(1005 := Num 0, 1006 := CodeAddr ''ret_from_fork'') \<and>
    tasks_e s' (current_e s) = tasks_e s (current_e s) \<and>
    s' = s\<lparr>links := links s', stacks := stacks s', tasks_e := tasks_e s', PID_counter := PID_counter s'\<rparr>"
proof (rule start_child_links [OF assms])
  fix h1 h2 h3
  assume "INIT_LIST_HEAD (Some (TaskKids c)) (links s) = Some h1"
    "list_add_tail (Some (TaskList c)) (Some (TaskKids (current_e s))) h1 = Some h2"
    "list_add_tail (Some (TaskList c)) (Some Readyqueue) h2 = Some h3" "e1_queues h3 fs (rs @ [c]) bs"
    "nxt h3 (TaskKids (current_e s)) = Some (TaskList c)" "nxt h3 (TaskList c) = Some Readyqueue"
  then show ?thesis
    using assms(4) by (simp add: start_child_e_def Let_def upd_task_e_def set_stack_def current_e_def KERNEL_STACK_SIZE_def)
qed

section \<open>A concrete state\<close>

text \<open>The running process of \<open>e1_demo\<close> with its page directory in page 10 and its page table in page 20,
  slot 3 free with directory 12 and table 22, and every frame free.\<close>

definition fork_cfg :: e1cfg where
  "fork_cfg = \<lparr>PAG_LOG_INIT_CODE = 276, PAG_LOG_INIT_DATA = 256, dir_pages_at = 9, pagusr_table_at = 19,
     show_clock_e = (\<lambda>sc. sc), monoprocess_init_addr_space = (\<lambda>s. s), after_char_map_e = (\<lambda>_. 0),
     frame_words_e = (\<lambda>_. 8)\<rparr>"

definition fork_links :: "node lheap" where
  "fork_links = \<lparr>
     nxt = (nxt demo_links)(Freequeue := Some (TaskList 3), TaskList 3 := Some Freequeue),
     prv = (prv demo_links)(Freequeue := Some (TaskList 3), TaskList 3 := Some Freequeue)\<rparr>"

definition fork_demo :: e1 where
  "fork_demo = e1_demo\<lparr>cr3 := 10, links := fork_links,
     pt := (\<lambda>q p. if q = 10 \<and> p = 0 then user_entry 20 else if q = 12 \<and> p = 0 then user_entry 22
        else if q = 20 then user_entry (of_nat (2 * p + 1)) else 0),
     tasks_e := (tasks_e e1_demo)(1 := (tasks_e e1_demo 1)\<lparr>dir_pages_baseAddr_e := 10\<rparr>)\<rparr>"

lemma fork_demo_queues: "e1_queues (links fork_demo) [3] [2] []" "dll (links fork_demo) (TaskKids 1) []"
  by (auto simp: e1_queues_def queues_def e1_map_def fork_demo_def fork_links_def demo_links_def dll_def
      split: if_splits)

lemma fork_demo_avail: "frames_ok fork_demo" "avail fork_demo = {i. NUM_PAG_KERNEL \<le> i \<and> i < TOTAL_PAGES \<and> even i}"
  by (auto simp: fork_demo_def e1_demo_def frames_ok_def avail_def mm_consts)

lemma fork_demo_entry: "p < 500 \<Longrightarrow> pt fork_demo 20 p = user_entry (of_nat (2 * p + 1))"
  by (simp add: fork_demo_def)

lemma fork_demo_forkable: "forkable fork_cfg 20 22 fork_demo"
proof -
  have "pte_present (pt fork_demo 20 (256 + i)) = 1 \<and> unat (pte_pbase_addr (pt fork_demo 20 (256 + i))) \<notin> avail fork_demo"
    if "i < NUM_PAG_DATA" for i
  proof -
    have b: "2 * (256 + i) + 1 < TOTAL_PAGES" "256 + i < 500" using that by (simp_all add: mm_consts)
    have "unat (pte_pbase_addr (pt fork_demo 20 (256 + i))) = 2 * (256 + i) + 1"
      unfolding fork_demo_entry [OF b(2)] using take_bit_frame [OF b(1)] unat_frame [OF b(1)]
      by (simp only: user_entry_fields)
    moreover have "pte_present (pt fork_demo 20 (256 + i)) = 1"
      unfolding fork_demo_entry [OF b(2)] by (simp only: user_entry_fields)
    ultimately show ?thesis by (simp add: fork_demo_avail)
  qed
  then show ?thesis
    using fork_demo_avail(1)
    by (simp add: forkable_def e1_layout_def fork_cfg_def) (simp add: fork_demo_def)
qed

section \<open>A fork that succeeds\<close>

text \<open>The child, and that the rest of the machine is as it was.\<close>

lemma fork_e_result:
  assumes "e1_queues (links s) (c # fs) rs bs" and "dll (links s) (TaskKids (current_e s)) []" and "c \<noteq> current_e s"
    and "forkable C P (pte_pbase_addr (pt s (dir_page C c) 0)) s" and "NUM_PAG_DATA \<le> card (avail s)"
    and "get_PT_e (current_e s) s = P" and "get_DIR_e (current_e s) s = cr3 s" and "0 \<le> PID_counter s"
    and "pte_pbase_addr (pt s (dir_page C c) 0) \<noteq> dir_page C c"
  shows "\<exists>s' gs. sys_fork_e C s = Some (PID_counter s, s') \<and> e1_queues (links s') fs (rs @ [c]) bs \<and>
    PID_e (tasks_e s' c) = PID_counter s \<and> parent (tasks_e s' c) = Some (current_e s) \<and>
    state_e (tasks_e s' c) = ST_READY \<and> quantum (tasks_e s' c) = DEFAULT_QUANTUM_e \<and>
    kernel_esp (tasks_e s' c) = Some (c, 1005) \<and> stacks s' c 1006 = CodeAddr ''ret_from_fork'' \<and>
    stacks s' c 1007 = stacks s (current_e s) 1007 \<and>
    length gs = NUM_PAG_DATA \<and> distinct gs \<and> set gs \<subseteq> avail s \<and> avail s' = avail s - set gs \<and>
    (\<forall>i<NUM_PAG_DATA. get_frame (get_PT_e c s') (256 + i) s' = of_nat (gs ! i) \<and>
       fmem s' (of_nat (gs ! i)) = fmem s (get_frame P (256 + i) s)) \<and>
    (\<forall>p\<in>shared_pages C. get_frame (get_PT_e c s') p s' = get_frame P p s) \<and>
    (\<forall>f. f \<notin> of_nat ` set gs \<longrightarrow> fmem s' f = fmem s f) \<and> (\<forall>p\<in>{284..<304}. pt s' P p = 0) \<and>
    tasks_e s' (current_e s) = tasks_e s (current_e s) \<and>
    pt s' (cr3 s) 0 = pt s (cr3 s) 0 \<and> (\<forall>p\<in>{256..<276}. pt s' P p = pt s P p) \<and>
    s' = s\<lparr>phys_mem := phys_mem s', pt := pt s', fmem := fmem s', links := links s', stacks := stacks s',
      tasks_e := tasks_e s', PID_counter := PID_counter s'\<rparr>"
proof -
  let ?Q = "pte_pbase_addr (pt s (dir_page C c) 0)"
  obtain h where h: "e1_queues (links (new_slot C c h s)) fs rs bs"
      "dll (links (new_slot C c h s)) (TaskKids (current_e s)) []"
    and fork: "sys_fork_e C s = do {
       (res, s) \<leftarrow> init_child_address_space C c (new_slot C c h s);
       if res < 0 then Some (res, s) else start_child_e c s }"
    by (rule fork_slot [OF assms(1-3), where C = C]) (rule that, assumption+)
  define s1 where "s1 = new_slot C c h s"
  note n = new_slot_fields [where C = C and c = c and h = h and s = s, folded s1_def]
  have c: "c \<notin> set fs \<union> set rs \<union> set bs" using e1_distinct [OF assms(1)] by auto
  have av: "avail s1 = avail s" using n(1) by (simp add: avail_def)
  have fk: "forkable C P ?Q s1" using assms(4) by (simp add: forkable_def n av frames_ok_def)
  have tb: "get_PT_e c s1 = ?Q" "get_PT_e (current_e s1) s1 = P" "get_DIR_e (current_e s1) s1 = cr3 s1"
    using assms(3,6,7) by (simp_all add: get_PT_e_def get_DIR_e_def n)
  have en: "NUM_PAG_DATA \<le> card (avail s1)" using assms(5) av by simp
  obtain s2 gs where s2: "init_child_address_space C c s1 = Some (0, s2)"
    "length gs = NUM_PAG_DATA" "distinct gs" "set gs \<subseteq> avail s" "avail s2 = avail s - set gs"
    "\<And>p. pt s2 ?Q p = (if p \<in> {256..<276} then user_entry (of_nat (gs ! (p - 256)))
       else if p \<in> shared_pages C then user_entry (get_frame P p s1) else pt s1 ?Q p)"
    "\<And>q p. q \<noteq> ?Q \<Longrightarrow> pt s2 q p = (if q = P \<and> p \<in> {284..<304} then 0 else pt s1 q p)"
    "\<And>i. i < NUM_PAG_DATA \<Longrightarrow> fmem s2 (of_nat (gs ! i)) = fmem s1 (pte_pbase_addr (pt s1 P (256 + i)))"
    "\<And>f. f \<notin> of_nat ` set gs \<Longrightarrow> fmem s2 f = fmem s1 f"
    "s2 = s1\<lparr>phys_mem := phys_mem s2, pt := pt s2, fmem := fmem s2\<rparr>"
    using init_child_ok [OF fk en tb] av by auto
  have kd: "links s2 = links s1" "current_e s2 = current_e s" "tasks_e s2 = tasks_e s1" "stacks s2 = stacks s1"
      "PID_counter s2 = PID_counter s"
    by (subst s2(10), simp add: n current_e_def)+
  have "e1_queues (links s2) fs rs bs" "dll (links s2) (TaskKids (current_e s2)) []" "c \<noteq> current_e s2"
    using h assms(3) kd by (simp_all add: s1_def)
  from start_child_ok [OF this(1,2) c this(3)] obtain s' where
    s': "start_child_e c s2 = Some (PID_counter s, s')" "e1_queues (links s') fs (rs @ [c]) bs"
      "pt s' = pt s2" "fmem s' = fmem s2" "phys_mem s' = phys_mem s2"
      "tasks_e s' c = (tasks_e s1 c)\<lparr>PID_e := PID_counter s, parent := Some (current_e s), quantum := DEFAULT_QUANTUM_e,
         state_e := ST_READY, pending_unblocks := 0, kernel_esp := Some (c, 1005)\<rparr>"
      "stacks s' c = (stacks s1 c)(1005 := Num 0, 1006 := CodeAddr ''ret_from_fork'')"
      "tasks_e s' (current_e s) = tasks_e s1 (current_e s)"
    and eq': "s' = s2\<lparr>links := links s', stacks := stacks s', tasks_e := tasks_e s', PID_counter := PID_counter s'\<rparr>"
    unfolding kd by (elim exE conjE)
  have eq: "s' = s\<lparr>phys_mem := phys_mem s', pt := pt s', fmem := fmem s', links := links s', stacks := stacks s',
      tasks_e := tasks_e s', PID_counter := PID_counter s'\<rparr>"
    by (subst eq', subst s2(10), subst new_slot_eq [of C c h s, folded s1_def]) (simp add: s'(3-5))
  have PT: "get_PT_e c s' = ?Q"
    using s2(7) [of "dir_page C c" 0] assms(9) by (simp add: get_PT_e_def s' n)
  have gf: "get_frame P p s1 = get_frame P p s" for p by (simp add: get_frame_def n)
  have fr: "get_frame ?Q (256 + i) s' = of_nat (gs ! i)" if "i < NUM_PAG_DATA" for i
  proof -
    have "gs ! i < TOTAL_PAGES" using that s2(2,4) avail_bound by (metis nth_mem subsetD)
    then show ?thesis using that by (simp add: get_frame_def s' s2(6) page_counts)
  qed
  have sh: "get_frame ?Q p s' = get_frame P p s" if "p \<in> shared_pages C" for p
  proof -
    have "p \<notin> {256..<276}" using that assms(4)
      by (auto simp: shared_pages_def forkable_def e1_layout_def page_counts)
    moreover have "take_bit 20 (pte_pbase_addr e) = pte_pbase_addr e" for e
      by (simp add: pte_pbase_addr_def bf_get_def)
    ultimately show ?thesis using that by (auto simp: get_frame_def s' s2(6) n)
  qed
  have "sys_fork_e C s = Some (PID_counter s, s')" using fork s2(1) s'(1) by (simp add: s1_def [symmetric])
  moreover have "\<forall>p\<in>{284..<304}. pt s' P p = 0" using assms(4) by (auto simp: s' s2(7) forkable_def)
  moreover have "avail s' = avail s2" by (simp add: avail_def s')
  moreover have "pt s' (cr3 s) 0 = pt s (cr3 s) 0" "\<forall>p\<in>{256..<276}. pt s' P p = pt s P p"
    using assms(4) by (auto simp: s' s2(7) n forkable_def)
  moreover have "tasks_e s' (current_e s) = tasks_e s (current_e s)" using assms(3) by (simp add: s'(8) n)
  ultimately show ?thesis
    using s2(2-5,8,9) s'(2) fr sh PT
    by (intro exI [of _ s'] exI [of _ gs] conjI) (rule eq | simp add: s' n get_frame_def)+
qed

section \<open>Properties\<close>







end
