(* ===== verification/E1_Calls.thy ===== *)
theory E1_Calls
  imports E1_Fork
begin

text \<open>
  The remaining calls and interrupt routines of the kernel of \<^verbatim>\<open>so2_old/E1_E2\<close>: console
  output, the clock that never schedules, the keyboard, hexadecimal output, the initial
  queues, and the end of a process without children.
\<close>

section \<open>Console output\<close>

lemma write_pieces_readable:
  assumes "readable (a + of_nat off) n s"
  shows "write_pieces a (int n) w (int off) s = (let k = 256 * ((n - 1) div 256) in
    Some (int (n - k), w + int k, int (off + k),
      s\<lparr>scr := fold printc (out_bytes (lin s) (a + of_nat off) k) (scr s)\<rparr>))"
  using assms
proof (induction n arbitrary: off w s rule: less_induct)
  case (less n)
  show ?case
  proof (cases "256 < n")
    case False
    then have "(n - 1) div 256 = 0" by simp
    with False show ?thesis by (subst write_pieces.simps) (simp add: BUFFER_SIZE_def out_bytes_def)
  next
    case True
    let ?s = "s\<lparr>scr := fold printc (out_bytes (lin s) (a + of_nat off) 256) (scr s)\<rparr>"
    have r: "readable (a + of_nat off) 256 s" "readable (a + of_nat (off + 256)) (n - 256) s"
      using less.prems True readable_add [of "a + of_nat off" 256 "n - 256" s] by (simp_all add: add.assoc)
    let ?k = "256 * ((n - 256 - 1) div 256)"
    have k: "256 * ((n - 1) div 256) = 256 + ?k"
    proof -
      have "n - 1 = (n - 256 - 1) + 256" using True by simp
      then show ?thesis by (simp only: div_add_self2) simp
    qed
    have i: "int n - 256 = int (n - 256)" "int off + 256 = int (off + 256)" using True by auto
    have "write_pieces a (int n) w (int off) s = write_pieces a (int (n - 256)) (w + 256) (int (off + 256)) ?s"
      using True r(1) console_out [of "lin s" "a + of_nat off" 256] unfolding i [symmetric]
      by (subst write_pieces.simps) (simp add: BUFFER_SIZE_def copy_in_def)
    also have "\<dots> = Some (int (n - 256 - ?k), w + 256 + int ?k, int (off + 256 + ?k),
      ?s\<lparr>scr := fold printc (out_bytes (lin ?s) (a + of_nat (off + 256)) ?k) (scr ?s)\<rparr>)"
      using less.IH [of "n - 256" "off + 256" ?s "w + 256"] True r(2) by (simp add: Let_def)
    also have "\<dots> = (let k = 256 * ((n - 1) div 256) in
    Some (int (n - k), w + int k, int (off + k),
      s\<lparr>scr := fold printc (out_bytes (lin s) (a + of_nat off) k) (scr s)\<rparr>))"
      unfolding Let_def k out_bytes_split by (simp add: add.assoc)
    finally show ?thesis .
  qed
qed

lemma sys_write_e_readable:
  assumes "readable a n s" and "a \<noteq> 0"
  defines "k \<equiv> 256 * ((n - 1) div 256)"
  shows "sys_write_e 1 a (int n) s =
    Some (int n, s\<lparr>scr := fold printc (out_bytes (lin s) a k @ out_bytes (lin s) a (n - k)) (scr s)\<rparr>)"
proof -
  have le: "k \<le> n" unfolding k_def by (metis div_times_less_eq_dividend diff_le_self le_trans mult.commute)
  have w: "write_pieces a (int n) 0 0 s =
      Some (int (n - k), int k, int k, s\<lparr>scr := fold printc (out_bytes (lin s) a k) (scr s)\<rparr>)"
    using write_pieces_readable [of a 0 n s 0] assms(1) by (simp add: k_def Let_def)
  have r: "readable (a + of_nat k) (n - k) s" "readable a (n - k) s"
    using assms(1) readable_add [of a k "n - k" s] readable_add [of a "n - k" k s] le by simp_all
  show ?thesis
  proof (cases "k = n")
    case True
    then show ?thesis using w assms(2) by (simp add: sys_write_e_def check_fd_e_def out_bytes_def)
  next
    case False
    then have "0 < n - k" "nat (int n - int k) = n - k" using le by auto
    then show ?thesis
      using w r assms(2) le console_out [of "lin s" a "n - k"]
      by (simp add: sys_write_e_def check_fd_e_def copy_in_def of_nat_diff)
  qed
qed

section \<open>Hexadecimal output\<close>

definition read_hex :: "Byte list \<Rightarrow> nat" where
  "read_hex = foldl (\<lambda>v c. 16 * v + (if c < 65 then unat (c - 48) else unat (c - 55))) 0"

lemma hex_digit_value:
  fixes d :: DWord
  assumes "unat d < 16"
  defines "c \<equiv> (if d < 10 then 48 + ucast d else 65 + ucast d - 10 :: Byte)"
  shows "(if c < 65 then unat (c - 48) else unat (c - 55)) = unat d" and "c \<noteq> 0"
proof -
  have "d = of_nat (unat d)" by simp
  moreover have "unat d \<in> set [0..<16]" using assms(1) by simp
  ultimately have "d \<in> of_nat ` set [0..<16]" by blast
  then have "d \<in> set (map of_nat [0..<16])" by simp
  then have "d \<in> {0, 1, 2, 3, 4, 5, 6, 7, 8, 9, 10, 11, 12, 13, 14, 15}"
    by (simp add: upt_rec)
  then show "(if c < 65 then unat (c - 48) else unat (c - 55)) = unat d" "c \<noteq> 0"
    unfolding c_def by auto
qed

lemma hex_digits_spec:
  assumes "n \<le> length s" and "unat a < 16 ^ n"
  shows "\<exists>ds. hex_digits n a s = Some (ds @ drop n s) \<and> length ds = n \<and> read_hex ds = unat a \<and> 0 \<notin> set ds"
  using assms
proof (induction n arbitrary: a s)
  case 0
  then show ?case by (simp add: read_hex_def)
next
  case (Suc n)
  let ?c = "if a mod 16 < 10 then 48 + ucast (a mod 16) else 65 + ucast (a mod 16) - 10 :: Byte"
  have d: "unat (a mod 16) = unat a mod 16" "unat (a div 16) = unat a div 16"
    by (simp_all add: unat_mod unat_div)
  have "hex_digits (Suc n) a s = hex_digits n (a div 16) (s[n := ?c])"
    using Suc.prems(1) by (simp add: store_def Let_def)
  moreover obtain ds where ds: "hex_digits n (a div 16) (s[n := ?c]) = Some (ds @ drop n (s[n := ?c]))"
      "length ds = n" "read_hex ds = unat a div 16" "0 \<notin> set ds"
    using Suc.IH [of "s[n := ?c]" "a div 16"] Suc.prems d by (auto simp: less_mult_imp_div_less)
  moreover have "drop n (s[n := ?c]) = ?c # drop (Suc n) s"
    using Suc.prems(1) by (simp add: Cons_nth_drop_Suc [symmetric])
  moreover have "unat (a mod 16) < 16" using d by simp
  note hex_digit_value [OF this]
  ultimately show ?case
    using d by (intro exI [of _ "ds @ [?c]"]) (auto simp: read_hex_def)
qed

section \<open>Initial queues\<close>

lemma e1_push:
  assumes "e1_queues h fs rs bs" and "t \<notin> set fs \<union> set rs \<union> set bs"
  shows "\<exists>h'. list_add (Some (TaskList t)) (Some Freequeue) h = Some h' \<and> e1_queues h' (t # fs) rs bs"
proof -
  have n: "TaskList t \<notin> nodes (e1_map fs rs bs)" using assms(2) by (auto simp: nodes_e1_map)
  have e: "TaskList t # map TaskList fs = map TaskList (t # fs)" by simp
  show ?thesis
    using lq.queues_push [OF assms(1) [unfolded e1_queues_def] e1_map_at(1) n]
    unfolding e1_queues_def e e1_map_upd by blast
qed

lemma fill_freequeue_ok:
  "e1_queues (links s) fs [] [] \<Longrightarrow> distinct is \<Longrightarrow> set is \<inter> set fs = {} \<Longrightarrow>
   \<exists>h. fill_freequeue is s = Some (s\<lparr>links := h\<rparr>) \<and> e1_queues h (rev is @ fs) [] []"
proof (induction "is" arbitrary: s fs)
  case Nil
  then show ?case by (intro exI [of _ "links s"]) simp
next
  case (Cons i "is")
  obtain h where h: "list_add (Some (TaskList i)) (Some Freequeue) (links s) = Some h" "e1_queues h (i # fs) [] []"
    using e1_push [OF Cons.prems(1), of i] Cons.prems(3) by auto
  then show ?case using Cons.IH [of "s\<lparr>links := h\<rparr>" "i # fs"] Cons.prems(2,3) by auto
qed

lemma init_sched_e_ok:
  "\<exists>h. init_sched_e s = Some (s\<lparr>links := h, queue_ticks := DEFAULT_QUANTUM_e\<rparr>) \<and>
     e1_queues h [9, 8, 7, 6, 5, 4, 3, 2, 1, 0] [] []"
proof -
  have "queues dll (links s) Map.empty" by (simp add: queues_def)
  then obtain h1 where h1: "INIT_LIST_HEAD (Some Freequeue) (links s) = Some h1" "queues dll h1 [Freequeue \<mapsto> []]"
    using lq.queues_init [of "links s" Map.empty Freequeue] by (auto simp: nodes_def)
  have n2: "Readyqueue \<notin> nodes [Freequeue \<mapsto> []]" and n3: "Blocked \<notin> nodes [Freequeue \<mapsto> [], Readyqueue \<mapsto> []]"
    by (auto simp: nodes_def split: if_splits)
  obtain h2 where h2: "INIT_LIST_HEAD (Some Readyqueue) h1 = Some h2" "queues dll h2 [Freequeue \<mapsto> [], Readyqueue \<mapsto> []]"
    using lq.queues_init [OF h1(2) n2] by blast
  obtain h3 where h3: "INIT_LIST_HEAD (Some Blocked) h2 = Some h3"
      "queues dll h3 [Freequeue \<mapsto> [], Readyqueue \<mapsto> [], Blocked \<mapsto> []]"
    using lq.queues_init [OF h2(2) n3] by blast
  have "e1_queues h3 [] [] []" using h3(2) by (simp add: e1_queues_def e1_map_def)
  then obtain h where h: "fill_freequeue [0..<NR_TASKS] (s\<lparr>links := h3\<rparr>) = Some (s\<lparr>links := h\<rparr>)"
      "e1_queues h (rev [0..<NR_TASKS]) [] []"
    using fill_freequeue_ok [of "s\<lparr>links := h3\<rparr>" "[]" "[0..<NR_TASKS]"] by auto
  then have "init_sched_e s = Some (s\<lparr>links := h, queue_ticks := DEFAULT_QUANTUM_e\<rparr>)"
    using h1(1) h2(1) h3(1) by (simp add: init_sched_e_def)
  moreover have "rev [0..<NR_TASKS] = [9, 8, 7, 6, 5, 4, 3, 2, 1, 0]" by (simp add: NR_TASKS_def upt_rec)
  ultimately show ?thesis using h(2) by auto
qed

lemma set_user_pages_more:
  fixes m :: "'b mm_state_scheme"
  shows "mm_state.more (set_user_pages C PT m) = mm_state.more m"
proof -
  have "mm_state.more (set_user_page rw PT p m) = mm_state.more m" for rw p and m :: "'b mm_state_scheme"
    by (simp add: set_user_page_def case_prod_beta Let_def)
  then have "mm_state.more (fold (\<lambda>i. set_user_page rw PT (d + i)) is m) = mm_state.more m"
    for rw d "is" and m :: "'b mm_state_scheme"
    by (induction "is" arbitrary: m) simp_all
  then show ?thesis by (simp add: set_user_pages_def)
qed

text \<open>Taking the first free slot and starting its list of children.\<close>

lemma take_slot:
  assumes "e1_queues (links s) (c # fs) rs bs"
  obtains h h' where "take_free_e s = Some (c, s\<lparr>links := h\<rparr>)"
    and "INIT_LIST_HEAD (Some (TaskKids c)) h = Some h'" and "e1_queues h' fs rs bs" and "dll h' (TaskKids c) []"
proof -
  obtain h where h: "list_del (Some (TaskList c)) (links s) = Some h" "e1_queues h fs rs bs"
    using e1_deq(1) [OF assms] by blast
  obtain h' where h': "INIT_LIST_HEAD (Some (TaskKids c)) h = Some h'" "dll h' (TaskKids c) []"
      "same_links (- {TaskKids c}) h h'"
    using init_list_head_dll [of "TaskKids c" h] by auto
  have "e1_queues h' fs rs bs"
    by (rule e1_keep [OF h(2)], rule same_links_mono [OF h'(3)]) (auto simp: nodes_e1_map)
  then show thesis
    using h(1) h' by (intro that [of h h']) (simp_all add: take_free_e_def e1_first(2) [OF assms] list_head_to_task_struct_e_def)
qed

section \<open>Properties\<close>

text \<open>The scheduler initialisation of E1_E2 always succeeds: \<open>list_add\<close> fills the free queue from
  the last slot on, so the idle task gets slot 9 and process 1 slot 8; process 1 runs with the default
  quantum, the idle task will start in \<open>cpu_idle\<close>, and the other eight slots are free.\<close>

theorem boot_e_queues:
  "\<exists>s'. init_sched_e s \<bind> init_idle_e C \<bind> init_task1_e C = Some s' \<and>
     e1_queues (links s') [7, 6, 5, 4, 3, 2, 1, 0] [] [] \<and> dll (links s') (TaskKids 8) [] \<and>
     idle_task_e s' = Some 9 \<and> task1 s' = Some 8 \<and> PID_e (tasks_e s' 9) = 0 \<and> PID_e (tasks_e s' 8) = 1 \<and>
     state_e (tasks_e s' 8) = ST_RUN \<and> queue_ticks s' = 100 \<and> kernel_esp (tasks_e s' 9) = Some (9, 1022) \<and>
     stacks s' 9 1023 = CodeAddr ''cpu_idle'' \<and> tss_esp0 s' = (8, 1024) \<and> cr3 s' = dir_page C 8"
proof -
  obtain h0 where i0: "init_sched_e s = Some (s\<lparr>links := h0, queue_ticks := DEFAULT_QUANTUM_e\<rparr>)"
      "e1_queues h0 [9, 8, 7, 6, 5, 4, 3, 2, 1, 0] [] []"
    using init_sched_e_ok by blast
  define s0 where "s0 = s\<lparr>links := h0, queue_ticks := DEFAULT_QUANTUM_e\<rparr>"
  have q0: "e1_queues (links s0) [9, 8, 7, 6, 5, 4, 3, 2, 1, 0] [] []" using i0(2) by (simp add: s0_def)
  obtain h1 h2 where h: "take_free_e s0 = Some (9, s0\<lparr>links := h1\<rparr>)" "INIT_LIST_HEAD (Some (TaskKids 9)) h1 = Some h2"
      "e1_queues h2 [8, 7, 6, 5, 4, 3, 2, 1, 0] [] []"
    by (rule take_slot [OF q0])
  obtain s1 where s1: "init_idle_e C s0 = Some s1" "links s1 = h2" "idle_task_e s1 = Some 9" "PID_e (tasks_e s1 9) = 0"
      "kernel_esp (tasks_e s1 9) = Some (9, 1022)" "stacks s1 9 1023 = CodeAddr ''cpu_idle''" "queue_ticks s1 = 100"
    using h(1,2) by (simp add: init_idle_e_def Let_def upd_task_e_def set_quantum_e_def allocate_DIR_e_def
        set_stack_def KERNEL_STACK_SIZE_def s0_def DEFAULT_QUANTUM_e_def)
  have q1: "e1_queues (links s1) [8, 7, 6, 5, 4, 3, 2, 1, 0] [] []" using h(3) s1(2) by simp
  obtain h3 h4 where h': "take_free_e s1 = Some (8, s1\<lparr>links := h3\<rparr>)" "INIT_LIST_HEAD (Some (TaskKids 8)) h3 = Some h4"
      "e1_queues h4 [7, 6, 5, 4, 3, 2, 1, 0] [] []" "dll h4 (TaskKids 8) []"
    by (rule take_slot [OF q1])
  let ?f = "\<lambda>k. k\<lparr>PID_e := 1, quantum := 100, pending_unblocks := 0, state_e := ST_RUN, dir_pages_baseAddr_e := dir_page C 8\<rparr>"
  define s2 where "s2 = s1\<lparr>links := h4, tasks_e := (tasks_e s1)(8 := ?f (tasks_e s1 8))\<rparr>"
  define s3 where "s3 = set_user_pages C (get_PT_e 8 s2) s2"
  have more: "mm_state.more s3 = mm_state.more s2" by (simp add: s3_def set_user_pages_more)
  note m = machine_more [OF more] e1_more [OF machine_more(16) [OF more]]
  have "init_task1_e C s1 = Some (s3\<lparr>tss_esp0 := (8, 1024), msr_175 := (8, 1024), cr3 := dir_page C 8, task1 := Some 8\<rparr>)"
    using h'(1,2) m(17) by (simp add: init_task1_e_def Let_def upd_task_e_def set_quantum_e_def allocate_DIR_e_def
        KERNEL_STACK_SIZE_def DEFAULT_QUANTUM_e_def set_cr3_def s2_def [symmetric] s3_def [symmetric])
      (simp add: s2_def)
  then show ?thesis
    using i0(1) s1(1) s1(3-7) h'(3,4) m by (simp add: s0_def [symmetric] s2_def)
qed



text \<open>\<open>hex_convertor\<close> and reading hexadecimal digits are inverse: any array of at least nine
  characters gets the eight digits of the address and a terminating zero, and nothing after it
  changes.\<close>

theorem hex_roundtrip:
  assumes "9 \<le> length s"
  shows "\<exists>s'. hex_convertor address s = Some s' \<and> strlen s' = Some 8 \<and>
    read_hex (take 8 s') = unat address \<and> drop 9 s' = drop 9 s"
proof -
  have "unat address < 2 ^ 32" by (rule order.strict_trans2 [OF unsigned_less]) simp
  then obtain ds where ds: "hex_digits 8 address (s[8 := 0]) = Some (ds @ drop 8 (s[8 := 0]))" "length ds = 8"
      "read_hex ds = unat address" "0 \<notin> set ds"
    using hex_digits_spec [of 8 "s[8 := 0]" address] assms by auto
  have "drop 8 (s[8 := 0]) = 0 # drop 9 s" using assms by (simp add: Cons_nth_drop_Suc [symmetric])
  then show ?thesis
    using ds assms strlen_prefix [OF ds(4), of "drop 9 s"] by (simp add: hex_convertor_def store_def)
qed

theorem hex_roundtrip_witness:
  "\<exists>s'. hex_convertor 0x0014FFEC (replicate 16 7) = Some s' \<and> strlen s' = Some 8 \<and>
    read_hex (take 8 s') = 0x0014FFEC \<and> drop 9 s' = replicate 7 7"
  using hex_roundtrip [of "replicate 16 7" "0x0014FFEC"] by simp



text \<open>C20. \<open>sys_exit\<close> of E1_E2 by a process other than 1 without children, with another task ready:
  its data frames go back to the allocator and their entries are cleared, its slot goes to the end of
  the free queue, and the first ready task runs.\<close>

theorem exit_e_releases:
  assumes "e1_queues (links s) fs (t # rs) bs" and "esp s = (c, k + 7)" and "c \<notin> set fs \<union> set (t # rs) \<union> set bs"
    and "dll (links s) (TaskKids c) []" and "PID_e (tasks_e s c) \<noteq> 1" and "state_e (tasks_e s t) = ST_READY"
    and "kernel_esp (tasks_e s t) = Some (t, j)" and "frames_ok s" and "length gs = NUM_PAG_DATA"
    and "set gs \<subseteq> freeable" and "\<forall>i<NUM_PAG_DATA. get_frame (get_PT_e c s) (PAG_LOG_INIT_DATA C + i) s = of_nat (gs ! i)"
  shows "\<exists>s'. sys_exit_e C s = Some s' \<and> current_e s' = t \<and> e1_queues (links s') (fs @ [c]) rs bs \<and>
    avail s' = avail s \<union> set gs \<and> (\<forall>i<NUM_PAG_DATA. pt s' (get_PT_e c s) (PAG_LOG_INIT_DATA C + i) = 0) \<and>
    cr3 s' = dir_pages_baseAddr_e (tasks_e s t)"
proof -
  let ?P = "get_PT_e c s"
  define s1 where "s1 = release_data_pages C ?P NUM_PAG_DATA s"
  note r = release_data_pages_ok [OF assms(8,9,10,11), folded s1_def]
  have more: "mm_state.more s1 = mm_state.more s" by (rule r)
  note m = machine_more [OF more] e1_more [OF machine_more(16) [OF more]]
  obtain h where h: "list_add_tail (Some (TaskList c)) (Some Freequeue) (links s1) = Some h"
      "e1_queues h (fs @ [c]) (t # rs) bs"
    using e1_enq(1) [OF assms(1,3)] m(3) by auto
  have kids: "nxt (links s) (TaskKids c) = Some (TaskKids c)" using assms(4) by (simp add: dll_def)
  then have "list_for_each links (Some (TaskKids c)) adopt_kid s = Some (None, s)"
    by (simp add: list_for_each_def load_next_def list_for_each_from.simps)
  then have step: "sys_exit_e C s = sched_next_rr_e (s1\<lparr>links := h\<rparr>)"
    using assms(2,5) kids h(1) by (simp add: sys_exit_e_def list_first_def load_next_def current_e_def s1_def)
  have "e1_queues (links (s1\<lparr>links := h\<rparr>)) (fs @ [c]) (t # rs) bs" "state_e (tasks_e (s1\<lparr>links := h\<rparr>) t) = ST_READY"
    "kernel_esp (tasks_e (s1\<lparr>links := h\<rparr>) t) = Some (t, j)" "esp (s1\<lparr>links := h\<rparr>) = (c, k + 7)"
    using h(2) assms(2,6,7) m by simp_all
  from sched_next_rr_e_ready [OF this] obtain s' where s': "sched_next_rr_e (s1\<lparr>links := h\<rparr>) = Some s'"
      "e1_queues (links s') (fs @ [c]) rs bs" "esp s' = (t, j + 2)" "cr3 s' = dir_pages_baseAddr_e (tasks_e s1 t)"
      "phys_mem s' = phys_mem s1" "pt s' = pt s1"
    by auto
  then show ?thesis
    using step r(1) r(6) m(17) by (intro exI [of _ s']) (simp add: current_e_def avail_def)
qed

theorem exit_e_releases_witness:
  "\<exists>s'. sys_exit_e fork_cfg (e1_demo\<lparr>pt := (\<lambda>q p. user_entry (of_nat (2 * p)))\<rparr>) = Some s' \<and> current_e s' = 2 \<and>
    e1_queues (links s') [1] [] []"
proof -
  let ?s = "e1_demo\<lparr>pt := (\<lambda>q p. user_entry (of_nat (2 * p)))\<rparr>" and ?gs = "map (\<lambda>i. 2 * (256 + i)) [0..<NUM_PAG_DATA]"
  have b: "2 * (256 + i) < TOTAL_PAGES" if "i < NUM_PAG_DATA" for i using that by (simp add: mm_consts)
  have "get_frame q (256 + i) ?s = of_nat (2 * (256 + i))" if "i < NUM_PAG_DATA" for i q
    using take_bit_frame [OF b [OF that]] by (simp only: get_frame_def user_entry_fields) simp
  then have fr: "\<forall>i<NUM_PAG_DATA. get_frame (get_PT_e 1 ?s) (PAG_LOG_INIT_DATA fork_cfg + i) ?s = of_nat (?gs ! i)"
    by (simp add: fork_cfg_def del: of_nat_mult of_nat_add)
  have gs: "set ?gs \<subseteq> freeable" using b by (auto simp: freeable_def mm_consts)
  have q: "e1_queues (links ?s) [] (2 # []) []" using demo_queues by simp
  have "esp ?s = (1, 993 + 7)" "dll (links ?s) (TaskKids 1) []" "PID_e (tasks_e ?s 1) \<noteq> 1"
      "state_e (tasks_e ?s 2) = ST_READY" "kernel_esp (tasks_e ?s 2) = Some (2, 1005)" "frames_ok ?s"
    by (simp_all add: e1_demo_def demo_links_def dll_def frames_ok_def mm_consts)
  then show ?thesis
    using exit_e_releases [OF q _ _ _ _ _ _ _ _ gs fr, of 993 1005] by auto
qed

end
