(* ===== verification/User_E1.thy ===== *)
theory User_E1
  imports User_Spec E1_Calls
begin

text \<open>
  The E1_E2 kernel under its user program. The traps of the program are the two entry points of
  \<^verbatim>\<open>entry.S\<close>, the clock interrupts it while it counts, and it has the bytes of a buffer at the start of
  its data pages when it makes a call. The kernel keeps the contracts \<open>console_kernel\<close> and
  \<open>forking_kernel\<close> for process 1, so that the output of the tests in \<^verbatim>\<open>user.c\<close> is known to the last byte.
\<close>

section \<open>The kernel as the program sees it\<close>

fun e1_trap :: "e1cfg \<Rightarrow> gate \<Rightarrow> int \<Rightarrow> int \<times> Byte list \<times> int \<Rightarrow> e1 \<Rightarrow> (int \<times> e1) option" where
  "e1_trap C g n (a, b, c) s = do {
     s \<leftarrow> copy_out L_USER_START b s;
     s \<leftarrow> (case g of
         Int80 \<Rightarrow> system_call_handler_e C n (a, L_USER_START, c) s
       | Sysenter \<Rightarrow> syscall_handler_sysenter C n (a, L_USER_START, c) s);
     Some (eax s, s)
   }"

declare e1_trap.simps [simp del]

definition e1_sys :: "e1cfg \<Rightarrow> nat \<Rightarrow> e1 sys" where
  "e1_sys C ticks = \<lparr>trap = e1_trap C, spin = clock_handler_e C ^^ ticks\<rparr>"

text \<open>A process other than the idle task runs in user mode, with its first data page mapped.\<close>

definition e1_ok :: "e1 \<Rightarrow> bool" where
  "e1_ok s \<longleftrightarrow> fst (msr_175 s) = fst (tss_esp0 s) \<and> fst (esp s) = fst (tss_esp0 s) \<and>
     idle_task_e s \<noteq> Some (fst (tss_esp0 s)) \<and> translate s 256 \<noteq> None"

text \<open>Its next fork succeeds: a free slot, no children yet, and the frames and tables that a fork needs.\<close>

definition fork_ready :: "e1cfg \<Rightarrow> nat \<Rightarrow> e1 \<Rightarrow> bool" where
  "fork_ready C t s \<longleftrightarrow> (\<exists>c fs rs bs. e1_queues (links s) (c # fs) rs bs \<and> dll (links s) (TaskKids t) [] \<and> c \<noteq> t \<and>
     forkable C (get_PT_e t s) (pte_pbase_addr (pt s (dir_page C c) 0)) s \<and> NUM_PAG_DATA \<le> card (avail s) \<and>
     get_DIR_e t s = cr3 s \<and> 0 < PID_counter s \<and> pte_pbase_addr (pt s (dir_page C c) 0) \<noteq> dir_page C c)"

definition e1_view :: "e1cfg \<Rightarrow> e1 \<Rightarrow> kview" where
  "e1_view C s = \<lparr>v_out = port_e9 (scr s), v_pid = PID_e (tasks_e s (fst (tss_esp0 s))),
     v_time = zeos_ticks_e s, v_fork = fork_ready C (fst (tss_esp0 s)) s\<rparr>"

text \<open>What neither the traps but fork nor the clock change.\<close>

definition same_tables :: "e1 \<Rightarrow> e1 \<Rightarrow> bool" where
  "same_tables s s' \<longleftrightarrow> phys_mem s' = phys_mem s \<and> pt s' = pt s \<and> cr3 s' = cr3 s \<and> links s' = links s \<and>
     tasks_e s' = tasks_e s \<and> PID_counter s' = PID_counter s \<and> idle_task_e s' = idle_task_e s \<and>
     tss_esp0 s' = tss_esp0 s \<and> msr_175 s' = msr_175 s"

lemma same_tables_view:
  assumes "same_tables s s'"
  shows "fork_ready C t s' = fork_ready C t s" and "translate s' = translate s"
    and "v_pid (e1_view C s') = v_pid (e1_view C s)" and "v_fork (e1_view C s') = v_fork (e1_view C s)"
proof -
  show f: "fork_ready C t s' = fork_ready C t s" for t
    using assms by (simp add: fork_ready_def same_tables_def forkable_def frames_ok_def avail_def get_PT_e_def get_DIR_e_def)
  show "translate s' = translate s" using assms by (simp add: same_tables_def translate_def fun_eq_iff)
  show "v_pid (e1_view C s') = v_pid (e1_view C s)" "v_fork (e1_view C s') = v_fork (e1_view C s)"
    using assms f by (simp_all add: e1_view_def same_tables_def)
qed

lemma same_tables_out:
  assumes "same_tables s s'" and "e1_ok s" and "fst (esp s') = fst (tss_esp0 s')" and "zeos_ticks_e s' = zeos_ticks_e s"
    and "port_e9 (scr s') = port_e9 (scr s) @ w"
  shows "e1_ok s' \<and> e1_view C s' = add_out w (e1_view C s)"
proof -
  have "e1_ok s'" using assms(1-3) same_tables_view(2) [OF assms(1)] by (auto simp: e1_ok_def same_tables_def)
  moreover have "e1_view C s' = add_out w (e1_view C s)"
    using same_tables_view(3,4) [OF assms(1), of C] assms(4,5) by (simp add: e1_view_def add_out_def)
  ultimately show ?thesis ..
qed

section \<open>The contract holds\<close>

lemma copy_out_page:
  assumes "translate s 256 = Some f" and "length b \<le> 256"
  obtains s' where "copy_out L_USER_START b s = Some s'" and "s' = s\<lparr>fmem := fmem s'\<rparr>"
    and "readable L_USER_START (length b) s'" and "out_bytes (lin s') L_USER_START (length b) = b"
proof -
  have a: "unat (L_USER_START + of_nat i) = i + 256 * PAGE_SIZE" if "i < length b" for i
    using that assms(2)
    by (simp add: L_USER_START_def PAGE_SIZE_def unat_word_ariths unsigned_of_nat take_bit_nat_eq_self)
  have p: "unat (L_USER_START + of_nat i) div PAGE_SIZE = 256" "unat (L_USER_START + of_nat i) mod PAGE_SIZE = i"
    if "i < length b" for i
  proof -
    have "i < PAGE_SIZE" using that assms(2) by (simp add: PAGE_SIZE_def)
    then show "unat (L_USER_START + of_nat i) div PAGE_SIZE = 256" "unat (L_USER_START + of_nat i) mod PAGE_SIZE = i"
      by (simp_all add: a [OF that])
  qed
  have "translate s (unat (L_USER_START + of_nat i) div PAGE_SIZE) = Some f" if "i < length b" for i
    using p(1) [OF that] assms(1) by simp
  moreover have "inj_on (\<lambda>i. (f, unat (L_USER_START + of_nat i) mod PAGE_SIZE)) {..<length b}"
    using p(2) by (auto simp: inj_on_def)
  ultimately obtain s' where s': "copy_out L_USER_START b s = Some s'" "s' = s\<lparr>fmem := fmem s'\<rparr>"
      "\<forall>i<length b. fmem s' f (unat (L_USER_START + of_nat i) mod PAGE_SIZE) = b ! i"
    using copy_out_writes [of b s L_USER_START "\<lambda>_. f"] by blast
  have tr: "translate s' = translate s" by (subst s'(2)) (simp add: translate_def fun_eq_iff)
  have "readable L_USER_START (length b) s'" using p(1) assms(1) by (simp add: readable_def list_all_iff tr)
  moreover have "out_bytes (lin s') L_USER_START (length b) = b"
    using p s'(3) assms(1) by (auto simp: out_bytes_def lin_def tr intro: nth_equalityI)
  ultimately show ?thesis using s'(1,2) by (intro that [of s'])
qed

text \<open>Both entry points dispatch on the kernel stack of the process.\<close>

lemma e1_trap_dispatch:
  assumes "e1_ok s" and "length b \<le> 256"
  obtains s' where "same_tables s s'" and "fst (esp s') = fst (tss_esp0 s)" and "scr s' = scr s"
    and "zeos_ticks_e s' = zeos_ticks_e s"
    and "readable L_USER_START (length b) s'" and "out_bytes (lin s') L_USER_START (length b) = b"
    and "\<And>n a c. e1_trap C g n (a, b, c) s = do {
      s \<leftarrow> dispatch_e C n (a, L_USER_START, c) s';
      Some (eax s, s) }"
proof -
  obtain f where "translate s 256 = Some f" using assms(1) by (auto simp: e1_ok_def)
  then obtain s1 where s1: "copy_out L_USER_START b s = Some s1" "s1 = s\<lparr>fmem := fmem s1\<rparr>"
      "readable L_USER_START (length b) s1" "out_bytes (lin s1) L_USER_START (length b) = b"
    by (rule copy_out_page [OF _ assms(2)])
  define s' where "s' = s1\<lparr>esp := (case g of Int80 \<Rightarrow> (fst (tss_esp0 s1), snd (tss_esp0 s1) - 16)
    | Sysenter \<Rightarrow> (fst (msr_175 s1), snd (msr_175 s1) - 16)), eip := CodeAddr ''kernel''\<rparr>"
  have tr: "translate s' = translate s1" "lin s' = lin s1"
    by (simp_all add: s'_def lin_def translate_def fun_eq_iff split: option.split)
  have f: "phys_mem s1 = phys_mem s" "pt s1 = pt s" "cr3 s1 = cr3 s" "links s1 = links s" "tasks_e s1 = tasks_e s"
    "PID_counter s1 = PID_counter s" "idle_task_e s1 = idle_task_e s" "tss_esp0 s1 = tss_esp0 s" "msr_175 s1 = msr_175 s"
    "scr s1 = scr s" "zeos_ticks_e s1 = zeos_ticks_e s"
    by (subst s1(2), simp)+
  show ?thesis
  proof (rule that [of s'])
    show "same_tables s s'" using f by (simp add: same_tables_def s'_def)
    show "fst (esp s') = fst (tss_esp0 s)" using f assms(1) by (cases g) (simp_all add: s'_def e1_ok_def)
    show "scr s' = scr s" "zeos_ticks_e s' = zeos_ticks_e s" using f by (simp_all add: s'_def)
    show "readable L_USER_START (length b) s'" "out_bytes (lin s') L_USER_START (length b) = b"
      using s1(3,4) tr by (simp_all add: readable_def)
    show "e1_trap C g n (a, b, c) s = do { s \<leftarrow> dispatch_e C n (a, L_USER_START, c) s'; Some (eax s, s) }" for n a c
      using s1(1) by (cases g) (simp_all add: e1_trap.simps s'_def system_call_handler_e_def syscall_handler_sysenter_def)
  qed
qed

lemma e1_table:
  "dispatch_e C 4 (a, b, c) s = give (sys_write_e a b c s)" "dispatch_e C 10 (a, b, c) s = give (Some (sys_gettime_e s, s))"
  "dispatch_e C 20 (a, b, c) s = give (Some (sys_getpid_e s, s))"
  "dispatch_e C 2 (a, b, c) s = do {
     (v, s) \<leftarrow> sys_fork_e C (push (CodeAddr ''system_call_handler'') s);
     give (Some (v, drop_words 1 s)) }"
  by (simp_all add: dispatch_e_def MAX_SYSCALL_e_def sys_call_table_e_def)

text \<open>A service that leaves the tables alone and prints \<open>w\<close>.\<close>

lemma e1_trap_out:
  assumes "e1_ok s" and "same_tables s s1" and "fst (esp s1) = fst (tss_esp0 s)" and "scr s1 = scr s"
    and "zeos_ticks_e s1 = zeos_ticks_e s" and "port_e9 sc = port_e9 (scr s) @ w"
  shows "yields (give (Some (v, s1\<lparr>scr := sc\<rparr>)) \<bind> (\<lambda>s. Some (eax s, s)))
    (\<lambda>(r, s'). r = v \<and> e1_ok s' \<and> e1_view C s' = add_out w (e1_view C s))"
proof -
  let ?s = "drop_words 16 (s1\<lparr>scr := sc, eax := v\<rparr>)"
  have "same_tables s ?s" using assms(2) by (simp add: same_tables_def drop_words_def)
  then have "e1_ok ?s \<and> e1_view C ?s = add_out w (e1_view C s)"
    by (rule same_tables_out [OF _ assms(1)]) (use assms in \<open>simp_all add: same_tables_def drop_words_def\<close>)
  then show ?thesis by (simp add: give_def) (simp add: drop_words_def)
qed

lemma e1_write:
  assumes "e1_ok s" and "0 \<le> n" and "nat n \<le> length b" and "length b \<le> 256"
  shows "yields (e1_trap C g 4 (1, b, n) s)
    (\<lambda>(r, s'). r = n \<and> e1_ok s' \<and> e1_view C s' = add_out (take (nat n) b) (e1_view C s))"
proof (rule e1_trap_dispatch [OF assms(1,4), of C g])
  fix s1
  assume s1: "same_tables s s1" "fst (esp s1) = fst (tss_esp0 s)" "scr s1 = scr s" "zeos_ticks_e s1 = zeos_ticks_e s"
    "readable L_USER_START (length b) s1" "out_bytes (lin s1) L_USER_START (length b) = b"
    and t: "\<And>n a c. e1_trap C g n (a, b, c) s = do { s \<leftarrow> dispatch_e C n (a, L_USER_START, c) s1; Some (eax s, s) }"
  let ?w = "out_bytes (lin s1) L_USER_START (nat n)"
  have l: "length b = nat n + (length b - nat n)" using assms(3) by simp
  have w: "?w = take (nat n) b"
    using out_bytes_split [of "lin s1" L_USER_START "nat n" "length b - nat n"] s1(6) l
    by (metis append_eq_conv_conj length_out_bytes)
  have r: "readable L_USER_START (nat n) s1" using s1(5) l readable_add by metis
  have "(nat n - 1) div 256 = 0" using assms(3,4) by simp
  then have "sys_write_e 1 L_USER_START n s1 = Some (n, s1\<lparr>scr := fold printc ?w (scr s1)\<rparr>)"
    using sys_write_e_readable [OF r] assms(2) by (simp add: L_USER_START_def out_bytes_def)
  moreover have "port_e9 (fold printc cs sc) = port_e9 sc @ cs" for cs sc
    by (induction cs arbitrary: sc) simp_all
  ultimately show ?thesis
    using e1_trap_out [OF assms(1) s1(1-4), of "fold printc ?w (scr s1)"] s1(3) unfolding t e1_table w by simp
qed

lemma e1_other_calls:
  assumes "e1_ok s"
  shows "fd \<noteq> 1 \<Longrightarrow> length b \<le> 256 \<Longrightarrow> yields (e1_trap C g 4 (fd, b, n) s)
      (\<lambda>(r, s'). r = - EBADF \<and> e1_ok s' \<and> e1_view C s' = e1_view C s)"
    and "yields (e1_trap C g 10 (0, [], 0) s) (\<lambda>(r, s'). r = v_time (e1_view C s) \<and> e1_ok s' \<and> e1_view C s' = e1_view C s)"
    and "yields (e1_trap C g 20 (0, [], 0) s) (\<lambda>(r, s'). r = v_pid (e1_view C s) \<and> e1_ok s' \<and> e1_view C s' = e1_view C s)"
proof -
  have quiet: "yields (e1_trap C g n (a, b, c) s) (\<lambda>(r, s'). r = v \<and> e1_ok s' \<and> e1_view C s' = e1_view C s)"
    if "length b \<le> 256" "\<And>s1. same_tables s s1 \<Longrightarrow> fst (esp s1) = fst (tss_esp0 s) \<Longrightarrow> zeos_ticks_e s1 = zeos_ticks_e s \<Longrightarrow>
      dispatch_e C n (a, L_USER_START, c) s1 = give (Some (v, s1))" for n a b c v
  proof (rule e1_trap_dispatch [OF assms that(1), of C g])
    fix s1
    assume s1: "same_tables s s1" "fst (esp s1) = fst (tss_esp0 s)" "scr s1 = scr s" "zeos_ticks_e s1 = zeos_ticks_e s"
      and t: "\<And>n a c. e1_trap C g n (a, b, c) s = do { s \<leftarrow> dispatch_e C n (a, L_USER_START, c) s1; Some (eax s, s) }"
    have "port_e9 (scr s1) = port_e9 (scr s) @ []" using s1(3) by simp
    from e1_trap_out [OF assms s1 this, of v C] show ?thesis unfolding t that(2) [OF s1(1,2,4)] by simp
  qed
  show "yields (e1_trap C g 4 (fd, b, n) s) (\<lambda>(r, s'). r = - EBADF \<and> e1_ok s' \<and> e1_view C s' = e1_view C s)"
    if "fd \<noteq> 1" "length b \<le> 256"
    by (rule quiet [OF that(2)]) (simp add: e1_table that(1) sys_write_e_def check_fd_e_def EBADF_def)
  show "yields (e1_trap C g 10 (0, [], 0) s) (\<lambda>(r, s'). r = v_time (e1_view C s) \<and> e1_ok s' \<and> e1_view C s' = e1_view C s)"
    by (rule quiet) (simp_all add: e1_table sys_gettime_e_def e1_view_def)
  show "yields (e1_trap C g 20 (0, [], 0) s) (\<lambda>(r, s'). r = v_pid (e1_view C s) \<and> e1_ok s' \<and> e1_view C s' = e1_view C s)"
    by (rule quiet) (simp_all add: e1_table sys_getpid_e_def current_e_def e1_view_def same_tables_def)
qed

lemma e1_fork:
  assumes "e1_ok s" and "fork_ready C (fst (tss_esp0 s)) s"
  shows "yields (e1_trap C g 2 (0, [], 0) s)
    (\<lambda>(r, s'). 0 < r \<and> e1_ok s' \<and> (\<exists>f. e1_view C s' = (e1_view C s)\<lparr>v_fork := f\<rparr>))"
proof (rule e1_trap_dispatch [OF assms(1), of "[]" C g])
  fix s1
  assume s1: "same_tables s s1" "fst (esp s1) = fst (tss_esp0 s)" "scr s1 = scr s" "zeos_ticks_e s1 = zeos_ticks_e s"
    and t: "\<And>n a c. e1_trap C g n (a, [], c) s = do { s \<leftarrow> dispatch_e C n (a, L_USER_START, c) s1; Some (eax s, s) }"
  let ?t = "fst (tss_esp0 s)"
  define s2 where "s2 = push (CodeAddr ''system_call_handler'') s1"
  have s2: "same_tables s s2" "current_e s2 = ?t" "scr s2 = scr s" "zeos_ticks_e s2 = zeos_ticks_e s"
    using s1 by (auto simp: s2_def push_def set_stack_def same_tables_def current_e_def split: prod.split)
  obtain c fs rs bs where r: "e1_queues (links s2) (c # fs) rs bs" "dll (links s2) (TaskKids (current_e s2)) []"
      "c \<noteq> current_e s2" "forkable C (get_PT_e (current_e s2) s2) (pte_pbase_addr (pt s2 (dir_page C c) 0)) s2"
      "NUM_PAG_DATA \<le> card (avail s2)" "get_DIR_e (current_e s2) s2 = cr3 s2" "0 < PID_counter s2"
      "pte_pbase_addr (pt s2 (dir_page C c) 0) \<noteq> dir_page C c"
    using assms(2) same_tables_view(1) [OF s2(1), of C ?t] unfolding s2(2) fork_ready_def by blast
  have "0 \<le> PID_counter s2" using r(7) by simp
  from fork_e_result [OF r(1-5) refl r(6) this r(8)] obtain s3 where s3: "sys_fork_e C s2 = Some (PID_counter s2, s3)"
      "tasks_e s3 (current_e s2) = tasks_e s2 (current_e s2)" "pt s3 (cr3 s2) 0 = pt s2 (cr3 s2) 0"
      "\<forall>p\<in>{256..<276}. pt s3 (get_PT_e (current_e s2) s2) p = pt s2 (get_PT_e (current_e s2) s2) p"
    and eq: "s3 = s2\<lparr>phys_mem := phys_mem s3, pt := pt s3, fmem := fmem s3, links := links s3, stacks := stacks s3,
      tasks_e := tasks_e s3, PID_counter := PID_counter s3\<rparr>"
    by (elim exE conjE)
  have f: "cr3 s3 = cr3 s2" "tss_esp0 s3 = tss_esp0 s2" "msr_175 s3 = msr_175 s2" "esp s3 = esp s2" "scr s3 = scr s2"
    "zeos_ticks_e s3 = zeos_ticks_e s2" "idle_task_e s3 = idle_task_e s2"
    by (subst eq, simp)+
  have P: "pte_pbase_addr (pt s2 (cr3 s2) 0) = get_PT_e (current_e s2) s2" using r(4) by (simp add: forkable_def)
  have tr: "translate s3 256 = translate s 256"
    using s3(3,4) f(1) P s2(1) by (simp add: translate_def Let_def same_tables_def)
  let ?s = "drop_words 16 ((drop_words 1 s3)\<lparr>eax := PID_counter s2\<rparr>)"
  have "e1_ok ?s" using assms(1) s2(1,2) f tr
    by (auto simp: e1_ok_def same_tables_def drop_words_def current_e_def translate_def)
  moreover have "e1_view C ?s = (e1_view C s)\<lparr>v_fork := v_fork (e1_view C ?s)\<rparr>"
    using s2 s3(2) f by (simp add: e1_view_def same_tables_def drop_words_def)
  ultimately show ?thesis
    using r(7) s3(1) unfolding t e1_table s2_def [symmetric] by (auto simp: give_def drop_words_def)
qed simp

lemma clock_ticks_view_e:
  assumes "clock_appends (show_clock_e C)" and "e1_ok s" and "0 \<le> zeos_ticks_e s" and "zeos_ticks_e s + int n < 2 ^ 31"
  shows "e1_ok ((clock_handler_e C ^^ n) s) \<and> (\<exists>w. e1_view C ((clock_handler_e C ^^ n) s) =
    (add_out w (e1_view C s))\<lparr>v_time := zeos_ticks_e s + int n\<rparr>)"
  using assms(2-4)
proof (induction n arbitrary: s)
  case 0
  then show ?case by (auto simp: e1_view_def add_out_def)
next
  case (Suc n)
  let ?s = "clock_handler_e C s" and ?r = "(clock_handler_e C s)\<lparr>zeos_ticks_e := zeos_ticks_e s\<rparr>"
  obtain w where w: "port_e9 (show_clock_e C (scr s)) = port_e9 (scr s) @ w"
    using assms(1) by (auto simp: clock_appends_def)
  have s: "same_tables s ?s" "fst (esp ?s) = fst (tss_esp0 ?s)" "zeos_ticks_e ?s = zeos_ticks_e s + 1"
    "scr ?s = show_clock_e C (scr s)"
    using Suc.prems by (auto simp: clock_handler_e_def enter_interrupt_e_def leave_interrupt_e_def
        clock_routine_e_def in_idle_e_def current_e_def drop_words_def e1_ok_def same_tables_def)
  have "same_tables s ?r" using s(1) by (simp add: same_tables_def)
  then have "e1_ok ?r \<and> e1_view C ?r = add_out w (e1_view C s)"
    by (rule same_tables_out [OF _ Suc.prems(1)]) (use s w in simp_all)
  moreover have "e1_ok ?r = e1_ok ?s" by (simp add: e1_ok_def translate_def)
  moreover have "e1_view C ?s = (e1_view C ?r)\<lparr>v_time := zeos_ticks_e s + 1\<rparr>"
    using s(3) same_tables_view(4) [OF s(1), of C] same_tables_view(4) [OF \<open>same_tables s ?r\<close>, of C] by (simp add: e1_view_def)
  ultimately have "e1_ok ?s" "e1_view C ?s = (add_out w (e1_view C s))\<lparr>v_time := zeos_ticks_e s + 1\<rparr>" by simp_all
  then show ?case using Suc.IH [of ?s] Suc.prems s(3) by (fastforce simp: funpow_swap1 add_ac)
qed

locale e1_program =
  fixes C :: e1cfg and ticks :: nat
  assumes appends: "clock_appends (show_clock_e C)"

sublocale e1_program \<subseteq> eu: forking_kernel "e1_sys C ticks" e1_ok "e1_view C" "int ticks"
proof
  fix k g b n fd
  show "yields (trap (e1_sys C ticks) g 4 (1, b, n) k)
      (\<lambda>(r, k'). r = n \<and> e1_ok k' \<and> e1_view C k' = add_out (take (nat n) b) (e1_view C k))"
    if "e1_ok k" "0 \<le> n" "nat n \<le> length b" "length b \<le> 256"
    using e1_write [OF that] by (simp add: e1_sys_def)
  show "yields (trap (e1_sys C ticks) g 4 (fd, b, n) k) (\<lambda>(r, k'). r = - EBADF \<and> e1_ok k' \<and> e1_view C k' = e1_view C k)"
    if "e1_ok k" "fd \<noteq> 1" "length b \<le> 256"
    using e1_other_calls(1) [OF that] by (simp add: e1_sys_def)
  show "yields (trap (e1_sys C ticks) g 10 (0, [], 0) k)
      (\<lambda>(r, k'). r = v_time (e1_view C k) \<and> e1_ok k' \<and> e1_view C k' = e1_view C k)" if "e1_ok k"
    using e1_other_calls(2) [OF that] by (simp add: e1_sys_def)
  show "yields (trap (e1_sys C ticks) g 20 (0, [], 0) k)
      (\<lambda>(r, k'). r = v_pid (e1_view C k) \<and> e1_ok k' \<and> e1_view C k' = e1_view C k)" if "e1_ok k"
    using e1_other_calls(3) [OF that] by (simp add: e1_sys_def)
  show "e1_ok (spin (e1_sys C ticks) k) \<and> (\<exists>w. e1_view C (spin (e1_sys C ticks) k) =
      (add_out w (e1_view C k))\<lparr>v_time := v_time (e1_view C k) + int ticks\<rparr>)"
    if "e1_ok k" "0 \<le> v_time (e1_view C k)" "v_time (e1_view C k) + int ticks < 2 ^ 31"
    using clock_ticks_view_e [OF appends that(1), of ticks] that(2,3) by (simp add: e1_sys_def e1_view_def)
  show "yields (trap (e1_sys C ticks) g 2 (0, [], 0) k)
      (\<lambda>(r, k'). 0 < r \<and> e1_ok k' \<and> (\<exists>f. e1_view C k' = (e1_view C k)\<lparr>v_fork := f\<rparr>))"
    if "e1_ok k" "v_fork (e1_view C k)"
    using e1_fork [OF that(1), of C g] that(2) by (simp add: e1_sys_def e1_view_def)
qed simp

context e1_program
begin

lemma program_out:
  assumes "e1_ok s" and "v_pid (e1_view C s) = 1" and "v_fork (e1_view C s)" and "0 \<le> v_time (e1_view C s)"
    and "v_time (e1_view C s) + int ticks < 2 ^ 31"
  shows "yields (user_main_e (e1_sys C ticks) m \<lparr>kern = s, errno = e, pid = p, lits = fresh, buff_e = b\<rparr>)
    (\<lambda>u. \<exists>w. v_out (e1_view C (kern u)) = v_out (e1_view C s) @ w @ test_report (int ticks))"
  using eu.user_main_e_out [of "\<lparr>kern = s, errno = e, pid = p, lits = fresh, buff_e = b\<rparr>" m] assms by simp

end

interpretation ep: e1_program fork_cfg ticks for ticks
  by unfold_locales (simp add: clock_appends_def fork_cfg_def)

section \<open>Properties\<close>

definition user_demo :: e1 where
  "user_demo = fork_demo\<lparr>tasks_e := (tasks_e fork_demo)(1 := (tasks_e fork_demo 1)\<lparr>PID_e := 1\<rparr>)\<rparr>"

lemma user_demo_ready: "e1_ok user_demo" "fork_ready fork_cfg 1 user_demo"
proof -
  have d: "dir_page fork_cfg 3 = 12" by (simp add: dir_page_def fork_cfg_def)
  have f: "get_PT_e 1 user_demo = 20" "get_DIR_e 1 user_demo = cr3 user_demo" "pte_pbase_addr (pt user_demo 12 0) = 22"
      "PID_counter user_demo = 7" "links user_demo = links fork_demo"
    by (simp_all add: user_demo_def fork_demo_def e1_demo_def get_PT_e_def get_DIR_e_def)
  have a: "avail user_demo = avail fork_demo" "forkable fork_cfg 20 22 user_demo"
    using fork_demo_forkable by (simp_all add: user_demo_def avail_def forkable_def frames_ok_def)
  have "NUM_PAG_DATA \<le> card (avail user_demo)"
    unfolding a fork_demo_avail card_even_frames by (simp add: NUM_PAG_DATA_def)
  then show "fork_ready fork_cfg 1 user_demo"
    unfolding fork_ready_def by (intro exI [of _ 3] exI [of _ "[]"] exI [of _ "[2]"]) (use fork_demo_queues f a d in auto)
  show "e1_ok user_demo"
    by (simp add: e1_ok_def user_demo_def translate_def Let_def fork_demo_def e1_demo_def)
qed



end
