(* ===== verification/Root_Kernel.thy ===== *)
theory Root_Kernel
  imports Zeos_User Zeos_Kbd Zeos_Libc
begin

text \<open>
  The kernel at the root of the repository, \<^verbatim>\<open>src/zeos\<close>: dynamic frames for page directories,
  page tables and task unions (\<^verbatim>\<open>mm.c\<close>, \<^verbatim>\<open>sched.c\<close>), the system calls of \<^verbatim>\<open>sys.c\<close>, the interrupt
  routines of \<^verbatim>\<open>interrupt.c\<close>, the entry points of \<^verbatim>\<open>entry.S\<close> and the boot sequence of \<^verbatim>\<open>system.c\<close>.
  A task union is the frame that holds it, so the slots of the machine state are frame numbers here.
  Names the other kernels use too carry the suffix \<open>_z\<close>.
\<close>

section \<open>State\<close>

record task_struct_z =
  PID_z :: int
  dir_pages_baseAddr_z :: DWord
  state_z :: state_t
  kernel_esp_z :: "(nat \<times> nat) option"

record zeos = machine +
  first_kernel :: nat
  last_kernel :: nat
  tasks_z :: "nat \<Rightarrow> task_struct_z"
  init_task :: "nat option"
  idle_task_z :: "nat option"
  zeos_ticks_z :: int

record zcfg =
  sys_size :: DWord                  \<comment> \<open>\<open>*p_sys_size\<close>, left by the loader\<close>
  usr_size :: DWord
  show_PT_range :: "(nat \<Rightarrow> page_table_entry) \<Rightarrow> nat \<Rightarrow> nat \<Rightarrow> Byte list \<Rightarrow> screen \<Rightarrow> screen"
  show_clock_z :: "screen \<Rightarrow> screen"  \<comment> \<open>both of \<^verbatim>\<open>libzeos.a\<close>\<close>
  after_char_map_z :: "nat \<Rightarrow> Byte"

definition upd_task_z :: "nat \<Rightarrow> (task_struct_z \<Rightarrow> task_struct_z) \<Rightarrow> zeos \<Rightarrow> zeos" where
  "upd_task_z t f s = s\<lparr>tasks_z := (tasks_z s)(t := f (tasks_z s t))\<rparr>"

section \<open>Frames\<close>

definition init_frames_z :: "zeos \<Rightarrow> int \<times> zeos" where
  "init_frames_z s =
     (let pm = fold (\<lambda>i pm. pm[i := FREE_FRAME]) [0..<TOTAL_PAGES] (phys_mem s);
          pm = fold (\<lambda>i pm. pm[i := USED_FRAME]) [first_kernel s..<last_kernel s] pm;
          pm = pm[0x90 := USED_FRAME];
          pm = pm[0xb8 := USED_FRAME]
      in (0, s\<lparr>phys_mem := pm\<rparr>))"

fun alloc_frame_at :: "nat list \<Rightarrow> zeos \<Rightarrow> int \<times> zeos" where
  "alloc_frame_at [] s = (-1, s)"
| "alloc_frame_at (i # is) s =
     (if phys_mem s ! i = FREE_FRAME then (int i, s\<lparr>phys_mem := (phys_mem s)[i := USED_FRAME]\<rparr>)
      else alloc_frame_at is s)"

definition alloc_frame_z :: "zeos \<Rightarrow> int \<times> zeos" where
  "alloc_frame_z s = alloc_frame_at [last_kernel s..<TOTAL_PAGES] s"

definition free_frame_z :: "DWord \<Rightarrow> zeos \<Rightarrow> zeos" where
  "free_frame_z frame s =
     (if unat frame < TOTAL_PAGES then s\<lparr>phys_mem := (phys_mem s)[unat frame := FREE_FRAME]\<rparr> else s)"

section \<open>Page tables\<close>

definition clear_page_table :: "DWord \<Rightarrow> zeos \<Rightarrow> zeos" where
  "clear_page_table PT s = fold (\<lambda>i. set_pte PT i 0) [0..<TOTAL_PAGES] s"

definition set_ss_pag_z :: "DWord \<Rightarrow> nat \<Rightarrow> DWord \<Rightarrow> DWord \<Rightarrow> zeos \<Rightarrow> zeos" where
  "set_ss_pag_z PT page frame usr s =
     set_pte PT page (set_present 1 (set_rw 1 (set_user usr (set_pbase_addr frame 0)))) s"

definition set_code_page :: "DWord \<Rightarrow> nat \<Rightarrow> zeos \<Rightarrow> zeos" where
  "set_code_page PT pag s =
     (let (new_ph_pag, s) = alloc_frame_z s
      in set_pte PT (NUM_PAG_DATA + pag) (set_present 1 (set_user 1 (set_pbase_addr (word_of_int new_ph_pag) 0))) s)"

definition set_data_page :: "DWord \<Rightarrow> nat \<Rightarrow> zeos \<Rightarrow> zeos" where
  "set_data_page PT pag s =
     (let (new_ph_pag, s) = alloc_frame_z s
      in set_pte PT pag (set_present 1 (set_rw 1 (set_user 1 (set_pbase_addr (word_of_int new_ph_pag) 0)))) s)"

definition set_user_pages_z :: "zcfg \<Rightarrow> DWord \<Rightarrow> zeos \<Rightarrow> zeos" where
  "set_user_pages_z C PT s =
     (let s = fold (set_code_page PT) [0..<NUM_PAG_CODE] s;
          s = fold (set_data_page PT) [0..<NUM_PAG_DATA] s
      in s\<lparr>scr := show_PT_range C (pt s PT) 0 (NUM_PAG_DATA + NUM_PAG_CODE)
             (str '' Reserved for User memory'' @ [10]) (scr s)\<rparr>)"

definition set_kernel_pages :: "zcfg \<Rightarrow> DWord \<Rightarrow> zeos \<Rightarrow> zeos" where
  "set_kernel_pages C PT s =
     (let s = fold (\<lambda>i. set_ss_pag_z PT i (of_nat i) 0) [first_kernel s..<last_kernel s] s;
          s = set_ss_pag_z PT 0x90 0x90 0 s;
          s = set_ss_pag_z PT 0xb8 0xb8 0 s;
          s = s\<lparr>scr := printk [10] (scr s)\<rparr>;
          s = s\<lparr>scr := show_PT_range C (pt s PT) (first_kernel s) (last_kernel s - first_kernel s + 1)
                 (str '' Reserved for kernel memory'' @ [10]) (scr s)\<rparr>;
          s = s\<lparr>scr := show_PT_range C (pt s PT) 0x90 1 (str '' Reserved for GDT'' @ [10]) (scr s)\<rparr>
      in s\<lparr>scr := show_PT_range C (pt s PT) 0xb8 1 (str '' Reserved for Screen buffer'' @ [10]) (scr s)\<rparr>)"

text \<open>
  \<open>process_PT[i]\<close> for an index past the 1024 entries of a table lies in the following page, and
  \<open>free_user_pages\<close> uses such indices: it adds the logical page number.
\<close>

definition table_page :: "DWord \<Rightarrow> nat \<Rightarrow> DWord" where
  "table_page PT i = PT + of_nat (i div TOTAL_PAGES)"

definition free_user_pages_z :: "DWord \<Rightarrow> zeos \<Rightarrow> zeos" where
  "free_user_pages_z PT s =
     fold (\<lambda>pag s.
       let i = PAG_LOG_INIT_DATA_z + pag;
           s = free_frame_z (pte_pbase_addr (pt s (table_page PT i) (i mod TOTAL_PAGES))) s
       in set_pte (table_page PT i) (i mod TOTAL_PAGES) 0 s) [0..<NUM_PAG_DATA] s"

definition init_mm_z :: "zcfg \<Rightarrow> zeos \<Rightarrow> zeos" where
  "init_mm_z C s =
     (let s = s\<lparr>first_kernel := unat (drop_bit 12 KERNEL_START)\<rparr>;
          s = s\<lparr>last_kernel := unat (drop_bit 12 (KERNEL_START + sys_size C + usr_size C)) + 1\<rparr>
      in snd (init_frames_z s))"

section \<open>Tasks\<close>

definition get_DIR_z :: "nat \<Rightarrow> zeos \<Rightarrow> DWord" where
  "get_DIR_z t s = dir_pages_baseAddr_z (tasks_z s t)"

definition get_PT_z :: "nat \<Rightarrow> zeos \<Rightarrow> DWord" where
  "get_PT_z t s = pte_pbase_addr (pt s (dir_pages_baseAddr_z (tasks_z s t)) 0)"

text \<open>The frame number of an \<open>int\<close> result, shifted to an address and back.\<close>

definition frame_no :: "int \<Rightarrow> DWord" where
  "frame_no f = drop_bit 12 (push_bit 12 (word_of_int f))"

definition init_idle_z :: "zeos \<Rightarrow> zeos option" where
  "init_idle_z s = do {
     let (dir_frame, s) = alloc_frame_z s;
     let (pcb_frame, s) = alloc_frame_z s;
     let dir = frame_no dir_frame;
     let task = unat (frame_no pcb_frame);
     init \<leftarrow> init_task s;
     let init_spt = get_PT_z init s;
     let s = clear_page_table dir s;
     let s = set_pte dir 0 (pt s (dir_pages_baseAddr_z (tasks_z s init)) 0) s;
     let s = set_ss_pag_z init_spt (unat dir) dir 0 s;
     let s = set_ss_pag_z init_spt task (of_nat task) 0 s;
     let s = upd_task_z task (PID_z_update (\<lambda>_. 0)) s;
     let s = upd_task_z task (dir_pages_baseAddr_z_update (\<lambda>_. dir)) s;
     let s = upd_task_z task (state_z_update (\<lambda>_. ST_READY)) s;
     h \<leftarrow> INIT_LIST_HEAD (Some (TaskList task)) (links s);
     let s = s\<lparr>links := h\<rparr>;
     let s = set_stack task (KERNEL_STACK_SIZE - 2) (Num 0) s;
     let s = set_stack task (KERNEL_STACK_SIZE - 1) (CodeAddr ''cpu_idle'') s;
     let s = upd_task_z task (kernel_esp_z_update (\<lambda>_. Some (task, KERNEL_STACK_SIZE - 2))) s;
     Some (s\<lparr>idle_task_z := Some task\<rparr>)
   }"

definition init_task1_z :: "zcfg \<Rightarrow> zeos \<Rightarrow> zeos option" where
  "init_task1_z C s = do {
     let (dir_frame, s) = alloc_frame_z s;
     let (spt_frame, s) = alloc_frame_z s;
     let (upt_frame, s) = alloc_frame_z s;
     let (pcb_frame, s) = alloc_frame_z s;
     let dir = frame_no dir_frame;
     let spt = frame_no spt_frame;
     let upt = frame_no upt_frame;
     let task = unat (frame_no pcb_frame);
     let s = clear_page_table dir s;
     let s = clear_page_table spt s;
     let s = clear_page_table upt s;
     let s = set_kernel_pages C spt s;
     let s = set_user_pages_z C upt s;
     let s = set_ss_pag_z spt (unat dir) dir 0 s;
     let s = set_ss_pag_z spt (unat spt) spt 0 s;
     let s = set_ss_pag_z spt (unat upt) upt 0 s;
     let s = set_ss_pag_z spt task (of_nat task) 0 s;
     let s = set_pte dir 0 (set_rw 1 (set_present 1 (set_pbase_addr spt 0))) s;
     let s = set_pte dir 1 (set_user 1 (set_rw 1 (set_present 1 (set_pbase_addr upt 0)))) s;
     let s = upd_task_z task (PID_z_update (\<lambda>_. 1)) s;
     let s = upd_task_z task (dir_pages_baseAddr_z_update (\<lambda>_. dir)) s;
     let s = upd_task_z task (state_z_update (\<lambda>_. ST_RUN)) s;
     h \<leftarrow> INIT_LIST_HEAD (Some (TaskList task)) (links s);
     let s = s\<lparr>links := h\<rparr>;
     let s = s\<lparr>tss_esp0 := (task, KERNEL_STACK_SIZE)\<rparr>;
     let s = s\<lparr>msr_175 := tss_esp0 s\<rparr>;
     let s = set_cr3 dir s;
     Some (s\<lparr>init_task := Some task\<rparr>)
   }"

definition init_sched_z :: "zeos \<Rightarrow> zeos option" where
  "init_sched_z s = do {
     h \<leftarrow> INIT_LIST_HEAD (Some Readyqueue) (links s);
     Some (s\<lparr>links := h\<rparr>)
   }"

definition inner_task_switch_z :: "nat \<Rightarrow> zeos \<Rightarrow> zeos option" where
  "inner_task_switch_z new s = do {
     let s = s\<lparr>tss_esp0 := (new, KERNEL_STACK_SIZE)\<rparr>;
     let s = s\<lparr>msr_175 := tss_esp0 s\<rparr>;
     let s = set_cr3 (get_DIR_z new s) s;
     new_ebp \<leftarrow> kernel_esp_z (tasks_z s new);
     let s = upd_task_z (fst (esp s)) (kernel_esp_z_update (\<lambda>_.
               case ebp s of StackAddr t i \<Rightarrow> Some (t, i) | _ \<Rightarrow> None)) s;
     Some (switch_stack_load new_ebp s)
   }"

definition task_switch_z :: "nat \<Rightarrow> zeos \<Rightarrow> zeos option" where
  "task_switch_z new s = inner_task_switch_z new (task_switch_entry s)"

definition list_head_to_task_struct_z :: "node option \<Rightarrow> nat option" where
  "list_head_to_task_struct_z l = (case l of Some (TaskList t) \<Rightarrow> Some t | _ \<Rightarrow> None)"

section \<open>Memory accesses\<close>

text \<open>Until \<open>set_pe_flag\<close> sets bit 31 of \<open>cr0\<close> an address is a physical one.\<close>

definition phys_lin :: "zeos \<Rightarrow> memory" where
  "phys_lin s a = fmem s (drop_bit 12 a) (unat a mod PAGE_SIZE)"

definition copy_in_z :: "DWord \<Rightarrow> nat \<Rightarrow> zeos \<Rightarrow> (nat \<Rightarrow> Byte) option" where
  "copy_in_z a n s =
     (if bit (cr0 s) 31 then copy_in a n s else Some (\<lambda>i. phys_lin s (a + of_nat i)))"

fun poke_phys :: "DWord \<Rightarrow> Byte list \<Rightarrow> zeos \<Rightarrow> zeos" where
  "poke_phys a [] s = s"
| "poke_phys a (b # bs) s = poke_phys (a + 1) bs
     (s\<lparr>fmem := (fmem s)(drop_bit 12 a := (fmem s (drop_bit 12 a))(unat a mod PAGE_SIZE := b))\<rparr>)"

definition copy_out_z :: "DWord \<Rightarrow> Byte list \<Rightarrow> zeos \<Rightarrow> zeos option" where
  "copy_out_z a bs s = (if bit (cr0 s) 31 then copy_out a bs s else Some (poke_phys a bs s))"

section \<open>System calls\<close>

definition check_fd_z :: "int \<Rightarrow> int \<Rightarrow> int" where
  "check_fd_z fd permissions = (if fd \<noteq> 1 then - 9 else if permissions \<noteq> 1 then - 13 else 0)"

definition sys_ni_syscall_z :: int where
  "sys_ni_syscall_z = - 38"

definition sys_gettime_z :: "zeos \<Rightarrow> int" where
  "sys_gettime_z s = zeos_ticks_z s"

definition sys_getpid_z :: "zeos \<Rightarrow> int" where
  "sys_getpid_z s = PID_z (tasks_z s (fst (esp s)))"

function write_loop :: "DWord \<Rightarrow> int \<Rightarrow> int \<Rightarrow> zeos \<Rightarrow> (int \<times> zeos) option" where
  "write_loop buffer bytes_left written s =
     (if bytes_left > 0 then
        let chunk = (if bytes_left > 256 then 256 else bytes_left) in
        case copy_in_z (buffer + word_of_int written) (nat chunk) s of
          None \<Rightarrow> None
        | Some kbuffer \<Rightarrow>
            (let (ret, sc) = sys_write_console kbuffer chunk (scr s) in
             if ret < 0 then Some (ret, s\<lparr>scr := sc\<rparr>)
             else write_loop buffer (bytes_left - ret) (written + ret) (s\<lparr>scr := sc\<rparr>))
      else Some (written, s))"
  by pat_completeness auto
termination
  by (relation "measure (\<lambda>(b, n, w, s). nat n)") (auto simp: sys_write_console_def split: if_splits)

declare write_loop.simps [simp del]

definition sys_write_z :: "int \<Rightarrow> DWord \<Rightarrow> int \<Rightarrow> zeos \<Rightarrow> (int \<times> zeos) option" where
  "sys_write_z fd buffer n s =
     (let ret = check_fd_z fd 1 in
      if ret < 0 then Some (ret, s)
      else if buffer = 0 then Some (- EFAULT, s)
      else if n < 0 then Some (- EINVAL, s)
      else if access_ok_z VERIFY_READ buffer (word_of_int n) = 0 then Some (- EFAULT, s)
      else write_loop buffer n 0 s)"

section \<open>Interrupts and entry points\<close>

definition char_map_z :: "Byte list" where
  "char_map_z = char_map_with 0xBD 0xBD 0xBD 0xBD"

definition clock_routine_z :: "zcfg \<Rightarrow> zeos \<Rightarrow> zeos" where
  "clock_routine_z C s =
     (let s = s\<lparr>zeos_ticks_z := c_int (zeos_ticks_z s + 1)\<rparr>
      in s\<lparr>scr := show_clock_z C (scr s)\<rparr>)"

definition keyboard_routine_z :: "zcfg \<Rightarrow> Byte \<Rightarrow> zeos \<Rightarrow> zeos" where
  "keyboard_routine_z C kb_reg s =
     (let is_make = kb_reg AND 0x80; code = kb_reg AND 0x7F in
      if is_make = 0 then
        let c = char_at (after_char_map_z C) char_map_z code in
        if c \<noteq> 0 then s\<lparr>scr := printc_xy 0 0 c (scr s)\<rparr>
        else s\<lparr>scr := printc_xy 0 0 67 (scr s)\<rparr>
      else s)"

definition my_page_fault_routine_z :: "DWord \<Rightarrow> DWord \<Rightarrow> Byte list \<Rightarrow> screen \<Rightarrow> screen option" where
  "my_page_fault_routine_z error at s sc = do {
     s \<leftarrow> hex_convertor at s;
     let sc = printk (str ''Process generates a PAGE FAULT exception'' @ [10]) sc;
     let sc = printk (str ''    EIP: 0x'') sc;
     let sc = printc 10 (printk s sc);
     s \<leftarrow> hex_convertor error s;
     let sc = printk (str ''    Error Code: 0x'') sc;
     Some (printc 10 (printk s sc))
   }"

datatype syscall_z = Ni_z | Write_z | Gettime_z | Getpid_z

definition sys_call_table_z :: "syscall_z list" where
  "sys_call_table_z = (replicate 21 Ni_z)[4 := Write_z, 10 := Gettime_z, 20 := Getpid_z]"

definition MAX_SYSCALL_z :: int where "MAX_SYSCALL_z = int (length sys_call_table_z)"

fun do_syscall_z :: "syscall_z \<Rightarrow> int \<times> DWord \<times> int \<Rightarrow> zeos \<Rightarrow> (int \<times> zeos) option" where
  "do_syscall_z Ni_z _ s = Some (sys_ni_syscall_z, s)"
| "do_syscall_z Write_z (fd, buffer, n) s = sys_write_z fd buffer n s"
| "do_syscall_z Gettime_z _ s = Some (sys_gettime_z s, s)"
| "do_syscall_z Getpid_z _ s = Some (sys_getpid_z s, s)"

text \<open>Here the bound test is \<open>jge\<close>.\<close>

definition system_call_handler_z :: "int \<Rightarrow> int \<times> DWord \<times> int \<Rightarrow> zeos \<Rightarrow> zeos option" where
  "system_call_handler_z n args s = do {
     let s = s\<lparr>esp := (fst (tss_esp0 s), snd (tss_esp0 s) - 16)\<rparr>;
     (v, s) \<leftarrow> (if n < 0 \<or> n \<ge> MAX_SYSCALL_z then Some (- ENOSYS, s)
               else do_syscall_z (sys_call_table_z ! nat n) args s);
     Some (drop_words 16 (s\<lparr>eax := v\<rparr>))
   }"

definition syscall_handler_sysenter_z :: "int \<Rightarrow> int \<times> DWord \<times> int \<Rightarrow> zeos \<Rightarrow> zeos option" where
  "syscall_handler_sysenter_z n args s = do {
     let s = s\<lparr>esp := (fst (msr_175 s), snd (msr_175 s) - 16)\<rparr>;
     (v, s) \<leftarrow> (if n < 0 \<or> n \<ge> MAX_SYSCALL_z then Some (- ENOSYS, s)
               else do_syscall_z (sys_call_table_z ! nat n) args s);
     Some (drop_words 16 (s\<lparr>eax := v\<rparr>))
   }"

text \<open>
  The interrupt handlers, taken in user mode: the processor and \<open>SAVE_ALL\<close> push 16 words on the stack
  of \<open>tss.esp0\<close>. The routines do not switch tasks, and \<open>RESTORE_ALL\<close> and \<open>iret\<close> pop the words again.
\<close>

definition clock_handler_z :: "zcfg \<Rightarrow> zeos \<Rightarrow> zeos" where
  "clock_handler_z C s =
     drop_words 16 (clock_routine_z C (s\<lparr>esp := (fst (tss_esp0 s), snd (tss_esp0 s) - 16)\<rparr>))"

definition keyboard_handler_z :: "zcfg \<Rightarrow> Byte \<Rightarrow> zeos \<Rightarrow> zeos" where
  "keyboard_handler_z C c s =
     drop_words 16 (keyboard_routine_z C c (s\<lparr>esp := (fst (tss_esp0 s), snd (tss_esp0 s) - 16)\<rparr>))"

section \<open>Boot\<close>

definition banner_z :: "screen \<Rightarrow> screen" where
  "banner_z =
     printk (str ''Entering user mode...'') \<circ>
     printk (str ''---------------------------------'' @ [10, 10]) \<circ>
     printk (str ''Marcel Sanz & Gerard Chaparro'' @ [10]) \<circ>
     printk (str ''SO2 - ZeOs Project'' @ [10]) \<circ>
     printk ([10] @ str ''---------------------------------'' @ [10]) \<circ>
     printk (str '' <-- Keyborad Routine Key'' @ [10]) \<circ> clear_screen"

definition main_z :: "zcfg \<Rightarrow> Byte list \<Rightarrow> zeos \<Rightarrow> zeos option" where
  "main_z C user_image s = do {
     let s = s\<lparr>scr := printk (str ''Kernel Loaded!    '') (scr s)\<rparr>;
     let s = init_mm_z C s;
     s \<leftarrow> init_sched_z s;
     s \<leftarrow> init_idle_z s;
     s \<leftarrow> init_task1_z C s;
     s \<leftarrow> copy_out_z 0x400000 user_image s;
     let s = s\<lparr>zeos_ticks_z := 0\<rparr>;
     let s = s\<lparr>scr := banner_z (scr s)\<rparr>;
     Some (s\<lparr>esp := tss_esp0 s\<rparr>)
   }"

end
