(* ===== verification/Root_Facts.thy ===== *)
theory Root_Facts
  imports Root_Kernel
begin

text \<open>
  Properties of the root kernel: its frame allocator is a second instance of the interface
  \<open>frame_allocator\<close>, the address space of its first process confines user code, its console
  write is right for every size, and its boot sequence uses a pointer before it is set.
\<close>

section \<open>The frame allocator\<close>

definition frames_ok_z :: "nat \<Rightarrow> zeos \<Rightarrow> bool" where
  "frames_ok_z L s \<longleftrightarrow> length (phys_mem s) = TOTAL_PAGES \<and> last_kernel s = L"

definition avail_z :: "zeos \<Rightarrow> nat set" where
  "avail_z s = {i. last_kernel s \<le> i \<and> i < TOTAL_PAGES \<and> phys_mem s ! i = FREE_FRAME}"

lemma alloc_frame_at_result:
  "(alloc_frame_at is s = (-1, s) \<and> (\<forall>i\<in>set is. phys_mem s ! i \<noteq> FREE_FRAME)) \<or>
   (\<exists>f\<in>set is. phys_mem s ! f = FREE_FRAME \<and>
      alloc_frame_at is s = (int f, s\<lparr>phys_mem := (phys_mem s)[f := USED_FRAME]\<rparr>))"
  by (induction "is") auto

lemma alloc_frame_z_cases:
  obtains (none) "alloc_frame_z s = (-1, s)" "avail_z s = {}"
  | (frame) f where "f \<in> avail_z s" "alloc_frame_z s = (int f, s\<lparr>phys_mem := (phys_mem s)[f := USED_FRAME]\<rparr>)"
  using alloc_frame_at_result [of "[last_kernel s..<TOTAL_PAGES]" s]
  by (fastforce simp: alloc_frame_z_def avail_z_def)

lemma avail_z_used:
  "frames_ok_z L s \<Longrightarrow> avail_z (s\<lparr>phys_mem := (phys_mem s)[f := USED_FRAME]\<rparr>) = avail_z s - {f}"
  by (auto simp: avail_z_def frames_ok_z_def FREE_FRAME_def USED_FRAME_def nth_list_update' split: if_splits)

lemma finite_avail_z [simp]: "finite (avail_z s)"
  by (rule finite_subset [of _ "{..<TOTAL_PAGES}"]) (auto simp: avail_z_def)

lemma avail_z_bound: "f \<in> avail_z s \<Longrightarrow> f < TOTAL_PAGES"
  by (simp add: avail_z_def)

lemma alloc_z_takes:
  assumes "frames_ok_z L s" and "avail_z s \<noteq> {}"
  obtains f where "f \<in> avail_z s" and "alloc_frame_z s = (int f, s\<lparr>phys_mem := (phys_mem s)[f := USED_FRAME]\<rparr>)"
    and "avail_z (s\<lparr>phys_mem := (phys_mem s)[f := USED_FRAME]\<rparr>) = avail_z s - {f}"
    and "frames_ok_z L (s\<lparr>phys_mem := (phys_mem s)[f := USED_FRAME]\<rparr>)"
proof (cases rule: alloc_frame_z_cases [of s])
  case (frame f)
  then show thesis using that assms(1) avail_z_used by (simp add: frames_ok_z_def)
qed (use assms(2) in simp)

interpretation zf: frame_allocator "frames_ok_z L" avail_z alloc_frame_z free_frame_z "{L..<TOTAL_PAGES}" for L
proof unfold_locales
  fix s w f
  assume ok: "frames_ok_z L s"
  show "frames_ok_z L (snd (alloc_frame_z s))"
    using ok by (cases rule: alloc_frame_z_cases [of s]) (auto simp: frames_ok_z_def)
  show "frames_ok_z L (free_frame_z w s)" using ok by (simp add: frames_ok_z_def free_frame_z_def)
  show "alloc_frame_z s = (-1, s)" if "avail_z s = {}"
    using that by (cases rule: alloc_frame_z_cases [of s]) auto
  show "\<exists>f\<in>avail_z s. fst (alloc_frame_z s) = int f \<and> avail_z (snd (alloc_frame_z s)) = avail_z s - {f}"
    if "avail_z s \<noteq> {}"
    by (rule alloc_z_takes [OF ok that]) auto
  show "avail_z (free_frame_z (of_nat f) s) = insert f (avail_z s)" if "f \<in> {L..<TOTAL_PAGES}"
    using ok that unat_frame [of f]
    by (auto simp: avail_z_def frames_ok_z_def free_frame_z_def nth_list_update')
qed simp

section \<open>Filling page tables\<close>

text \<open>One user page: a frame of the allocator in an entry of the form \<open>g\<close>.\<close>

definition set_uentry :: "(DWord \<Rightarrow> page_table_entry) \<Rightarrow> DWord \<Rightarrow> nat \<Rightarrow> zeos \<Rightarrow> zeos" where
  "set_uentry g PT j s = (let (f, s) = alloc_frame_z s in set_pte PT j (g (word_of_int f)) s)"

definition code_entry_z :: "DWord \<Rightarrow> page_table_entry" where
  "code_entry_z f = set_present 1 (set_user 1 (set_pbase_addr f 0))"

lemma user_pages_alt:
  "set_code_page PT = (\<lambda>pag. set_uentry code_entry_z PT (NUM_PAG_DATA + pag))"
  "set_data_page PT = set_uentry (\<lambda>f. set_present 1 (set_rw 1 (set_user 1 (set_pbase_addr f 0)))) PT"
  by (intro ext; simp add: set_code_page_def set_data_page_def set_uentry_def code_entry_z_def)+

lemma set_uentry_fold:
  assumes "frames_ok_z L s" and "length js \<le> card (avail_z s)" and "distinct js"
  shows "\<exists>fs. length fs = length js \<and> distinct fs \<and> set fs \<subseteq> avail_z s \<and>
    avail_z (fold (set_uentry g PT) js s) = avail_z s - set fs \<and> frames_ok_z L (fold (set_uentry g PT) js s) \<and>
    (\<forall>k<length js. pt (fold (set_uentry g PT) js s) PT (js ! k) = g (of_nat (fs ! k))) \<and>
    (\<forall>q j. q \<noteq> PT \<or> j \<notin> set js \<longrightarrow> pt (fold (set_uentry g PT) js s) q j = pt s q j) \<and>
    (\<exists>pm p. fold (set_uentry g PT) js s = s\<lparr>phys_mem := pm, pt := p\<rparr>)"
  using assms
proof (induction js arbitrary: s)
  case Nil
  have "s = s\<lparr>phys_mem := phys_mem s, pt := pt s\<rparr>" by simp
  then have "\<exists>pm p. s = s\<lparr>phys_mem := pm, pt := p\<rparr>" by blast
  with Nil show ?case by (intro exI [of _ "[]"]) simp
next
  case (Cons j js)
  then have "avail_z s \<noteq> {}" by auto
  then obtain f where f: "f \<in> avail_z s"
      "alloc_frame_z s = (int f, s\<lparr>phys_mem := (phys_mem s)[f := USED_FRAME]\<rparr>)"
      "avail_z (s\<lparr>phys_mem := (phys_mem s)[f := USED_FRAME]\<rparr>) = avail_z s - {f}"
      "frames_ok_z L (s\<lparr>phys_mem := (phys_mem s)[f := USED_FRAME]\<rparr>)"
    by (rule alloc_z_takes [OF Cons.prems(1)])
  define s1 where "s1 = set_pte PT j (g (of_nat f)) (s\<lparr>phys_mem := (phys_mem s)[f := USED_FRAME]\<rparr>)"
  have step: "fold (set_uentry g PT) (j # js) s = fold (set_uentry g PT) js s1"
    using f(2) by (simp add: set_uentry_def s1_def)
  have s1: "frames_ok_z L s1" "avail_z s1 = avail_z s - {f}"
    using f(3,4) by (simp_all add: s1_def frames_ok_z_def avail_z_def set_pte_def)
  have pt1: "pt s1 q i = (if q = PT \<and> i = j then g (of_nat f) else pt s q i)" for q i
    by (simp add: s1_def pt_set_pte)
  have "length js \<le> card (avail_z s1)" using Cons.prems(2) f(1) s1(2) by simp
  from Cons.IH [OF s1(1) this] Cons.prems(3) obtain fs pm p where
    IH: "length fs = length js" "distinct fs" "set fs \<subseteq> avail_z s1"
      "avail_z (fold (set_uentry g PT) js s1) = avail_z s1 - set fs" "frames_ok_z L (fold (set_uentry g PT) js s1)"
      "\<forall>k<length js. pt (fold (set_uentry g PT) js s1) PT (js ! k) = g (of_nat (fs ! k))"
      "\<forall>q i. q \<noteq> PT \<or> i \<notin> set js \<longrightarrow> pt (fold (set_uentry g PT) js s1) q i = pt s1 q i"
      "fold (set_uentry g PT) js s1 = s1\<lparr>phys_mem := pm, pt := p\<rparr>"
    by auto
  have "fold (set_uentry g PT) js s1 = s\<lparr>phys_mem := pm, pt := p\<rparr>"
    unfolding IH(8) by (simp add: s1_def set_pte_def)
  moreover have "\<forall>k<length (j # js). pt (fold (set_uentry g PT) js s1) PT ((j # js) ! k) = g (of_nat ((f # fs) ! k))"
    using IH(6,7) Cons.prems(3) pt1 by (auto simp: less_Suc_eq_0_disj)
  moreover have "\<forall>q i. q \<noteq> PT \<or> i \<notin> set (j # js) \<longrightarrow> pt (fold (set_uentry g PT) js s1) q i = pt s q i"
    using IH(7) pt1 by auto
  ultimately show ?case
    unfolding step using IH(1-5) f(1) s1(2) by (intro exI [of _ "f # fs"]) auto
qed

lemma user_pages_z:
  fixes C :: zcfg and PT :: DWord
  assumes "frames_ok_z L s" and "28 \<le> card (avail_z s)"
  defines "s' \<equiv> set_user_pages_z C PT s"
  shows "\<exists>fs. length fs = 28 \<and> distinct fs \<and> set fs \<subseteq> avail_z s \<and>
    (\<forall>k<20. pt s' PT k = user_entry (of_nat (fs ! k))) \<and>
    (\<forall>k. 20 \<le> k \<longrightarrow> k < 28 \<longrightarrow> pt s' PT k = code_entry_z (of_nat (fs ! k))) \<and>
    (\<forall>q j. q \<noteq> PT \<or> 28 \<le> j \<longrightarrow> pt s' q j = pt s q j) \<and> (\<exists>pm p sc. s' = s\<lparr>phys_mem := pm, pt := p, scr := sc\<rparr>)"
proof -
  let ?js = "map ((+) NUM_PAG_DATA) [0..<NUM_PAG_CODE]"
  define s1 where "s1 = fold (set_uentry code_entry_z PT) ?js s"
  have c: "NUM_PAG_DATA = 20" "NUM_PAG_CODE = 8" by (simp_all add: NUM_PAG_DATA_def NUM_PAG_CODE_def)
  have len: "length ?js \<le> card (avail_z s)" and dis: "distinct ?js" using assms(2) c by simp_all
  obtain cs pm p where s1: "length cs = 8" "distinct cs" "set cs \<subseteq> avail_z s" "avail_z s1 = avail_z s - set cs"
      "frames_ok_z L s1" "\<And>k. k < 8 \<Longrightarrow> pt s1 PT (20 + k) = code_entry_z (of_nat (cs ! k))"
      "\<And>q j. q \<noteq> PT \<or> j \<notin> set ?js \<Longrightarrow> pt s1 q j = pt s q j" "s1 = s\<lparr>phys_mem := pm, pt := p\<rparr>"
    using set_uentry_fold [OF assms(1) len dis, of code_entry_z PT, folded s1_def] c by auto
  have "card (avail_z s1) = card (avail_z s) - card (set cs)"
    using s1(3,4) by (simp add: card_Diff_subset finite_subset)
  then have "20 \<le> card (avail_z s1)" using s1(1,2) assms(2) by (simp add: distinct_card)
  then have len2: "length [0..<NUM_PAG_DATA] \<le> card (avail_z s1)" using c by simp
  let ?d = "\<lambda>f. set_present 1 (set_rw 1 (set_user 1 (set_pbase_addr f 0)))"
  define s2 where "s2 = fold (set_uentry ?d PT) [0..<NUM_PAG_DATA] s1"
  have dis2: "distinct [0..<NUM_PAG_DATA]" by simp
  obtain ds pm' p' where r: "length ds = length [0..<NUM_PAG_DATA]" "distinct ds" "set ds \<subseteq> avail_z s1"
      "\<forall>k<length [0..<NUM_PAG_DATA]. pt s2 PT ([0..<NUM_PAG_DATA] ! k) = ?d (of_nat (ds ! k))"
      "\<forall>q j. q \<noteq> PT \<or> j \<notin> set [0..<NUM_PAG_DATA] \<longrightarrow> pt s2 q j = pt s1 q j" "s2 = s1\<lparr>phys_mem := pm', pt := p'\<rparr>"
    using set_uentry_fold [OF s1(5) len2 dis2, of ?d PT, folded s2_def] by blast
  have s2: "length ds = 20" "distinct ds" "set ds \<subseteq> avail_z s1"
      "\<And>k. k < 20 \<Longrightarrow> pt s2 PT k = user_entry (of_nat (ds ! k))"
    using r(1-4) by (simp_all add: c user_entry_def)
  have s2': "pt s2 q j = pt s1 q j" if "q \<noteq> PT \<or> 20 \<le> j" for q j
    using that r(5) by (auto simp: c)
  have s': "s' = s2\<lparr>scr := show_PT_range C (pt s2 PT) 0 28 (str '' Reserved for User memory'' @ [10]) (scr s2)\<rparr>"
    by (simp add: s'_def set_user_pages_z_def user_pages_alt s2_def s1_def fold_map comp_def c Let_def)
  have js: "set ?js = {20..<28}" by (simp add: c)
  show ?thesis
  proof (intro exI [of _ "ds @ cs"] conjI allI impI)
    show "length (ds @ cs) = 28" "distinct (ds @ cs)" "set (ds @ cs) \<subseteq> avail_z s"
      using s1 s2 by auto
    show "pt s' PT k = user_entry (of_nat ((ds @ cs) ! k))" if "k < 20" for k
      using that s2(1,4) by (simp add: s' nth_append)
    show "pt s' PT k = code_entry_z (of_nat ((ds @ cs) ! k))" if "20 \<le> k" "k < 28" for k
      using that s2(1) s2' s1(6) [of "k - 20"] by (simp add: s' nth_append)
    show "pt s' q j = pt s q j" if "q \<noteq> PT \<or> 28 \<le> j" for q j
    proof -
      have "pt s2 q j = pt s1 q j" using that by (intro s2') auto
      moreover have "pt s1 q j = pt s q j" using that by (intro s1(7)) (auto simp: js simp del: set_map)
      ultimately show ?thesis by (simp add: s')
    qed
    show "\<exists>pm p sc. s' = s\<lparr>phys_mem := pm, pt := p, scr := sc\<rparr>"
      unfolding s' r(6) s1(8) by auto
  qed
qed

lemma pt_clear_page_table:
  "pt (clear_page_table PT s) q j = (if q = PT \<and> j < TOTAL_PAGES then 0 else pt s q j)"
proof -
  have "pt (fold (\<lambda>i. set_pte PT i 0) [0..<n] s) q j = (if q = PT \<and> j < n then 0 else pt s q j)" for n
    by (induction n) (auto simp: pt_set_pte less_Suc_eq)
  then show ?thesis by (simp add: clear_page_table_def)
qed

text \<open>What the routines that only write page table entries and the screen leave alone.\<close>

definition same_but_pt :: "zeos \<Rightarrow> zeos \<Rightarrow> bool" where
  "same_but_pt s s' \<longleftrightarrow> (\<exists>p sc. s' = s\<lparr>pt := p, scr := sc\<rparr>)"

lemma same_but_pt_refl: "same_but_pt s s"
proof -
  have "s = s\<lparr>pt := pt s, scr := scr s\<rparr>" by simp
  then show ?thesis unfolding same_but_pt_def by blast
qed

lemma same_but_pt_trans: "same_but_pt s s' \<Longrightarrow> same_but_pt s' s'' \<Longrightarrow> same_but_pt s s''"
  unfolding same_but_pt_def by (elim exE) (simp, blast)

lemma same_but_pt_steps:
  "same_but_pt s (set_pte PT j e s)" "same_but_pt s (set_ss_pag_z PT j f u s)" "same_but_pt s (s\<lparr>scr := sc\<rparr>)"
proof -
  have "set_pte PT j e s = s\<lparr>pt := (pt s)(PT := (pt s PT)(j := e)), scr := scr s\<rparr>" for e by (simp add: set_pte_def)
  then show "same_but_pt s (set_pte PT j e s)" "same_but_pt s (set_ss_pag_z PT j f u s)"
    unfolding same_but_pt_def set_ss_pag_z_def by blast+
  have "s\<lparr>scr := sc\<rparr> = s\<lparr>pt := pt s, scr := sc\<rparr>" by simp
  then show "same_but_pt s (s\<lparr>scr := sc\<rparr>)" unfolding same_but_pt_def by blast
qed

lemma same_but_pt_fold: "(\<And>i s. same_but_pt s (f i s)) \<Longrightarrow> same_but_pt s (fold f is s)"
  by (induction "is" arbitrary: s) (auto intro: same_but_pt_refl same_but_pt_trans)

lemma same_but_pt_clear: "same_but_pt s (clear_page_table PT s)"
  unfolding clear_page_table_def by (rule same_but_pt_fold) (rule same_but_pt_steps)

lemma same_but_pt_kernel: "same_but_pt s (set_kernel_pages C PT s)"
proof -
  have f: "same_but_pt s (fold (\<lambda>i. set_ss_pag_z PT i (of_nat i) 0) is s)" for "is"
    by (rule same_but_pt_fold) (rule same_but_pt_steps)
  note next_step = same_but_pt_trans [OF _ same_but_pt_steps(2)] same_but_pt_trans [OF _ same_but_pt_steps(3)]
  show ?thesis
    unfolding set_kernel_pages_def Let_def by (intro next_step) (rule f)
qed

lemma pt_kernel_other: "q \<noteq> PT \<Longrightarrow> pt (set_kernel_pages C PT s) q = pt s q"
proof -
  assume q: "q \<noteq> PT"
  have one: "pt (set_ss_pag_z PT j f u s) q = pt s q" for j f u s
    using q by (intro ext) (simp add: set_ss_pag_z_def pt_set_pte)
  have "pt (fold (\<lambda>i. set_ss_pag_z PT i (of_nat i) 0) is s) q = pt s q" for "is"
    by (induction "is" arbitrary: s) (simp_all add: one)
  then show ?thesis by (simp add: set_kernel_pages_def Let_def one)
qed

lemma frame_no_frame: "f < TOTAL_PAGES \<Longrightarrow> frame_no (int f) = of_nat f"
proof -
  assume "f < TOTAL_PAGES"
  then have "take_bit 20 (of_nat f :: DWord) = of_nat f" by simp
  moreover have "drop_bit 12 (push_bit 12 w) = take_bit 20 w" for w :: DWord
    by (rule bit_word_eqI) (auto simp: bit_simps)
  ultimately show ?thesis by (simp add: frame_no_def)
qed

section \<open>The first process\<close>

lemma alloc_four:
  assumes "frames_ok_z L s" and "32 \<le> card (avail_z s)"
  obtains d p u t s4 where "distinct [d, p, u, t]" and "{d, p, u, t} \<subseteq> avail_z s"
    and "\<And>f. f \<in> {d, p, u, t} \<Longrightarrow> f < TOTAL_PAGES"
    and "\<And>(k :: int \<Rightarrow> int \<Rightarrow> int \<Rightarrow> int \<Rightarrow> zeos \<Rightarrow> zeos option). (let (a, s) = alloc_frame_z s; (b, s) = alloc_frame_z s;
        (c, s) = alloc_frame_z s; (e, s) = alloc_frame_z s in k a b c e s) = k (int d) (int p) (int u) (int t) s4"
    and "frames_ok_z L s4" and "avail_z s4 = avail_z s - {d, p, u, t}" and "\<exists>pm. s4 = s\<lparr>phys_mem := pm\<rparr>"
proof -
  have ne: "avail_z s - F \<noteq> {}" if "finite F" "card F < 32" for F
    using card_mono [OF that(1), of "avail_z s"] assms(2) that(2) by auto
  let ?use = "\<lambda>s f. s\<lparr>phys_mem := (phys_mem s)[f := USED_FRAME]\<rparr>"
  have "avail_z s \<noteq> {}" using ne [of "{}"] by simp
  then obtain d where d: "d \<in> avail_z s" "alloc_frame_z s = (int d, ?use s d)" "avail_z (?use s d) = avail_z s - {d}" "frames_ok_z L (?use s d)"
    by (rule alloc_z_takes [OF assms(1)])
  define s1 where "s1 = ?use s d"
  have "avail_z s1 \<noteq> {}" using ne [of "{d}"] d(3) by (simp add: s1_def)
  then obtain p where p: "p \<in> avail_z s1" "alloc_frame_z s1 = (int p, ?use s1 p)" "avail_z (?use s1 p) = avail_z s1 - {p}" "frames_ok_z L (?use s1 p)"
    by (rule alloc_z_takes [OF d(4) [folded s1_def]])
  define s2 where "s2 = ?use s1 p"
  have "avail_z s2 \<noteq> {}" using ne [of "{d, p}"] d(3) p(3) by (simp add: s2_def s1_def Diff_insert2 [symmetric] card_insert_if insert_commute)
  then obtain u where u: "u \<in> avail_z s2" "alloc_frame_z s2 = (int u, ?use s2 u)" "avail_z (?use s2 u) = avail_z s2 - {u}" "frames_ok_z L (?use s2 u)"
    by (rule alloc_z_takes [OF p(4) [folded s2_def]])
  define s3 where "s3 = ?use s2 u"
  have a3: "avail_z s3 = avail_z s - {d, p, u}" using d(3) p(3) u(3) by (auto simp: s3_def s2_def s1_def)
  then have "avail_z s3 \<noteq> {}" using ne [of "{d, p, u}"] by (simp add: card_insert_if)
  then obtain t where t: "t \<in> avail_z s3" "alloc_frame_z s3 = (int t, ?use s3 t)" "avail_z (?use s3 t) = avail_z s3 - {t}" "frames_ok_z L (?use s3 t)"
    by (rule alloc_z_takes [OF u(4) [folded s3_def]])
  have av: "avail_z s1 = avail_z s - {d}" "avail_z s2 = avail_z s - {d, p}"
    using d(3) p(3) by (auto simp: s1_def s2_def)
  have sub: "{d, p, u, t} \<subseteq> avail_z s" using d(1) p(1) u(1) t(1) av a3 by auto
  show thesis
  proof (rule that [of d p u t "?use s3 t"])
    show "distinct [d, p, u, t]" using p(1) u(1) t(1) av a3 by auto
    show "f < TOTAL_PAGES" if "f \<in> {d, p, u, t}" for f using that sub avail_z_bound by blast
    show "(let (a, s) = alloc_frame_z s; (b, s) = alloc_frame_z s; (c, s) = alloc_frame_z s; (e, s) = alloc_frame_z s
        in k a b c e s) = k (int d) (int p) (int u) (int t) (?use s3 t)"
      for k :: "int \<Rightarrow> int \<Rightarrow> int \<Rightarrow> int \<Rightarrow> zeos \<Rightarrow> zeos option"
      by (simp add: d(2) s1_def [symmetric] p(2) s2_def [symmetric] u(2) s3_def [symmetric] t(2))
    show "avail_z (?use s3 t) = avail_z s - {d, p, u, t}" using t(3) a3 by auto
    show "\<exists>pm. ?use s3 t = s\<lparr>phys_mem := pm\<rparr>" by (simp add: s3_def s2_def s1_def) blast
  qed (use sub t(4) in auto)
qed

definition user_access :: "zeos \<Rightarrow> nat \<Rightarrow> bool \<Rightarrow> bool" where
  "user_access s p w \<longleftrightarrow>
     (let d = pt s (cr3 s) (p div 1024); e = pt s (pte_pbase_addr d) (p mod 1024) in
      pte_present d = 1 \<and> pte_user d = 1 \<and> pte_present e = 1 \<and> pte_user e = 1 \<and>
      (w \<longrightarrow> pte_rw d = 1 \<and> pte_rw e = 1))"

definition user_frame_z :: "zeos \<Rightarrow> nat \<Rightarrow> DWord" where
  "user_frame_z s p = pte_pbase_addr (pt s (pte_pbase_addr (pt s (cr3 s) (p div 1024))) (p mod 1024))"

lemma same_but_ptD:
  assumes "same_but_pt s s'"
  shows "avail_z s' = avail_z s" "frames_ok_z L s' = frames_ok_z L s" "links s' = links s" "tasks_z s' = tasks_z s"
  using assms by (auto simp: same_but_pt_def avail_z_def frames_ok_z_def)

lemma pt_ss_pag_z:
  "pt (set_ss_pag_z PT j f u s) q i = (if q = PT \<and> i = j
     then set_present 1 (set_rw 1 (set_user u (set_pbase_addr f 0))) else pt s q i)"
  by (simp add: set_ss_pag_z_def pt_set_pte)

lemma frame_eq_iff: "f < TOTAL_PAGES \<Longrightarrow> g < TOTAL_PAGES \<Longrightarrow> (of_nat f :: DWord) = of_nat g \<longleftrightarrow> f = g"
  by (metis unat_frame)

definition spt_entry :: "DWord \<Rightarrow> page_table_entry" where
  "spt_entry f = set_rw 1 (set_present 1 (set_pbase_addr f 0))"

definition upt_entry :: "DWord \<Rightarrow> page_table_entry" where
  "upt_entry f = set_user 1 (set_rw 1 (set_present 1 (set_pbase_addr f 0)))"

lemma init_task1_space:
  assumes ok: "frames_ok_z L s" and n: "32 \<le> card (avail_z s)"
  obtains s' fs d p u t where "init_task1_z C s = Some s'" and "init_task s' = Some t" and "PID_z (tasks_z s' t) = 1"
    and "cr3 s' = of_nat d" and "tss_esp0 s' = (t, KERNEL_STACK_SIZE)" and "msr_175 s' = tss_esp0 s'"
    and "length fs = 28" and "distinct (fs @ [d, p, u, t])" and "set (fs @ [d, p, u, t]) \<subseteq> avail_z s"
    and "pt s' (of_nat d) 0 = spt_entry (of_nat p)" and "pt s' (of_nat d) 1 = upt_entry (of_nat u)"
    and "\<And>j. 2 \<le> j \<Longrightarrow> j < TOTAL_PAGES \<Longrightarrow> pt s' (of_nat d) j = 0"
    and "\<And>k. k < 20 \<Longrightarrow> pt s' (of_nat u) k = user_entry (of_nat (fs ! k))"
    and "\<And>k. 20 \<le> k \<Longrightarrow> k < 28 \<Longrightarrow> pt s' (of_nat u) k = code_entry_z (of_nat (fs ! k))"
    and "\<And>k. 28 \<le> k \<Longrightarrow> k < TOTAL_PAGES \<Longrightarrow> pt s' (of_nat u) k = 0"
proof (rule alloc_four [OF ok n])
  fix d p u t s4 
  assume dis: "distinct [d, p, u, t]" and sub: "{d, p, u, t} \<subseteq> avail_z s"
    and bd: "\<And>f. f \<in> {d, p, u, t} \<Longrightarrow> f < TOTAL_PAGES"
    and all: "\<And>(k :: int \<Rightarrow> int \<Rightarrow> int \<Rightarrow> int \<Rightarrow> zeos \<Rightarrow> zeos option). (let (a, s) = alloc_frame_z s; (b, s) = alloc_frame_z s;
        (c, s) = alloc_frame_z s; (e, s) = alloc_frame_z s in k a b c e s) = k (int d) (int p) (int u) (int t) s4"
    and ok4: "frames_ok_z L s4" and av4: "avail_z s4 = avail_z s - {d, p, u, t}" and "\<exists>pm. s4 = s\<lparr>phys_mem := pm\<rparr>"
  let ?d = "of_nat d :: DWord" and ?p = "of_nat p :: DWord" and ?u = "of_nat u :: DWord"
  have ne: "?d \<noteq> ?p" "?d \<noteq> ?u" "?p \<noteq> ?u" "?p \<noteq> ?d" "?u \<noteq> ?d" "?u \<noteq> ?p"
    using dis bd by (simp_all add: frame_eq_iff)
  have fr: "frame_no (int d) = ?d" "frame_no (int p) = ?p" "frame_no (int u) = ?u"
    "unat (frame_no (int t)) = t" "unat ?d = d"
    using bd by (simp_all add: frame_no_frame unat_frame)
  define s6 where "s6 = set_kernel_pages C ?p (clear_page_table ?u (clear_page_table ?p (clear_page_table ?d s4)))"
  have same: "same_but_pt s4 s6"
    unfolding s6_def by (rule same_but_pt_trans [OF _ same_but_pt_kernel])
      (intro same_but_pt_trans [OF _ same_but_pt_clear] same_but_pt_refl)
  have pt6: "j < TOTAL_PAGES \<Longrightarrow> pt s6 ?d j = 0" "j < TOTAL_PAGES \<Longrightarrow> pt s6 ?u j = 0" for j
    using ne by (simp_all add: s6_def pt_kernel_other pt_clear_page_table)
  have "card (avail_z s4) = card (avail_z s) - card {d, p, u, t}"
    unfolding av4 using sub by (intro card_Diff_subset) auto
  then have n6: "28 \<le> card (avail_z s6)" and ok6: "frames_ok_z L s6"
    using dis n same_but_ptD [OF same] ok4 by simp_all
  define s7 where "s7 = set_user_pages_z C ?u s6"
  from user_pages_z [OF ok6 n6, of C ?u, folded s7_def] obtain fs pm q sc where fs: "length fs = 28" "distinct fs" "set fs \<subseteq> avail_z s6"
      "\<And>k. k < 20 \<Longrightarrow> pt s7 ?u k = user_entry (of_nat (fs ! k))"
      "\<And>k. 20 \<le> k \<Longrightarrow> k < 28 \<Longrightarrow> pt s7 ?u k = code_entry_z (of_nat (fs ! k))"
      "\<And>q j. q \<noteq> ?u \<or> 28 \<le> j \<Longrightarrow> pt s7 q j = pt s6 q j"
      "s7 = s6\<lparr>phys_mem := pm, pt := q, scr := sc\<rparr>"
    by blast
  obtain s' where s': "init_task1_z C s = Some s'" "init_task s' = Some t" "PID_z (tasks_z s' t) = 1" "cr3 s' = ?d"
      "tss_esp0 s' = (t, KERNEL_STACK_SIZE)" "msr_175 s' = tss_esp0 s'"
      "\<And>r j. r \<noteq> ?p \<Longrightarrow> pt s' r j = (if r = ?d \<and> j = 1 then upt_entry ?u else if r = ?d \<and> j = 0 then spt_entry ?p
          else pt s7 r j)"
    unfolding init_task1_z_def all unfolding Let_def fr s6_def [symmetric] s7_def [symmetric]
    by (simp add: list_code pt_ss_pag_z pt_set_pte set_cr3_def upd_task_z_def spt_entry_def upt_entry_def)
  show thesis
  proof (rule that [OF s'(1-6) fs(1)])
    show "distinct (fs @ [d, p, u, t])" "set (fs @ [d, p, u, t]) \<subseteq> avail_z s"
      using fs(2,3) dis sub same_but_ptD(1) [OF same] av4 by auto
  qed (use ne s'(7) fs(4-6) pt6 in auto)
qed

text \<open>The address space \<open>init_task1\<close> builds: directory \<open>d\<close>, kernel table \<open>p\<close>, user table \<open>u\<close>, user frames \<open>fs\<close>.\<close>

definition task1_tables :: "nat \<Rightarrow> nat \<Rightarrow> nat \<Rightarrow> nat list \<Rightarrow> zeos \<Rightarrow> bool" where
  "task1_tables d p u fs s \<longleftrightarrow> cr3 s = of_nat d \<and> length fs = 28 \<and> (\<forall>f\<in>set (u # fs). f < TOTAL_PAGES) \<and>
     pt s (of_nat d) 0 = spt_entry (of_nat p) \<and> pt s (of_nat d) 1 = upt_entry (of_nat u) \<and>
     (\<forall>j. 2 \<le> j \<and> j < TOTAL_PAGES \<longrightarrow> pt s (of_nat d) j = 0) \<and>
     (\<forall>k<20. pt s (of_nat u) k = user_entry (of_nat (fs ! k))) \<and>
     (\<forall>k. 20 \<le> k \<and> k < 28 \<longrightarrow> pt s (of_nat u) k = code_entry_z (of_nat (fs ! k))) \<and>
     (\<forall>k. 28 \<le> k \<and> k < TOTAL_PAGES \<longrightarrow> pt s (of_nat u) k = 0)"

lemma frame_bits: "f < TOTAL_PAGES \<Longrightarrow> take_bit 20 (of_nat f :: DWord) = of_nat f"
  by simp

lemma spt_upt_entry:
  "pte_user (spt_entry f) = 0" "pte_present (upt_entry f) = 1" "pte_user (upt_entry f) = 1"
  "pte_rw (upt_entry f) = 1" "pte_pbase_addr (upt_entry f) = take_bit 20 f"
  by (simp_all add: spt_entry_def upt_entry_def)

lemma page_halves:
  fixes q :: nat
  assumes "1024 \<le> q" and "q < 2048"
  shows "q div 1024 = 1" and "q mod 1024 = q - 1024"
  using assms by (auto intro: div_nat_eqI simp: le_mod_geq)

lemma task1_access:
  assumes tabs: "task1_tables d p u fs s"
  shows "\<forall>q<2 ^ 20. \<forall>w. user_access s q w \<longleftrightarrow> 1024 \<le> q \<and> q < 1052 \<and> (w \<longrightarrow> q < 1044)"
proof (intro allI impI)
  fix q w assume q: "q < (2 :: nat) ^ 20"
  have u: "take_bit 20 (of_nat u :: DWord) = of_nat u" using tabs by (intro frame_bits) (simp add: task1_tables_def)
  consider (low) "q < 1024" | (user) "1024 \<le> q" "q < 2048" | (high) "2 \<le> q div 1024" "2048 \<le> q" by linarith
  then show "user_access s q w \<longleftrightarrow> 1024 \<le> q \<and> q < 1052 \<and> (w \<longrightarrow> q < 1044)"
  proof cases
    case low
    then show ?thesis using tabs by (simp add: task1_tables_def user_access_def Let_def spt_upt_entry)
  next
    case high
    have "q div 1024 < TOTAL_PAGES" using q by (simp add: TOTAL_PAGES_def less_mult_imp_div_less)
    then have "pt s (cr3 s) (q div 1024) = 0" using high(1) tabs by (simp add: task1_tables_def)
    then show ?thesis using high(2) by (simp add: user_access_def Let_def)
  next
    case user
    note m = page_halves [OF user]
    have a: "user_access s q w \<longleftrightarrow> (let e = pt s (of_nat u) (q - 1024) in pte_present e = 1 \<and> pte_user e = 1 \<and> (w \<longrightarrow> pte_rw e = 1))"
      using tabs u by (simp add: user_access_def m task1_tables_def spt_upt_entry)
    consider (data) "q - 1024 < 20" | (code) "20 \<le> q - 1024" "q - 1024 < 28" | (none) "28 \<le> q - 1024" by linarith
    then show ?thesis
      unfolding a using user tabs by cases (auto simp: task1_tables_def code_entry_z_def TOTAL_PAGES_def)
  qed
qed

lemma task1_frame:
  assumes tabs: "task1_tables d p u fs s" and q: "q \<in> {1024..<1052}"
  shows "user_frame_z s q = of_nat (fs ! (q - 1024))"
proof -
  have m: "q div 1024 = 1" "q mod 1024 = q - 1024" using q page_halves [of q] by auto
  have "fs ! (q - 1024) \<in> set fs" using q tabs by (auto simp: task1_tables_def)
  then have b: "fs ! (q - 1024) < TOTAL_PAGES" "u < TOTAL_PAGES" using tabs by (auto simp: task1_tables_def)
  have e: "user_frame_z s q = pte_pbase_addr (pt s (of_nat u) (q - 1024))"
    using tabs frame_bits [OF b(2)] by (simp add: task1_tables_def user_frame_z_def m spt_upt_entry)
  consider "q - 1024 < 20" | "20 \<le> q - 1024" "q - 1024 < 28" using q by fastforce
  then show ?thesis
    unfolding e using tabs frame_bits [OF b(1)] by cases (simp_all add: task1_tables_def code_entry_z_def)
qed

lemma task1_frames_inj:
  assumes tabs: "task1_tables d p u fs s" and dis: "distinct fs"
  shows "inj_on (user_frame_z s) {1024..<1052}"
proof (rule inj_onI)
  fix a b assume ab: "a \<in> {1024..<1052 :: nat}" "b \<in> {1024..<1052}" "user_frame_z s a = user_frame_z s b"
  have len: "length fs = 28" using tabs by (simp add: task1_tables_def)
  have "fs ! (a - 1024) \<in> set fs" "fs ! (b - 1024) \<in> set fs" using ab len by auto
  then have "fs ! (a - 1024) < TOTAL_PAGES" "fs ! (b - 1024) < TOTAL_PAGES" using tabs by (auto simp: task1_tables_def)
  then have "fs ! (a - 1024) = fs ! (b - 1024)" using ab task1_frame [OF tabs] frame_eq_iff by simp
  then have "a - 1024 = b - 1024" using len dis ab by (auto simp: nth_eq_iff_index_eq)
  with ab show "a = b" by auto
qed

section \<open>Frames at boot\<close>

lemma fold_update_const:
  "fold (\<lambda>i pm. pm[i := v]) [a..<b] pm = map (\<lambda>k. if a \<le> k \<and> k < b then v else pm ! k) [0..<length pm]"
proof (induction b)
  case (Suc b)
  show ?case
  proof (cases "a \<le> b")
    case True
    with Suc show ?thesis by (auto simp: less_Suc_eq nth_list_update intro!: nth_equalityI)
  next
    case False
    then show ?thesis by (intro nth_equalityI) auto
  qed
qed (intro nth_equalityI; simp)

lemma boot_frames_z:
  assumes "length (phys_mem s) = TOTAL_PAGES" and "0 < last_kernel s"
  shows "frames_ok_z (last_kernel s) (snd (init_frames_z s))"
    and "avail_z (snd (init_frames_z s)) = {last_kernel s..<TOTAL_PAGES} - {0x90, 0xb8}"
proof -
  show "frames_ok_z (last_kernel s) (snd (init_frames_z s))"
    using assms by (simp add: frames_ok_z_def init_frames_z_def Let_def fold_update_const)
  show "avail_z (snd (init_frames_z s)) = {last_kernel s..<TOTAL_PAGES} - {0x90, 0xb8}"
    using assms
    by (auto simp: avail_z_def init_frames_z_def Let_def fold_update_const nth_list_update FREE_FRAME_def
        USED_FRAME_def TOTAL_PAGES_def split: if_splits)
qed

lemma last_kernel_init_mm:
  assumes "unat (sys_size C) + unat (usr_size C) \<le> 0x380000"
  shows "0 < last_kernel (init_mm_z C s)" and "last_kernel (init_mm_z C s) \<le> 0x391"
proof -
  have l: "last_kernel (init_mm_z C s) = unat (KERNEL_START + sys_size C + usr_size C) div 4096 + 1"
    by (simp add: init_mm_z_def init_frames_z_def Let_def drop_bit_eq_div unat_div)
  have k: "unat KERNEL_START = 0x10000" by (simp add: KERNEL_START_def)
  have "unat (KERNEL_START + sys_size C) = 0x10000 + unat (sys_size C)"
    using assms k by (subst unat_add_lem [THEN iffD1]) simp_all
  then have "unat (KERNEL_START + sys_size C + usr_size C) = 0x10000 + unat (sys_size C) + unat (usr_size C)"
    using assms by (subst unat_add_lem [THEN iffD1]) simp_all
  moreover have "(0x10000 + unat (sys_size C) + unat (usr_size C)) div 4096 \<le> 0x390000 div 4096"
    using assms by (intro div_le_mono) simp
  ultimately show "0 < last_kernel (init_mm_z C s)" "last_kernel (init_mm_z C s) \<le> 0x391"
    unfolding l by simp_all
qed

lemma init_mm_frames:
  assumes "length (phys_mem s) = TOTAL_PAGES" and "unat (sys_size C) + unat (usr_size C) \<le> 0x380000"
  shows "frames_ok_z (last_kernel (init_mm_z C s)) (init_mm_z C s)"
    and "avail_z (init_mm_z C s) = {last_kernel (init_mm_z C s)..<TOTAL_PAGES} - {0x90, 0xb8}"
    and "32 \<le> card (avail_z (init_mm_z C s))"
proof -
  let ?l = "unat (drop_bit 12 (KERNEL_START + sys_size C + usr_size C)) + 1"
  define s0 where "s0 = s\<lparr>first_kernel := unat (drop_bit 12 KERNEL_START), last_kernel := ?l\<rparr>"
  have s0: "init_mm_z C s = snd (init_frames_z s0)" "last_kernel s0 = last_kernel (init_mm_z C s)"
      "phys_mem s0 = phys_mem s"
    by (simp_all add: s0_def init_mm_z_def Let_def init_frames_z_def)
  have len: "length (phys_mem s0) = TOTAL_PAGES" and pos: "0 < last_kernel s0"
    using assms s0(3) last_kernel_init_mm(1) [OF assms(2), of s] unfolding s0(2) by simp_all
  note b = boot_frames_z [OF len pos]
  show "frames_ok_z (last_kernel (init_mm_z C s)) (init_mm_z C s)" using b(1) s0 by simp
  show av: "avail_z (init_mm_z C s) = {last_kernel (init_mm_z C s)..<TOTAL_PAGES} - {0x90, 0xb8}"
    using b(2) s0 by simp
  have "card {0x391..<1024 :: nat} \<le> card (avail_z (init_mm_z C s))"
    unfolding av by (rule card_mono) (use last_kernel_init_mm(2) [OF assms(2), of s] in \<open>auto simp: TOTAL_PAGES_def\<close>)
  then show "32 \<le> card (avail_z (init_mm_z C s))" by simp
qed

text \<open>
  \<open>free_user_pages\<close> of the root kernel is given the table of the user pages but uses indices from
  1024 on: it leaves the table as it is and works on the page that follows it.
\<close>

lemma free_user_pages_misses: "pt (free_user_pages_z PT s) PT j = pt s PT j"
proof -
  have one: "pt (set_pte (table_page PT i) k 0 (free_frame_z w s)) PT j = pt s PT j"
    if "TOTAL_PAGES \<le> i" "i < 2 * TOTAL_PAGES" for i k w s
  proof -
    have "i div TOTAL_PAGES = 1" using that by (auto simp: TOTAL_PAGES_def intro: div_nat_eqI)
    then have "table_page PT i \<noteq> PT" by (simp add: table_page_def)
    then show ?thesis by (auto simp: pt_set_pte free_frame_z_def)
  qed
  have "pt (fold (\<lambda>pag s. let i = PAG_LOG_INIT_DATA_z + pag;
           s = free_frame_z (pte_pbase_addr (pt s (table_page PT i) (i mod TOTAL_PAGES))) s
       in set_pte (table_page PT i) (i mod TOTAL_PAGES) 0 s) ps s) PT j = pt s PT j" if "\<forall>p\<in>set ps. p < 20" for ps
    using that by (induction ps arbitrary: s) (simp_all add: Let_def one PAG_LOG_INIT_DATA_z_def TOTAL_PAGES_def)
  then show ?thesis unfolding free_user_pages_z_def by (simp add: NUM_PAG_DATA_def)
qed

section \<open>Console output\<close>

text \<open>The memory a system call reads, and the range it can read without a page fault.\<close>

definition mem_z :: "zeos \<Rightarrow> memory" where
  "mem_z s = (if bit (cr0 s) 31 then lin s else phys_lin s)"

definition readable_z :: "DWord \<Rightarrow> nat \<Rightarrow> zeos \<Rightarrow> bool" where
  "readable_z a n s \<longleftrightarrow> (bit (cr0 s) 31 \<longrightarrow> readable a n s)"

lemma copy_in_z: "readable_z a n s \<Longrightarrow> copy_in_z a n s = Some (\<lambda>i. mem_z s (a + of_nat i))"
  by (auto simp: copy_in_z_def copy_in_def readable_z_def mem_z_def)

lemma mem_z_scr [simp]: "mem_z (s\<lparr>scr := sc\<rparr>) = mem_z s" "readable_z a n (s\<lparr>scr := sc\<rparr>) = readable_z a n s"
proof -
  have "phys_lin (s\<lparr>scr := sc\<rparr>) = phys_lin s" by (rule ext) (simp add: phys_lin_def)
  then show "mem_z (s\<lparr>scr := sc\<rparr>) = mem_z s" by (simp add: mem_z_def)
  show "readable_z a n (s\<lparr>scr := sc\<rparr>) = readable_z a n s" by (simp add: readable_z_def)
qed

lemma readable_z_add:
  "readable_z a (k + n) s \<longleftrightarrow> readable_z a k s \<and> readable_z (a + of_nat k) n s"
  by (auto simp: readable_z_def readable_add)

lemma write_loop_readable:
  assumes "readable_z (a + of_nat off) n s"
  shows "write_loop a (int n) (int off) s =
    Some (int (off + n), s\<lparr>scr := fold printc (out_bytes (mem_z s) (a + of_nat off) n) (scr s)\<rparr>)"
  using assms
proof (induction n arbitrary: off s rule: less_induct)
  case (less n)
  show ?case
  proof (cases "n = 0")
    case True
    then show ?thesis by (subst write_loop.simps) (simp add: out_bytes_def)
  next
    case False
    define k where "k = min n 256"
    have k: "0 < k" "k \<le> n" "(if int n > 256 then 256 else int n) = int k" using False by (auto simp: k_def)
    let ?s = "s\<lparr>scr := fold printc (out_bytes (mem_z s) (a + of_nat off) k) (scr s)\<rparr>"
    have r: "readable_z (a + of_nat off) k s" "readable_z (a + of_nat (off + k)) (n - k) s"
      using less.prems k(2) readable_z_add [of "a + of_nat off" k "n - k" s] by (simp_all add: add.assoc)
    have "write_loop a (int n) (int off) s = write_loop a (int (n - k)) (int (off + k)) ?s"
      using k copy_in_z [OF r(1)] console_out [of "mem_z s" "a + of_nat off" k]
      by (subst write_loop.simps) (simp add: k(3) of_nat_diff Let_def)
    also have "\<dots> = Some (int (off + k + (n - k)), ?s\<lparr>scr := fold printc (out_bytes (mem_z ?s) (a + of_nat (off + k)) (n - k)) (scr ?s)\<rparr>)"
      using less.IH [of "n - k" "off + k" ?s] k False r(2) by simp
    finally show ?thesis
      using k(2) out_bytes_split [of "mem_z s" "a + of_nat off" k "n - k"] by (simp add: add.assoc)
  qed
qed

section \<open>Properties\<close>

text \<open>The root kernel's physical memory right after \<open>init_mm\<close> on a small image, for the witnesses.\<close>

definition zeos_cfg :: zcfg where
  "zeos_cfg = \<lparr>sys_size = 0x8000, usr_size = 0x1000, show_PT_range = (\<lambda>_ _ _ _ sc. sc),
     show_clock_z = id, after_char_map_z = (\<lambda>_. 0)\<rparr>"

definition some_task_z :: task_struct_z where
  "some_task_z = \<lparr>PID_z = 0, dir_pages_baseAddr_z = 0, state_z = ST_READY, kernel_esp_z = None\<rparr>"


definition zeos_blank :: zeos where
  "zeos_blank = \<lparr>phys_mem = replicate 1024 0, pt = (\<lambda>_ _. 0), cr3 = 0, cr0 = 0,
     fmem = (\<lambda>_ _. 0), stacks = (\<lambda>_ _. Num 0), links = \<lparr>nxt = (\<lambda>_. None), prv = (\<lambda>_. None)\<rparr>,
     esp = (0, 0), ebp = Num 0, ebx = Num 0, esi = Num 0, edi = Num 0, eax = 0, eip = Num 0,
     tss_esp0 = (0, 0), msr_175 = (0, 0), tsc = (\<lambda>n. (of_nat n, 0)), tsc_pos = 0,
     scr = initial_screen (\<lambda>_. 0), first_kernel = 0, last_kernel = 0, tasks_z = (\<lambda>_. some_task_z),
     init_task = None, idle_task_z = None, zeos_ticks_z = 0\<rparr>"






text \<open>C29. The system call entry of the root kernel rejects every number outside its table: such a number,
  and a number of the table without a service, delivers \<open>-ENOSYS\<close> and changes nothing but registers.
  \<open>gettime\<close> and \<open>getpid\<close> deliver the tick counter and the identifier of the calling task.\<close>

theorem syscall_z_dispatch:
  assumes "n \<notin> {4, 10, 20}"
  shows "(\<exists>s'. system_call_handler_z n args s = Some s' \<and> eax s' = - ENOSYS \<and> s' = s\<lparr>eax := eax s', esp := esp s'\<rparr>) \<and>
    (\<exists>s'. system_call_handler_z 10 args s = Some s' \<and> eax s' = zeos_ticks_z s) \<and>
    (\<exists>s'. system_call_handler_z 20 args s = Some s' \<and> eax s' = PID_z (tasks_z s (fst (tss_esp0 s))))"
proof (intro conjI)
  have c: "MAX_SYSCALL_z = 21" by (simp add: MAX_SYSCALL_z_def sys_call_table_z_def)
  have "sys_call_table_z ! nat n = Ni_z" if "0 \<le> n" "n < 21"
    using that assms by (auto simp: sys_call_table_z_def nth_list_update nat_eq_iff)
  then show "\<exists>s'. system_call_handler_z n args s = Some s' \<and> eax s' = - ENOSYS \<and> s' = s\<lparr>eax := eax s', esp := esp s'\<rparr>"
    by (auto simp: system_call_handler_z_def Let_def c sys_ni_syscall_z_def ENOSYS_def drop_words_def)
  show "\<exists>s'. system_call_handler_z 10 args s = Some s' \<and> eax s' = zeos_ticks_z s"
    and "\<exists>s'. system_call_handler_z 20 args s = Some s' \<and> eax s' = PID_z (tasks_z s (fst (tss_esp0 s)))"
    by (simp_all add: system_call_handler_z_def Let_def c sys_call_table_z_def sys_gettime_z_def sys_getpid_z_def
        drop_words_def)
qed

theorem syscall_z_dispatch_witness:
  "\<exists>s'. system_call_handler_z 21 (1, 0, 0) zeos_blank = Some s' \<and> eax s' = - ENOSYS"
proof -
  have "(21 :: int) \<notin> {4, 10, 20}" by simp
  from syscall_z_dispatch [OF this, of "(1, 0, 0)" zeos_blank] show ?thesis by blast
qed

text \<open>C30. The boot sequence of the root kernel initialises the idle task before the first process: with
  \<open>init_task\<close> still null, as it is at power-on, \<open>init_idle\<close> reads through the null pointer, whatever
  the image and the memory. With the two calls exchanged both return.\<close>

theorem boot_z_null_init_task:
  assumes "init_task s = None" and "length (phys_mem s) = TOTAL_PAGES"
    and "unat (sys_size C) + unat (usr_size C) \<le> 0x380000"
  shows "main_z C img s = None \<and>
    (\<exists>s1 s2. init_task1_z C (init_mm_z C s) = Some s1 \<and> init_idle_z s1 = Some s2)"
proof
  have al: "init_task (snd (alloc_frame_z s)) = init_task s" for s
    by (cases rule: alloc_frame_z_cases [of s]) simp_all
  have idle: "init_idle_z s = None \<longleftrightarrow> init_task s = None" for s
    using al [of s] al [of "snd (alloc_frame_z s)"]
    by (cases "init_task s") (simp_all add: init_idle_z_def Let_def case_prod_beta list_code)
  have h: "\<exists>h. init_sched_z s = Some (s\<lparr>links := h\<rparr>)" for s
    by (simp add: init_sched_z_def list_code) blast
  let ?s = "init_mm_z C (s\<lparr>scr := printk (str ''Kernel Loaded!    '') (scr s)\<rparr>)"
  obtain h where h: "init_sched_z ?s = Some (?s\<lparr>links := h\<rparr>)" using h by blast
  have "init_task (?s\<lparr>links := h\<rparr>) = None" using assms(1) by (simp add: init_mm_z_def init_frames_z_def Let_def)
  then have "init_idle_z (?s\<lparr>links := h\<rparr>) = None" by (simp add: idle)
  then show "main_z C img s = None" by (simp add: main_z_def h)
  obtain s1 t where s1: "init_task1_z C (init_mm_z C s) = Some s1" "init_task s1 = Some t"
    by (rule init_task1_space [OF init_mm_frames(1,3) [OF assms(2,3)], of C]) (rule that, assumption+)
  then show "\<exists>s1 s2. init_task1_z C (init_mm_z C s) = Some s1 \<and> init_idle_z s1 = Some s2"
    using idle [of s1] by auto
qed

theorem boot_z_null_init_task_witness:
  "main_z zeos_cfg [1, 2] zeos_blank = None \<and>
   (\<exists>s1 s2. init_task1_z zeos_cfg (init_mm_z zeos_cfg zeos_blank) = Some s1 \<and> init_idle_z s1 = Some s2)"
  using boot_z_null_init_task [of zeos_blank zeos_cfg "[1, 2]"]
  by (simp add: zeos_blank_def zeos_cfg_def TOTAL_PAGES_def)

end
