(* ===== verification/User_Root.thy ===== *)
theory User_Root
  imports User_Spec Root_Facts
begin

text \<open>
  The root kernel under its user program: the traps of the program are the entry points of \<^verbatim>\<open>entry.S\<close>,
  and the clock interrupts the processor while the program counts. The program has the bytes of a buffer
  at the start of its data pages when it makes the call. The kernel keeps the contract
  \<open>console_kernel\<close>, so that the output of \<^verbatim>\<open>user.c\<close> is known to the last byte.
\<close>

section \<open>The kernel as the program sees it\<close>

definition L_USER_START_z :: DWord where
  "L_USER_START_z = 0x400000"

fun zeos_trap :: "gate \<Rightarrow> int \<Rightarrow> int \<times> Byte list \<times> int \<Rightarrow> zeos \<Rightarrow> (int \<times> zeos) option" where
  "zeos_trap g n (a, b, c) s = do {
     s \<leftarrow> copy_out_z L_USER_START_z b s;
     s \<leftarrow> (case g of
         Int80 \<Rightarrow> system_call_handler_z n (a, L_USER_START_z, c) s
       | Sysenter \<Rightarrow> syscall_handler_sysenter_z n (a, L_USER_START_z, c) s);
     Some (eax s, s)
   }"

declare zeos_trap.simps [simp del]

definition zeos_sys :: "zcfg \<Rightarrow> nat \<Rightarrow> zeos sys" where
  "zeos_sys C ticks = \<lparr>trap = zeos_trap, spin = clock_handler_z C ^^ ticks\<rparr>"

definition zeos_ok :: "zeos \<Rightarrow> bool" where
  "zeos_ok s \<longleftrightarrow> \<not> bit (cr0 s) 31 \<and> fst (msr_175 s) = fst (tss_esp0 s)"

definition zeos_view :: "zeos \<Rightarrow> kview" where
  "zeos_view s = \<lparr>v_out = port_e9 (scr s), v_pid = PID_z (tasks_z s (fst (tss_esp0 s))),
     v_time = zeos_ticks_z s, v_fork = False\<rparr>"

section \<open>Physical memory\<close>

lemma poke_phys_fields:
  "poke_phys a bs s = s\<lparr>fmem := fmem (poke_phys a bs s)\<rparr>"
proof (induction bs arbitrary: a s)
  case (Cons b bs)
  show ?case unfolding poke_phys.simps by (subst Cons.IH) simp
qed simp

lemma phys_lin_store:
  "phys_lin (s\<lparr>fmem := (fmem s)(drop_bit 12 a := (fmem s (drop_bit 12 a))(unat a mod PAGE_SIZE := b))\<rparr>) =
   (phys_lin s)(a := b)"
proof
  fix x
  have "x = a" if "drop_bit 12 x = drop_bit 12 a" "unat x mod PAGE_SIZE = unat a mod PAGE_SIZE"
  proof -
    have "drop_bit 12 (unat x) = drop_bit 12 (unat a)" using that(1) by (metis unat_drop_bit_eq)
    then have "unat x div 4096 = unat a div 4096" by (simp add: drop_bit_eq_div)
    then have "unat x = unat a" using that(2) by (metis PAGE_SIZE_def div_mult_mod_eq)
    then show ?thesis by (simp add: word_unat_eq_iff)
  qed
  then show "phys_lin (s\<lparr>fmem := (fmem s)(drop_bit 12 a := (fmem s (drop_bit 12 a))(unat a mod PAGE_SIZE := b))\<rparr>) x =
      ((phys_lin s)(a := b)) x"
    by (auto simp: phys_lin_def)
qed

lemma phys_lin_poke:
  assumes "unat a + length bs < 2 ^ 32"
  shows "phys_lin (poke_phys a bs s) x =
    (if unat a \<le> unat x \<and> unat x < unat a + length bs then bs ! (unat x - unat a) else phys_lin s x)"
  using assms
proof (induction bs arbitrary: a s)
  case (Cons b bs)
  have a: "unat (a + 1) = unat a + 1" using Cons.prems by (simp add: unat_word_ariths)
  show ?case
    using Cons.IH [of "a + 1"] a Cons.prems by (auto simp: phys_lin_store nth_Cons' word_unat_eq_iff [of x a])
qed auto

section \<open>The contract holds\<close>

text \<open>With paging off a buffer is stored where it is read.\<close>

lemma copy_out_phys:
  assumes "zeos_ok s" and "length b \<le> 256"
  obtains s' where "copy_out_z L_USER_START_z b s = Some s'" and "zeos_ok s'" and "zeos_view s' = zeos_view s"
    and "out_bytes (mem_z s') L_USER_START_z (length b) = b"
proof -
  let ?s = "poke_phys L_USER_START_z b s"
  have f: "?s = s\<lparr>fmem := fmem ?s\<rparr>" by (rule poke_phys_fields)
  have c: "cr0 ?s = cr0 s" "msr_175 ?s = msr_175 s" "tss_esp0 ?s = tss_esp0 s" by (subst f, simp)+
  have v: "zeos_view ?s = zeos_view s" by (subst f) (simp add: zeos_view_def)
  have "mem_z ?s (L_USER_START_z + of_nat i) = b ! i" if "i < length b" for i
  proof -
    have "unat (L_USER_START_z + of_nat i) = unat L_USER_START_z + i"
      using that assms(2) by (simp add: L_USER_START_z_def unat_word_ariths unsigned_of_nat take_bit_nat_eq_self)
    then show ?thesis
      using that assms c phys_lin_poke [of L_USER_START_z b s "L_USER_START_z + of_nat i"]
      by (simp add: mem_z_def zeos_ok_def L_USER_START_z_def)
  qed
  then have "out_bytes (mem_z ?s) L_USER_START_z (length b) = b" by (auto simp: out_bytes_def intro: nth_equalityI)
  moreover have "copy_out_z L_USER_START_z b s = Some ?s" using assms(1) by (simp add: copy_out_z_def zeos_ok_def)
  ultimately show ?thesis using assms(1) c v by (intro that [of ?s]) (simp_all add: zeos_ok_def)
qed

text \<open>Both entry points run the service of the table on the stack of the process.\<close>

lemma zeos_trap_service:
  assumes "zeos_ok s" and "length b \<le> 256" and "n \<in> {4, 10, 20}"
  obtains s' where "zeos_ok s'" and "zeos_view s' = zeos_view s" and "fst (esp s') = fst (tss_esp0 s')"
    and "out_bytes (mem_z s') L_USER_START_z (length b) = b"
    and "zeos_trap g n (a, b, c) s = do {
      (v, s) \<leftarrow> do_syscall_z (sys_call_table_z ! nat n) (a, L_USER_START_z, c) s';
      Some (v, drop_words 16 (s\<lparr>eax := v\<rparr>)) }"
proof -
  obtain s1 where s1: "copy_out_z L_USER_START_z b s = Some s1" "zeos_ok s1" "zeos_view s1 = zeos_view s"
      "out_bytes (mem_z s1) L_USER_START_z (length b) = b"
    by (rule copy_out_phys [OF assms(1,2)])
  define s' where "s' = s1\<lparr>esp := (case g of Int80 \<Rightarrow> (fst (tss_esp0 s1), snd (tss_esp0 s1) - 16)
    | Sysenter \<Rightarrow> (fst (msr_175 s1), snd (msr_175 s1) - 16))\<rparr>"
  have m: "mem_z s' = mem_z s1" using s1(2) by (simp add: s'_def mem_z_def zeos_ok_def phys_lin_def fun_eq_iff)
  have r: "\<not> n < 0" "\<not> MAX_SYSCALL_z \<le> n" using assms(3) by (auto simp: MAX_SYSCALL_z_def sys_call_table_z_def)
  show ?thesis
  proof (rule that [of s'])
    show "zeos_ok s'" "zeos_view s' = zeos_view s" using s1(2,3) by (simp_all add: s'_def zeos_ok_def zeos_view_def)
    show "fst (esp s') = fst (tss_esp0 s')" using s1(2) by (cases g) (simp_all add: s'_def zeos_ok_def)
    show "out_bytes (mem_z s') L_USER_START_z (length b) = b" using m s1(4) by simp
    show "zeos_trap g n (a, b, c) s = do {
      (v, s) \<leftarrow> do_syscall_z (sys_call_table_z ! nat n) (a, L_USER_START_z, c) s';
      Some (v, drop_words 16 (s\<lparr>eax := v\<rparr>)) }"
      using s1(1) r by (cases g)
        (simp_all add: zeos_trap.simps s'_def system_call_handler_z_def syscall_handler_sysenter_z_def Let_def drop_words_def split: bind_splits)
  qed
qed

lemma zeos_view_out [simp]:
  "zeos_ok (drop_words n (s\<lparr>eax := v\<rparr>)) = zeos_ok s" "zeos_view (drop_words n (s\<lparr>eax := v\<rparr>)) = zeos_view s"
  by (simp_all add: zeos_ok_def zeos_view_def drop_words_def)

lemma zeos_write:
  assumes "zeos_ok s" and "0 \<le> n" and "nat n \<le> length b" and "length b \<le> 256"
  shows "yields (zeos_trap g 4 (1, b, n) s)
    (\<lambda>(r, s'). r = n \<and> zeos_ok s' \<and> zeos_view s' = add_out (take (nat n) b) (zeos_view s))"
proof (rule zeos_trap_service [OF assms(1,4), of 4 g 1 n])
  fix s1
  assume s1: "zeos_ok s1" "zeos_view s1 = zeos_view s" "out_bytes (mem_z s1) L_USER_START_z (length b) = b"
    and t: "zeos_trap g 4 (1, b, n) s = do {
      (v, s) \<leftarrow> do_syscall_z (sys_call_table_z ! nat 4) (1, L_USER_START_z, n) s1;
      Some (v, drop_words 16 (s\<lparr>eax := v\<rparr>)) }"
  let ?w = "out_bytes (mem_z s1) L_USER_START_z (nat n)"
  have w: "?w = take (nat n) b"
    using out_bytes_split [of "mem_z s1" L_USER_START_z "nat n" "length b - nat n"] s1(3) assms(3)
    by (metis append_eq_conv_conj le_add_diff_inverse length_out_bytes)
  have n: "n \<le> 256" "access_ok_z VERIFY_READ L_USER_START_z (word_of_int n) \<noteq> 0"
  proof -
    show n: "n \<le> 256" using assms by linarith
    have "unat (L_USER_START_z + word_of_int n :: DWord) = 0x400000 + nat n"
      using n assms(2) by (simp add: L_USER_START_z_def unat_word_ariths unsigned_of_int nat_mod_as_int take_bit_int_eq_self)
    then have "unat (L_USER_START_z + word_of_int n :: DWord) div 4096 = 1024" using n by (auto intro!: div_nat_eqI)
    moreover have "unat L_USER_START_z div 4096 = 1024" "PAG_LOG_INIT_DATA_z = 1024"
      by (simp_all add: L_USER_START_z_def PAG_LOG_INIT_DATA_z_def drop_bit_12_div)
    ultimately show "access_ok_z VERIFY_READ L_USER_START_z (word_of_int n) \<noteq> 0"
      by (simp add: access_ok_z_def drop_bit_12_div)
  qed
  have "sys_write_z 1 L_USER_START_z n s1 = Some (n, s1\<lparr>scr := fold printc ?w (scr s1)\<rparr>)"
    using write_loop_readable [of L_USER_START_z 0 "nat n" s1] n assms(2) s1(1)
    by (simp add: sys_write_z_def check_fd_z_def readable_z_def zeos_ok_def L_USER_START_z_def)
  moreover have "port_e9 (fold printc cs sc) = port_e9 sc @ cs" for cs sc
    by (induction cs arbitrary: sc) simp_all
  ultimately show ?thesis
    using s1 by (simp add: t sys_call_table_z_def w zeos_ok_def zeos_view_def add_out_def drop_words_def)
qed simp

lemma zeos_other_calls:
  assumes "zeos_ok s"
  shows "fd \<noteq> 1 \<Longrightarrow> length b \<le> 256 \<Longrightarrow> yields (zeos_trap g 4 (fd, b, n) s)
      (\<lambda>(r, s'). r = - EBADF \<and> zeos_ok s' \<and> zeos_view s' = zeos_view s)"
    and "yields (zeos_trap g 10 (0, [], 0) s) (\<lambda>(r, s'). r = v_time (zeos_view s) \<and> zeos_ok s' \<and> zeos_view s' = zeos_view s)"
    and "yields (zeos_trap g 20 (0, [], 0) s) (\<lambda>(r, s'). r = v_pid (zeos_view s) \<and> zeos_ok s' \<and> zeos_view s' = zeos_view s)"
proof -
  have table: "sys_call_table_z ! nat 4 = Write_z" "sys_call_table_z ! nat 10 = Gettime_z" "sys_call_table_z ! nat 20 = Getpid_z"
    by (simp_all add: sys_call_table_z_def)
  show "yields (zeos_trap g 4 (fd, b, n) s) (\<lambda>(r, s'). r = - EBADF \<and> zeos_ok s' \<and> zeos_view s' = zeos_view s)"
    if "fd \<noteq> 1" "length b \<le> 256"
    by (rule zeos_trap_service [OF assms that(2), of 4 g fd n])
      (simp_all only: table, simp_all add: that(1) sys_write_z_def check_fd_z_def EBADF_def)
  show "yields (zeos_trap g 10 (0, [], 0) s) (\<lambda>(r, s'). r = v_time (zeos_view s) \<and> zeos_ok s' \<and> zeos_view s' = zeos_view s)"
    by (rule zeos_trap_service [OF assms, of "[]" 10 g 0 0])
      (simp_all only: table, simp_all add: sys_gettime_z_def, simp add: zeos_view_def)
  show "yields (zeos_trap g 20 (0, [], 0) s) (\<lambda>(r, s'). r = v_pid (zeos_view s) \<and> zeos_ok s' \<and> zeos_view s' = zeos_view s)"
    by (rule zeos_trap_service [OF assms, of "[]" 20 g 0 0])
      (simp_all only: table, simp_all add: sys_getpid_z_def, simp add: zeos_view_def)
qed

lemma clock_ticks_view:
  assumes "clock_appends (show_clock_z C)" and "zeos_ok s"
    and "0 \<le> zeos_ticks_z s" and "zeos_ticks_z s + int n < 2 ^ 31"
  shows "zeos_ok ((clock_handler_z C ^^ n) s) \<and> (\<exists>w. zeos_view ((clock_handler_z C ^^ n) s) =
    (add_out w (zeos_view s))\<lparr>v_time := zeos_ticks_z s + int n\<rparr>)"
  using assms(2-4)
proof (induction n arbitrary: s)
  case 0
  then show ?case by (auto simp: zeos_view_def add_out_def)
next
  case (Suc n)
  let ?s = "clock_handler_z C s"
  obtain w where w: "port_e9 (show_clock_z C (scr s)) = port_e9 (scr s) @ w"
    using assms(1) by (auto simp: clock_appends_def)
  have s: "zeos_ok ?s" "zeos_ticks_z ?s = zeos_ticks_z s + 1"
    "zeos_view ?s = (add_out w (zeos_view s))\<lparr>v_time := zeos_ticks_z s + 1\<rparr>"
    using Suc.prems w by (simp_all add: clock_handler_z_def clock_routine_z_def Let_def drop_words_def zeos_ok_def
        zeos_view_def add_out_def)
  show ?case using Suc.IH [OF s(1)] Suc.prems s by (fastforce simp: funpow_swap1 add_ac)
qed

locale root_program =
  fixes C :: zcfg and ticks :: nat
  assumes appends: "clock_appends (show_clock_z C)"

sublocale root_program \<subseteq> zu: console_kernel "zeos_sys C ticks" zeos_ok zeos_view "int ticks"
proof
  fix k g b n fd
  show "yields (trap (zeos_sys C ticks) g 4 (1, b, n) k)
      (\<lambda>(r, k'). r = n \<and> zeos_ok k' \<and> zeos_view k' = add_out (take (nat n) b) (zeos_view k))"
    if "zeos_ok k" "0 \<le> n" "nat n \<le> length b" "length b \<le> 256"
    using zeos_write [OF that] by (simp add: zeos_sys_def)
  show "yields (trap (zeos_sys C ticks) g 4 (fd, b, n) k) (\<lambda>(r, k'). r = - EBADF \<and> zeos_ok k' \<and> zeos_view k' = zeos_view k)"
    if "zeos_ok k" "fd \<noteq> 1" "length b \<le> 256"
    using zeos_other_calls(1) [OF that] by (simp add: zeos_sys_def)
  show "yields (trap (zeos_sys C ticks) g 10 (0, [], 0) k)
      (\<lambda>(r, k'). r = v_time (zeos_view k) \<and> zeos_ok k' \<and> zeos_view k' = zeos_view k)" if "zeos_ok k"
    using zeos_other_calls(2) [OF that] by (simp add: zeos_sys_def)
  show "yields (trap (zeos_sys C ticks) g 20 (0, [], 0) k)
      (\<lambda>(r, k'). r = v_pid (zeos_view k) \<and> zeos_ok k' \<and> zeos_view k' = zeos_view k)" if "zeos_ok k"
    using zeos_other_calls(3) [OF that] by (simp add: zeos_sys_def)
  show "zeos_ok (spin (zeos_sys C ticks) k) \<and> (\<exists>w. zeos_view (spin (zeos_sys C ticks) k) =
      (add_out w (zeos_view k))\<lparr>v_time := v_time (zeos_view k) + int ticks\<rparr>)"
    if "zeos_ok k" "0 \<le> v_time (zeos_view k)" "v_time (zeos_view k) + int ticks < 2 ^ 31"
    using clock_ticks_view [OF appends that(1), of ticks] that(2,3) by (simp add: zeos_sys_def zeos_view_def)
qed simp

context root_program
begin

lemma program_out:
  assumes "zeos_ok s" and "v_pid (zeos_view s) = 1" and "0 \<le> v_time (zeos_view s)"
    and "v_time (zeos_view s) + int ticks < 2 ^ 31" and "length b = 24"
  shows "yields (user_main_z (zeos_sys C ticks) \<lparr>kern = s, errno = e, pid = p, buff_z = b\<rparr>)
    (\<lambda>u. \<exists>w. v_out (zeos_view (kern u)) =
      v_out (zeos_view s) @ time_report (v_time (zeos_view s)) (int ticks) w @ call_report 1)"
  using zu.user_main_z_out [of "\<lparr>kern = s, errno = e, pid = p, buff_z = b\<rparr>"] assms by simp

end

interpretation zp: root_program zeos_cfg ticks for ticks
  by unfold_locales (simp add: clock_appends_def zeos_cfg_def)

section \<open>Properties\<close>



end
