(* ===== verification/User_Wrappers.thy ===== *)
theory User_Wrappers
  imports Zeos_Prelude
begin

text \<open>
  The system call wrappers instruction by instruction: \<^verbatim>\<open>wrapper.S\<close> of E1_E2, \<^verbatim>\<open>wrappers.S\<close> of the root
  kernel and \<^verbatim>\<open>user-utils.S\<close> of GAME, as lists of instructions over the registers, the user stack and the variable \<open>errno\<close>. The
  kernel is an argument, the value it leaves in \<open>eax\<close> for a number and the argument registers. A trap
  through \<open>int $0x80\<close> preserves the other registers (\<open>SAVE_ALL\<close> and \<open>RESTORE_ALL\<close>); \<open>sysexit\<close> comes back at
  the address in \<open>4(%ebp)\<close> with the stack at \<open>ebp\<close>, and \<open>ecx\<close> and \<open>edx\<close> are lost.
\<close>

unbundle bit_operations_syntax

section \<open>Instructions\<close>

datatype reg = EAX | EBX | ECX | EDX | ESI | EDI | EBP | ESP

datatype instr =
    Push reg
  | PushI DWord
  | Pop reg
  | Mov reg reg                  \<comment> \<open>source, destination\<close>
  | MovI DWord reg
  | LoadF DWord reg              \<comment> \<open>\<open>movl n(%ebp), %reg\<close>\<close>
  | AddEsp DWord
  | Jge nat                      \<comment> \<open>\<open>cmpl $0, %eax; jge\<close> over this many instructions\<close>
  | NegEax
  | StoreErrno                   \<comment> \<open>\<open>movl %eax, errno\<close>\<close>
  | Int80
  | Sysenter DWord               \<comment> \<open>the address of the next instruction\<close>
  | Ret
  | Call DWord                   \<comment> \<open>pushes the address; the code called comes next in the list\<close>
  | RetTo DWord                  \<comment> \<open>the \<open>ret\<close> of that code, with the address it must find\<close>

record ucpu =
  regs :: "reg \<Rightarrow> DWord"
  ustack :: "DWord \<Rightarrow> DWord"
  uerrno :: DWord
  ueip :: DWord

type_synonym answer = "DWord \<Rightarrow> DWord \<times> DWord \<times> DWord \<Rightarrow> DWord"

definition set_reg :: "reg \<Rightarrow> DWord \<Rightarrow> ucpu \<Rightarrow> ucpu" where
  "set_reg r v s = s\<lparr>regs := (regs s)(r := v)\<rparr>"

definition push_word :: "DWord \<Rightarrow> ucpu \<Rightarrow> ucpu" where
  "push_word v s = (let a = regs s ESP - 4 in set_reg ESP a (s\<lparr>ustack := (ustack s)(a := v)\<rparr>))"

definition pop_word :: "ucpu \<Rightarrow> DWord \<times> ucpu" where
  "pop_word s = (ustack s (regs s ESP), set_reg ESP (regs s ESP + 4) s)"

definition answer_of :: "answer \<Rightarrow> ucpu \<Rightarrow> DWord" where
  "answer_of K s = K (regs s EAX) (regs s EDX, regs s ECX, regs s EBX)"

fun exec_instr :: "answer \<Rightarrow> instr \<Rightarrow> ucpu \<Rightarrow> ucpu option" where
  "exec_instr K (Push r) s = Some (push_word (regs s r) s)"
| "exec_instr K (PushI v) s = Some (push_word v s)"
| "exec_instr K (Pop r) s = (let (v, s) = pop_word s in Some (set_reg r v s))"
| "exec_instr K (Mov r r') s = Some (set_reg r' (regs s r) s)"
| "exec_instr K (MovI v r) s = Some (set_reg r v s)"
| "exec_instr K (LoadF n r) s = Some (set_reg r (ustack s (regs s EBP + n)) s)"
| "exec_instr K (AddEsp n) s = Some (set_reg ESP (regs s ESP + n) s)"
| "exec_instr K (Jge n) s = Some s"
| "exec_instr K NegEax s = Some (set_reg EAX (- regs s EAX) s)"
| "exec_instr K StoreErrno s = Some (s\<lparr>uerrno := regs s EAX\<rparr>)"
| "exec_instr K Int80 s = Some (set_reg EAX (answer_of K s) s)"
| "exec_instr K (Sysenter next) s =
     (if ustack s (regs s EBP + 4) = next
      then Some (set_reg ESP (regs s EBP) (set_reg ECX (regs s EBP) (set_reg EDX next (set_reg EAX (answer_of K s) s))))
      else None)"
| "exec_instr K Ret s = (let (v, s) = pop_word s in Some (s\<lparr>ueip := v\<rparr>))"
| "exec_instr K (Call l) s = Some (push_word l s)"
| "exec_instr K (RetTo l) s = (let (v, s) = pop_word s in if v = l then Some s else None)"

definition skipped :: "instr \<Rightarrow> ucpu \<Rightarrow> nat" where
  "skipped i s = (case i of Jge n \<Rightarrow> if 0 \<le>s regs s EAX then n else 0 | _ \<Rightarrow> 0)"

function exec_code :: "answer \<Rightarrow> instr list \<Rightarrow> ucpu \<Rightarrow> ucpu option" where
  "exec_code K [] s = Some s"
| "exec_code K (i # is) s =
     (case exec_instr K i s of
        None \<Rightarrow> None
      | Some s' \<Rightarrow> exec_code K (drop (skipped i s) is) s')"
  by pat_completeness auto
termination by (relation "measure (\<lambda>(K, is, s). length is)") auto

section \<open>The wrappers of E1_E2\<close>

definition SAVE_REG :: "instr list" where
  "SAVE_REG = [Push EBX, Push ECX, Push EDX]"

definition RESTORE_REG :: "instr list" where
  "RESTORE_REG = [Pop EDX, Pop ECX, Pop EBX]"

definition enter_frame :: "instr list" where
  "enter_frame = [Push EBP, Mov ESP EBP]"

definition leave_frame :: "instr list" where
  "leave_frame = [Mov EBP ESP, Pop EBP, Ret]"

definition check_errno :: "instr list" where
  "check_errno = [Jge 3, NegEax, StoreErrno, MovI (-1) EAX]"

text \<open>The frame a fast call leaves for the kernel: the address to come back to, and a dynamic link.\<close>

definition fast_trap :: "DWord \<Rightarrow> instr list" where
  "fast_trap ret_address = [PushI ret_address, Push EBP, Mov ESP EBP, Sysenter ret_address, Pop EBP, AddEsp 4]"

definition write_code :: "instr list" where
  "write_code = enter_frame @ SAVE_REG @ [LoadF 8 EDX, LoadF 12 ECX, LoadF 16 EBX, MovI 4 EAX, Int80] @
     check_errno @ RESTORE_REG @ leave_frame"

definition gettime_code :: "instr list" where
  "gettime_code = enter_frame @ SAVE_REG @ [MovI 10 EAX, Int80] @ check_errno @ RESTORE_REG @ leave_frame"

definition getpid_code :: "instr list" where
  "getpid_code = enter_frame @ SAVE_REG @ [MovI 20 EAX, Int80] @ RESTORE_REG @ leave_frame"

definition fork_code :: "instr list" where
  "fork_code = enter_frame @ SAVE_REG @ [MovI 2 EAX, Int80] @ check_errno @ RESTORE_REG @ leave_frame"

definition exit_code :: "instr list" where
  "exit_code = enter_frame @ SAVE_REG @ [MovI 1 EAX, Int80] @ RESTORE_REG @ leave_frame"

definition block_code :: "instr list" where
  "block_code = enter_frame @ SAVE_REG @ [MovI 12 EAX, Int80] @ RESTORE_REG @ leave_frame"

definition unblock_code :: "instr list" where
  "unblock_code = enter_frame @ SAVE_REG @ [LoadF 8 EDX, MovI 13 EAX, Int80] @ check_errno @ RESTORE_REG @ leave_frame"

definition write_f_code :: "DWord \<Rightarrow> instr list" where
  "write_f_code l = enter_frame @ [MovI 4 EAX] @ SAVE_REG @ [LoadF 8 EDX, LoadF 12 ECX, LoadF 16 EBX] @
     fast_trap l @ RESTORE_REG @ check_errno @ leave_frame"

definition gettime_f_code :: "DWord \<Rightarrow> instr list" where
  "gettime_f_code l = enter_frame @ [MovI 10 EAX] @ SAVE_REG @ fast_trap l @ RESTORE_REG @ check_errno @
     RESTORE_REG @ leave_frame"

definition getpid_f_code :: "DWord \<Rightarrow> instr list" where
  "getpid_f_code l = enter_frame @ [MovI 20 EAX] @ SAVE_REG @ fast_trap l @ RESTORE_REG @ check_errno @ leave_frame"

definition fork_f_code :: "DWord \<Rightarrow> instr list" where
  "fork_f_code l = enter_frame @ [MovI 2 EAX] @ SAVE_REG @ fast_trap l @ RESTORE_REG @ check_errno @ leave_frame"

definition exit_f_code :: "DWord \<Rightarrow> instr list" where
  "exit_f_code l = enter_frame @ [MovI 1 EAX] @ SAVE_REG @ fast_trap l @ RESTORE_REG @ leave_frame"

definition block_f_code :: "DWord \<Rightarrow> instr list" where
  "block_f_code l = enter_frame @ [MovI 12 EAX] @ SAVE_REG @ fast_trap l @ RESTORE_REG @ leave_frame"

definition unblock_f_code :: "DWord \<Rightarrow> instr list" where
  "unblock_f_code l = enter_frame @ [MovI 13 EAX] @ SAVE_REG @ [LoadF 8 EDX] @ fast_trap l @ RESTORE_REG @
     check_errno @ leave_frame"

section \<open>The wrappers of the root kernel\<close>

definition SAVE_REGISTERS :: "instr list" where
  "SAVE_REGISTERS = [Push EBP, Push EDI, Push ESI, Push EBX, Push ECX, Push EDX]"

definition RESTORE_REGISTERS :: "instr list" where
  "RESTORE_REGISTERS = [Pop EDX, Pop ECX, Pop EBX, Pop ESI, Pop EDI, Pop EBP]"

definition gettime_code_z :: "instr list" where
  "gettime_code_z = enter_frame @ SAVE_REGISTERS @ [MovI 10 EAX, Int80] @ check_errno @ RESTORE_REGISTERS @ leave_frame"

definition getpid_code_z :: "instr list" where
  "getpid_code_z = enter_frame @ SAVE_REGISTERS @ [MovI 20 EAX, Int80] @ check_errno @ RESTORE_REGISTERS @ leave_frame"

definition write_code_z :: "DWord \<Rightarrow> instr list" where
  "write_code_z l = enter_frame @ [Push EBX, Push ESI, Push EDI, Push ECX, Push EDX,
     LoadF 8 EDX, LoadF 12 ECX, LoadF 16 EBX, MovI 4 EAX,
     MovI l ESI, Push ESI, Push EBP, Mov ESP EBP, Sysenter l, AddEsp 8,
     Pop EDX, Pop ECX, Pop EDI, Pop ESI, Pop EBX, Pop EBP] @ check_errno @ [Ret]"

section \<open>The wrappers of GAME\<close>

text \<open>
  \<open>l\<close> is the address after the \<open>call\<close> and \<open>r\<close> that of \<open>SYSENTER_RETURN\<close>. The code at \<open>nok\<close> ends with the two
  instructions that also end the wrapper when the answer is not negative. The number
  \<open>SYS_GETKEYBOARDSTATE\<close>, which no file defines, is an argument.
\<close>

definition syscall_sysenter :: "DWord \<Rightarrow> DWord \<Rightarrow> instr list" where
  "syscall_sysenter r l = [Push ECX, Push EDX, PushI r, Push EBP, Mov ESP EBP, Sysenter r,
     Pop EBP, Pop EDX, Pop EDX, Pop ECX, RetTo l]"

definition call_sysenter :: "DWord \<Rightarrow> DWord \<Rightarrow> instr list" where
  "call_sysenter r l = Call l # syscall_sysenter r l"

definition nok :: "instr list" where
  "nok = [Jge 3, NegEax, StoreErrno, MovI (-1) EAX, Pop EBP, Ret]"

definition write_code_g :: "DWord \<Rightarrow> DWord \<Rightarrow> instr list" where
  "write_code_g r l = enter_frame @ [Push EBX, MovI 4 EAX, LoadF 8 EBX, LoadF 12 ECX, LoadF 16 EDX] @
     call_sysenter r l @ [Pop EBX] @ nok"

definition gettime_code_g :: "DWord \<Rightarrow> DWord \<Rightarrow> instr list" where
  "gettime_code_g r l = enter_frame @ [MovI 10 EAX] @ call_sysenter r l @ [Pop EBP, Ret]"

definition getpid_code_g :: "DWord \<Rightarrow> DWord \<Rightarrow> instr list" where
  "getpid_code_g r l = enter_frame @ [MovI 20 EAX] @ call_sysenter r l @ [Pop EBP, Ret]"

definition fork_code_g :: "DWord \<Rightarrow> DWord \<Rightarrow> instr list" where
  "fork_code_g r l = enter_frame @ [MovI 2 EAX] @ call_sysenter r l @ nok"

definition exit_code_g :: "DWord \<Rightarrow> DWord \<Rightarrow> instr list" where
  "exit_code_g r l = enter_frame @ [MovI 1 EAX] @ call_sysenter r l @ [Pop EBP, Ret]"

definition yield_code_g :: "DWord \<Rightarrow> DWord \<Rightarrow> instr list" where
  "yield_code_g r l = enter_frame @ [MovI 13 EAX] @ call_sysenter r l @ [Pop EBP, Ret]"

definition get_stats_code_g :: "DWord \<Rightarrow> DWord \<Rightarrow> instr list" where
  "get_stats_code_g r l = enter_frame @ [Push EBX, MovI 35 EAX, LoadF 8 EBX, LoadF 12 ECX] @
     call_sysenter r l @ [Pop EBX] @ nok"

definition GetKeyboardState_code_g :: "DWord \<Rightarrow> DWord \<Rightarrow> DWord \<Rightarrow> instr list" where
  "GetKeyboardState_code_g SYS_GETKEYBOARDSTATE r l = enter_frame @ [Push EBX, MovI SYS_GETKEYBOARDSTATE EAX, LoadF 8 EBX] @
     call_sysenter r l @ [Pop EBX] @ nok"

section \<open>The calling convention\<close>

text \<open>
  Back in the caller: the registers a function must preserve are as before, the return address is popped and
  the stack is unchanged but for the words below it.
\<close>

definition below :: "DWord \<Rightarrow> DWord set" where
  "below a = {a - 4, a - 8, a - 12, a - 16, a - 20, a - 24, a - 28, a - 32, a - 36, a - 40}"

definition returns :: "ucpu \<Rightarrow> ucpu \<Rightarrow> bool" where
  "returns s s' \<longleftrightarrow> (\<forall>r\<in>{EBX, ESI, EDI, EBP}. regs s' r = regs s r) \<and> regs s' ESP = regs s ESP + 4 \<and>
     ueip s' = ustack s (regs s ESP) \<and> (\<forall>a. a \<notin> below (regs s ESP) \<longrightarrow> ustack s' a = ustack s a)"

definition arg :: "nat \<Rightarrow> ucpu \<Rightarrow> DWord" where
  "arg i s = ustack s (of_nat (4 * i) + regs s ESP)"

text \<open>\<open>r\<close> is what the kernel answered; a negative answer goes to \<open>errno\<close>.\<close>

definition gives_result :: "DWord \<Rightarrow> ucpu \<Rightarrow> ucpu \<Rightarrow> bool" where
  "gives_result r s s' \<longleftrightarrow>
     (if 0 \<le>s r then regs s' EAX = r \<and> uerrno s' = uerrno s else regs s' EAX = -1 \<and> uerrno s' = - r)"

definition gives_answer :: "DWord \<Rightarrow> ucpu \<Rightarrow> ucpu \<Rightarrow> bool" where
  "gives_answer r s s' \<longleftrightarrow> regs s' EAX = r \<and> uerrno s' = uerrno s"

definition calls :: "answer \<Rightarrow> (DWord \<Rightarrow> ucpu \<Rightarrow> ucpu \<Rightarrow> bool) \<Rightarrow> ucpu \<Rightarrow> instr list \<times> DWord \<Rightarrow> bool" where
  "calls K result s = (\<lambda>(code, r). \<exists>s'. exec_code K code s = Some s' \<and> returns s s' \<and> result r s s')"

lemmas code_parts = enter_frame_def leave_frame_def SAVE_REG_def RESTORE_REG_def check_errno_def fast_trap_def
  SAVE_REGISTERS_def RESTORE_REGISTERS_def

lemmas machine_defs = skipped_def push_word_def pop_word_def set_reg_def Let_def answer_of_def

lemmas convention_defs = calls_def returns_def gives_result_def gives_answer_def arg_def below_def

lemmas symbolic = code_parts machine_defs convention_defs

definition plain_args :: "ucpu \<Rightarrow> DWord \<times> DWord \<times> DWord" where
  "plain_args s = (regs s EDX, regs s ECX, regs s EBX)"

lemma int_wrappers:
  "calls K gives_result s (write_code, K 4 (arg 1 s, arg 2 s, arg 3 s))"
  "calls K gives_result s (gettime_code, K 10 (plain_args s))"
  "calls K gives_result s (fork_code, K 2 (plain_args s))"
  "calls K gives_result s (unblock_code, K 13 (arg 1 s, regs s ECX, regs s EBX))"
  "calls K gives_result s (gettime_code_z, K 10 (plain_args s))"
  "calls K gives_result s (getpid_code_z, K 20 (plain_args s))"
  "calls K gives_answer s (getpid_code, K 20 (plain_args s))"
  "calls K gives_answer s (exit_code, K 1 (plain_args s))"
  "calls K gives_answer s (block_code, K 12 (plain_args s))"
  by (simp_all add: symbolic plain_args_def write_code_def gettime_code_def fork_code_def unblock_code_def
      gettime_code_z_def getpid_code_z_def getpid_code_def exit_code_def block_code_def)

lemma fast_wrappers:
  "calls K gives_result s (write_f_code l, K 4 (arg 1 s, arg 2 s, arg 3 s))"
  "calls K gives_result s (getpid_f_code l, K 20 (plain_args s))"
  "calls K gives_result s (fork_f_code l, K 2 (plain_args s))"
  "calls K gives_result s (unblock_f_code l, K 13 (arg 1 s, regs s ECX, regs s EBX))"
  "calls K gives_answer s (exit_f_code l, K 1 (plain_args s))"
  "calls K gives_answer s (block_f_code l, K 12 (plain_args s))"
  "calls K gives_result s (write_code_z l, K 4 (arg 1 s, arg 2 s, arg 3 s))"
  by (simp_all add: symbolic plain_args_def write_f_code_def getpid_f_code_def fork_f_code_def unblock_f_code_def
      exit_f_code_def block_f_code_def write_code_z_def)

lemma game_wrappers:
  "calls K gives_result s (write_code_g r l, K 4 (arg 3 s, arg 2 s, arg 1 s))"
  "calls K gives_result s (fork_code_g r l, K 2 (plain_args s))"
  "calls K gives_result s (get_stats_code_g r l, K 35 (regs s EDX, arg 2 s, arg 1 s))"
  "calls K gives_result s (GetKeyboardState_code_g k r l, K k (regs s EDX, regs s ECX, arg 1 s))"
  "calls K gives_answer s (gettime_code_g r l, K 10 (plain_args s))"
  "calls K gives_answer s (getpid_code_g r l, K 20 (plain_args s))"
  "calls K gives_answer s (exit_code_g r l, K 1 (plain_args s))"
  "calls K gives_answer s (yield_code_g r l, K 13 (plain_args s))"
  by (simp_all add: symbolic call_sysenter_def syscall_sysenter_def nok_def plain_args_def write_code_g_def fork_code_g_def
      get_stats_code_g_def GetKeyboardState_code_g_def gettime_code_g_def getpid_code_g_def exit_code_g_def yield_code_g_def)

lemma gettime_f_loses_ebx:
  "\<exists>s'. exec_code K (gettime_f_code l) s = Some s' \<and> gives_result (K 10 (plain_args s)) s s' \<and>
    regs s' ESP = regs s ESP + 4 \<and> regs s' EBP = regs s EBP \<and> regs s' EBX = arg 1 s"
  by (simp add: symbolic plain_args_def gettime_f_code_def) (simp add: add.commute)

section \<open>Properties\<close>


end
