(* ===== verification/Boot_Sector.thy ===== *)
theory Boot_Sector
  imports Zeos_Mem
begin

text \<open>
  The boot sector \<^verbatim>\<open>bootsect.S\<close>, 16-bit code that moves itself to \<open>0x90000\<close>, reads the
  system from the diskette to \<open>0x10000\<close>, opens the A20 line, programs the interrupt
  controllers and enters protected mode. The services it calls and the devices it asks are
  the argument \<open>bios\<close>: what the disk service does to memory, the bytes the input ports
  deliver and the moment from which the A20 line is open. The variables \<open>sread\<close>, \<open>head\<close> and
  \<open>track\<close>, whose offsets the assembler chooses, are fields of the state; the data after
  \<^verbatim>\<open>.org 435\<close>, whose offsets the source fixes, are read from memory. \<open>None\<close> means that
  control is lost: the loop at \<open>die\<close>, a loop that never ends, or a transfer on top of the
  boot sector's own code.
\<close>

section \<open>Constants and data\<close>

definition SEC_PISTA :: WORD where "SEC_PISTA = 18"
definition SETUPSECS :: Byte where "SETUPSECS = 0"
definition BOOTSEG :: WORD where "BOOTSEG = 0x07C0"
definition INITSEG :: WORD where "INITSEG = 0x9000"
definition SYSSEG :: WORD where "SYSSEG = 0x1000"
definition SYSSIZE :: WORD where "SYSSIZE = 0x7F00"
definition TEST_ADDR :: DWord where "TEST_ADDR = 0x7c"

definition dot_word :: "WORD \<Rightarrow> Byte list" where
  "dot_word w = [ucast w, ucast (drop_bit 8 w)]"

definition boot_gdt :: "Byte list" where
  "boot_gdt =
     concat (map dot_word [0, 0, 0, 0]) @
     concat (map dot_word [0, 0, 0, 0]) @
     dot_word 0xFFFF @ dot_word 0x0000 @ [0x00, 0x9a] @ [0xcf, 0x00] @
     dot_word 0xFFFF @ dot_word 0x0000 @ [0x00, 0x92] @ [0xcf, 0x00] @
     dot_word 0xFFFF @ dot_word 0x0000 @ [0x00, 0xfa] @ [0xcf, 0x00] @
     dot_word 0xFFFF @ dot_word 0x0000 @ [0x00, 0xf2] @ [0xcf, 0x00] @
     concat (map dot_word [104, 0]) @ [0, 0x89, 0, 0]"

text \<open>Everything from \<^verbatim>\<open>.org 435\<close> to the end of the sector.\<close>

definition org_435 :: "Byte list" where
  "org_435 =
     boot_gdt @
     concat (map dot_word [0, 0, 0]) @
     [SETUPSECS] @ dot_word 0 @
     dot_word SYSSIZE @
     dot_word 0x8000 @
     dot_word 435 @ dot_word 0x9 @ dot_word 0 @
     dot_word 0xAA55"

section \<open>State\<close>

record int13_request =
  rq_al :: Byte       \<comment> \<open>sectors\<close>
  rq_ch :: Byte       \<comment> \<open>track\<close>
  rq_cl :: Byte       \<comment> \<open>first sector, from 1\<close>
  rq_dh :: Byte       \<comment> \<open>head\<close>
  rq_dl :: Byte       \<comment> \<open>drive\<close>
  rq_es :: WORD
  rq_bx :: WORD

record bios =
  int13 :: "int13_request \<Rightarrow> memory \<Rightarrow> memory"
  port_in :: "nat \<Rightarrow> WORD \<Rightarrow> Byte"        \<comment> \<open>the byte the \<open>n\<close>-th input delivers\<close>
  a20 :: "nat \<Rightarrow> bool"                     \<comment> \<open>is the line open at the \<open>n\<close>-th test\<close>

record boot =
  bmem :: memory
  b_es :: WORD
  b_bx :: WORD
  sread :: WORD
  head :: WORD
  track :: WORD
  tty :: "Byte list"                      \<comment> \<open>characters written through \<open>int 0x10\<close>\<close>
  cursor_top :: "Byte option"             \<comment> \<open>cursor shape set through \<open>int 0x10\<close>\<close>
  inputs :: nat
  outs :: "(WORD \<times> Byte) list"            \<comment> \<open>bytes written to ports, in order\<close>

definition rm_addr :: "WORD \<Rightarrow> WORD \<Rightarrow> DWord" where
  "rm_addr seg off = push_bit 4 (ucast seg) + ucast off"

definition get16 :: "memory \<Rightarrow> DWord \<Rightarrow> WORD" where
  "get16 m a = ucast (m a) OR push_bit 8 (ucast (m (a + 1)))"

definition get32 :: "memory \<Rightarrow> DWord \<Rightarrow> DWord" where
  "get32 m a = ucast (get16 m a) OR push_bit 16 (ucast (get16 m (a + 2)))"

definition put16 :: "DWord \<Rightarrow> WORD \<Rightarrow> memory \<Rightarrow> memory" where
  "put16 a w m = m(a := ucast w, a + 1 := ucast (drop_bit 8 w))"

definition setup_sects :: "boot \<Rightarrow> Byte" where
  "setup_sects s = bmem s (rm_addr INITSEG 497)"

definition syssize :: "boot \<Rightarrow> WORD" where
  "syssize s = get16 (bmem s) (rm_addr INITSEG 500)"

definition outp :: "WORD \<Rightarrow> Byte \<Rightarrow> boot \<Rightarrow> boot" where
  "outp p v s = s\<lparr>outs := outs s @ [(p, v)]\<rparr>"

section \<open>Reading the system\<close>

definition boot_code_hit :: "int13_request \<Rightarrow> bool" where
  "boot_code_hit q \<longleftrightarrow>
     (let d = unat (rm_addr (rq_es q) (rq_bx q)) in
      d < 0x90200 \<and> 0x90000 < d + 512 * unat (rq_al q))"

definition read_track :: "bios \<Rightarrow> WORD \<Rightarrow> boot \<Rightarrow> boot option" where
  "read_track B ax s =
     (let s = s\<lparr>tty := tty s @ [0x2e]\<rparr>;
          q = \<lparr>rq_al = ucast ax, rq_ch = ucast (track s), rq_cl = ucast (sread s + 1),
               rq_dh = ucast (head s) AND 1, rq_dl = 0, rq_es = b_es s, rq_bx = b_bx s\<rparr>
      in if boot_code_hit q then None else Some (s\<lparr>bmem := int13 B q (bmem s)\<rparr>))"

text \<open>How many sectors the next transfer takes: the rest of the track, or what fits in the segment.\<close>

definition ok1_read :: "boot \<Rightarrow> WORD" where
  "ok1_read s =
     (let ax = SEC_PISTA - sread s;
          cx = push_bit 9 ax;
          carry = 2 ^ 16 \<le> unat cx + unat (b_bx s);
          cx = cx + b_bx s
      in if \<not> carry \<or> cx = 0 then ax else drop_bit 9 (0 - b_bx s))"

definition ok2_read :: "bios \<Rightarrow> WORD \<Rightarrow> boot \<Rightarrow> boot option" where
  "ok2_read B ax s = do {
     s \<leftarrow> read_track B ax s;
     let cx = ax;
     let ax = ax + sread s;
     let s = (if ax = SEC_PISTA then
                let ax = 1 - head s;
                    s = (if ax \<noteq> 0 then s else s\<lparr>track := track s + 1\<rparr>)
                in s\<lparr>head := ax, sread := 0\<rparr>
              else s\<lparr>sread := ax\<rparr>);
     let cx = push_bit 9 cx;
     let carry = 2 ^ 16 \<le> unat (b_bx s) + unat cx;
     Some (if \<not> carry then s\<lparr>b_bx := b_bx s + cx\<rparr>
           else s\<lparr>b_es := b_es s + 0x1000, b_bx := 0\<rparr>)
   }"

partial_function (option) rp_read :: "bios \<Rightarrow> boot \<Rightarrow> boot option" where
  "rp_read B s =
     (if b_es s - SYSSEG \<le> syssize s then do {
        s \<leftarrow> ok2_read B (ok1_read s) s;
        rp_read B s
      } else Some s)"

definition read_it :: "bios \<Rightarrow> boot \<Rightarrow> boot option" where
  "read_it B s =
     (let al = setup_sects s + 1;
          s = s\<lparr>sread := (sread s AND 0xFF00) OR ucast al\<rparr>
      in if b_es s AND 0x0fff \<noteq> 0 then None
         else rp_read B (s\<lparr>b_bx := 0\<rparr>))"

section \<open>Devices\<close>

definition kill_motor :: "boot \<Rightarrow> boot" where
  "kill_motor = outp 0x3f2 0"

definition inp :: "bios \<Rightarrow> WORD \<Rightarrow> boot \<Rightarrow> Byte \<times> boot" where
  "inp B p s = (port_in B (inputs s) p, s\<lparr>inputs := inputs s + 1\<rparr>)"

text \<open>\<open>ecx\<close> counts down from \<open>0xFFFFFF\<close>; \<open>delay\<close> is a jump to the next instruction.\<close>

function empty_8042_loop :: "bios \<Rightarrow> nat \<Rightarrow> boot \<Rightarrow> boot" where
  "empty_8042_loop B ecx s =
     (if ecx \<le> 1 then s
      else let (al, s) = inp B 0x64 s in
        if al AND 1 \<noteq> 0 then empty_8042_loop B (ecx - 1) (snd (inp B 0x60 s))
        else if al AND 2 \<noteq> 0 then empty_8042_loop B (ecx - 1) s
        else s)"
  by pat_completeness auto
termination
  by (relation "measure (\<lambda>(B, ecx, s). ecx)") auto

definition empty_8042 :: "bios \<Rightarrow> boot \<Rightarrow> boot" where
  "empty_8042 B = empty_8042_loop B 0xFFFFFF"

definition enable_a20 :: "bios \<Rightarrow> boot \<Rightarrow> boot" where
  "enable_a20 B =
     empty_8042 B \<circ> outp 0x60 0xDF \<circ> empty_8042 B \<circ> outp 0x64 0xD1 \<circ> empty_8042 B"

text \<open>While the line is closed, address \<open>0x10007C\<close> (segment \<open>0xffff\<close>) is address \<open>0x7C\<close>.\<close>

definition gs_test :: "bios \<Rightarrow> nat \<Rightarrow> memory \<Rightarrow> WORD" where
  "gs_test B t m = get16 m (if a20 B t then 0xFFFF0 + TEST_ADDR + 0x10 else TEST_ADDR)"

partial_function (option) a20_loop :: "bios \<Rightarrow> nat \<Rightarrow> WORD \<Rightarrow> memory \<Rightarrow> memory option" where
  "a20_loop B t ax m =
     (let ax = ax + 1;
          m = put16 TEST_ADDR ax m
      in if ax = gs_test B t m then a20_loop B (t + 1) ax m else Some m)"

definition a20_wait :: "bios \<Rightarrow> boot \<Rightarrow> boot option" where
  "a20_wait B s = do {
     let bx = get16 (bmem s) TEST_ADDR;
     m \<leftarrow> a20_loop B 0 0xffff (bmem s);
     Some (s\<lparr>bmem := put16 TEST_ADDR bx m\<rparr>)
   }"

definition program_8259 :: "boot \<Rightarrow> boot" where
  "program_8259 =
     outp 0x21 0xFB \<circ> outp 0xA1 0xFF \<circ>
     outp 0xA1 0x01 \<circ> outp 0x21 0x01 \<circ>
     outp 0xA1 0x02 \<circ> outp 0x21 0x04 \<circ>
     outp 0xA1 0x28 \<circ> outp 0x21 0x20 \<circ>
     outp 0xA0 0x11 \<circ> outp 0x20 0x11"

section \<open>The whole sector\<close>

definition move_sector :: "memory \<Rightarrow> memory" where
  "move_sector m =
     fold (\<lambda>i m. put16 (rm_addr INITSEG (of_nat (2 * i))) (get16 m (rm_addr BOOTSEG (of_nat (2 * i)))) m) [0..<256] m"

definition announce :: "boot \<Rightarrow> boot" where
  "announce s = s\<lparr>tty := tty s @ [13, 10] @ str ''Loading..''\<rparr>"

text \<open>E1_E2 and the root kernel make the cursor disappear as well.\<close>

definition announce_e :: "boot \<Rightarrow> boot" where
  "announce_e s = (announce s)\<lparr>cursor_top := Some 0x30\<rparr>"

text \<open>What the processor holds when the kernel starts.\<close>

record entry32 =
  e_idtr :: Register
  e_gdtr :: Register
  e_cr0 :: DWord
  e_cs :: WORD
  e_eip :: DWord

definition load_dtr :: "memory \<Rightarrow> DWord \<Rightarrow> Register" where
  "load_dtr m a = \<lparr>r_limit = get16 m a, r_base = get32 m (a + 2)\<rparr>"

definition protected_mode :: "boot \<Rightarrow> entry32" where
  "protected_mode s =
     \<lparr>e_idtr = load_dtr (bmem s) (rm_addr INITSEG 491),
      e_gdtr = load_dtr (bmem s) (rm_addr INITSEG 502),
      e_cr0 = 1, e_cs = KERNEL_CS, e_eip = 0x10010\<rparr>"

definition bootsect :: "(boot \<Rightarrow> boot) \<Rightarrow> bios \<Rightarrow> boot \<Rightarrow> (boot \<times> entry32) option" where
  "bootsect message B s = do {
     let s = s\<lparr>bmem := move_sector (bmem s)\<rparr>;
     let s = message s;
     s \<leftarrow> read_it B (s\<lparr>b_es := SYSSEG\<rparr>);
     let s = kill_motor s;
     let s = outp 0x70 0x80 s;
     let s = enable_a20 B s;
     s \<leftarrow> a20_wait B s;
     let s = program_8259 s;
     Some (s, protected_mode s)
   }"

end
