(* ===== verification/Boot_Facts.thy ===== *)
theory Boot_Facts
  imports Boot_Sector
begin

text \<open>
  The loader reads the diskette in order: after \<open>j\<close> sectors its variables are the coordinates of
  sector \<open>j + 1\<close> and the address of byte \<open>512 * j\<close> of the system. Each transfer stays inside
  a track and inside a 64 KB segment, which is what the disk service asks of its callers.
\<close>

section \<open>The disk service\<close>

type_synonym disk = "nat \<Rightarrow> Byte"

text \<open>A request the service documents: sectors of one track of a 1.44 MB diskette in drive 0,
  to a buffer that does not cross a 64 KB boundary.\<close>

definition transfer_ok :: "int13_request \<Rightarrow> bool" where
  "transfer_ok q \<longleftrightarrow> 1 \<le> unat (rq_al q) \<and> 1 \<le> unat (rq_cl q) \<and> unat (rq_cl q) + unat (rq_al q) \<le> 19 \<and>
     unat (rq_ch q) < 80 \<and> unat (rq_dh q) < 2 \<and> rq_dl q = 0 \<and>
     unat (rm_addr (rq_es q) (rq_bx q)) mod 65536 + 512 * unat (rq_al q) \<le> 65536"

definition lba :: "int13_request \<Rightarrow> nat" where
  "lba q = (unat (rq_ch q) * 2 + unat (rq_dh q)) * 18 + unat (rq_cl q) - 1"

definition disk_to_mem :: "disk \<Rightarrow> nat \<Rightarrow> nat \<Rightarrow> nat \<Rightarrow> memory \<Rightarrow> memory" where
  "disk_to_mem d p a n m = (\<lambda>x. if a \<le> unat x \<and> unat x < a + n then d (p + (unat x - a)) else m x)"

definition bios_reads :: "disk \<Rightarrow> bios \<Rightarrow> bool" where
  "bios_reads d B \<longleftrightarrow> (\<forall>q m. transfer_ok q \<longrightarrow>
     int13 B q m = disk_to_mem d (512 * lba q) (unat (rm_addr (rq_es q) (rq_bx q))) (512 * unat (rq_al q)) m)"

lemma disk_to_mem_append:
  "disk_to_mem d (p + n) (a + n) k (disk_to_mem d p a n m) = disk_to_mem d p a (n + k) m"
  by (rule ext) (auto simp: disk_to_mem_def)

lemma disk_to_mem_0 [simp]: "disk_to_mem d p a 0 m = m"
  by (rule ext) (auto simp: disk_to_mem_def)

section \<open>One transfer\<close>

definition at_sector :: "nat \<Rightarrow> boot \<Rightarrow> bool" where
  "at_sector j s \<longleftrightarrow> sread s = of_nat ((j + 1) mod 18) \<and> head s = of_nat ((j + 1) div 18 mod 2) \<and>
     track s = of_nat ((j + 1) div 36) \<and> b_bx s = of_nat (512 * (j mod 128)) \<and>
     b_es s = of_nat (0x1000 * (j div 128 + 1))"

definition chunk :: "nat \<Rightarrow> nat" where
  "chunk j = min (18 - (j + 1) mod 18) (128 - j mod 128)"

lemma unat_WORD [simp]: "n < 65536 \<Longrightarrow> unat (of_nat n :: WORD) = n"
  by (simp add: unsigned_of_nat take_bit_nat_eq_self)

lemma unat_ucast_byte: "n < 256 \<Longrightarrow> unat (ucast (of_nat n :: WORD) :: Byte) = n"
  by (simp add: unsigned_ucast_eq unsigned_of_nat take_bit_nat_eq_self)

lemma unat_rm_addr: "unat (rm_addr a b) = 16 * unat a + unat b"
proof -
  have "unat a < 65536" "unat b < 65536" using unsigned_less [of a] unsigned_less [of b] by simp_all
  moreover have "push_bit 4 (ucast a :: DWord) = of_nat (16 * unat a)" "(ucast b :: DWord) = of_nat (unat b)"
    by (simp_all add: push_bit_eq_mult)
  ultimately show ?thesis
    unfolding rm_addr_def by (simp only: of_nat_add [symmetric]) (simp add: unsigned_of_nat take_bit_nat_eq_self del: of_nat_add of_nat_mult)
qed

lemma chunk_bounds: "1 \<le> chunk j" "chunk j \<le> 18" "(j + 1) mod 18 + chunk j \<le> 18" "j mod 128 + chunk j \<le> 128"
  using mod_less_divisor [of 18 "j + 1"] mod_less_divisor [of 128 j] by (auto simp: chunk_def)

lemma ok1_read_at:
  assumes "at_sector j s"
  shows "ok1_read s = of_nat (chunk j)"
proof -
  define a where "a = 18 - (j + 1) mod 18"
  define b where "b = j mod 128"
  have ab: "a \<le> 18" "1 \<le> a" "b < 128" "(j + 1) mod 18 \<le> 18"
    using mod_less_divisor [of 18 "j + 1"] by (auto simp: a_def b_def)
  have ax: "SEC_PISTA - sread s = of_nat a"
    using assms ab(4) by (simp add: SEC_PISTA_def at_sector_def a_def)
  have cx: "push_bit 9 (of_nat a :: WORD) = of_nat (512 * a)" by (simp add: push_bit_eq_mult)
  have bx: "b_bx s = of_nat (512 * b)" using assms by (simp add: at_sector_def b_def)
  have sum: "(of_nat (512 * a) + of_nat (512 * b) :: WORD) = 0 \<longleftrightarrow> 65536 dvd 512 * (a + b)"
    by (simp only: of_nat_add [symmetric]) (simp add: word_of_nat_eq_0_iff del: of_nat_add of_nat_mult)
  have neg: "drop_bit 9 (0 - of_nat (512 * b) :: WORD) = of_nat (128 - b)" if "0 < b"
  proof -
    have "(0 - of_nat (512 * b) :: WORD) = of_nat (65536 - 512 * b)"
      using ab by (subst of_nat_diff) simp_all
    moreover have "65536 - 512 * b = 512 * (128 - b)" by simp
    ultimately have "(0 - of_nat (512 * b) :: WORD) = of_nat (512 * (128 - b))" by (simp only:)
    then have "unat (drop_bit 9 (0 - of_nat (512 * b) :: WORD)) = 512 * (128 - b) div 512"
      using ab that unat_WORD [of "512 * (128 - b)"] by (simp add: drop_bit_eq_div unat_div del: of_nat_mult)
    then show ?thesis using ab unat_WORD [of "128 - b"] by (simp add: word_unat_eq_iff del: of_nat_diff)
  qed
  have dv: "65536 dvd 512 * (a + b) \<longleftrightarrow> a + b = 128"
  proof
    assume "65536 dvd 512 * (a + b)"
    then obtain k where "512 * (a + b) = 65536 * k" by (rule dvdE)
    then have "a + b = 128 * k" by simp
    moreover from this ab have "0 < k" "k < 2" by linarith+
    ultimately show "a + b = 128" by (simp add: less_2_cases_iff)
  qed simp
  have "ok1_read s = (if a + b \<le> 128 then of_nat a else of_nat (128 - b))"
    using ab unat_WORD [of "512 * a"] unat_WORD [of "512 * b"] neg
    unfolding ok1_read_def Let_def ax cx bx sum dv by (auto simp del: of_nat_mult of_nat_diff)
  moreover have "chunk j = (if a + b \<le> 128 then a else 128 - b)"
    using ab(3) by (auto simp: chunk_def a_def b_def min_def)
  ultimately show ?thesis by simp
qed

text \<open>The coordinates after a transfer.\<close>

lemma advance_div_mod:
  fixes p n k :: nat
  assumes "1 \<le> n" and "p mod k + n \<le> k"
  shows "(p + n) mod k = (if p mod k + n = k then 0 else p mod k + n)"
    and "(p + n) div k = (if p mod k + n = k then p div k + 1 else p div k)"
proof -
  have k: "0 < k" using assms by simp
  have "p + n = p mod k + n + k * (p div k)" by simp
  then have "(p + n) mod k = (p mod k + n) mod k" "(p + n) div k = (p mod k + n) div k + p div k"
    using k div_mult_self2 [of k "p mod k + n" "p div k"] mod_mult_self2 [of "p mod k + n" k "p div k"]
    by simp_all
  with assms k show "(p + n) mod k = (if p mod k + n = k then 0 else p mod k + n)"
    "(p + n) div k = (if p mod k + n = k then p div k + 1 else p div k)" by simp_all
qed

lemma advance_head:
  fixes q :: nat
  shows "(q + 1) mod 2 = 1 - q mod 2" "(q + 1) div 2 = q div 2 + q mod 2"
  by presburger+

lemma div_36: "p div 36 = p div 18 div (2 :: nat)"
  by (simp add: div_mult2_eq [symmetric])

definition request :: "boot \<Rightarrow> WORD \<Rightarrow> int13_request" where
  "request s ax = \<lparr>rq_al = ucast ax, rq_ch = ucast (track s), rq_cl = ucast (sread s + 1),
     rq_dh = ucast (head s) AND 1, rq_dl = 0, rq_es = b_es s, rq_bx = b_bx s\<rparr>"

lemma request_at:
  assumes "at_sector j s" and "j < 1024"
  shows "transfer_ok (request s (of_nat (chunk j)))" and "\<not> boot_code_hit (request s (of_nat (chunk j)))"
    and "lba (request s (of_nat (chunk j))) = j + 1"
    and "unat (rm_addr (rq_es (request s (of_nat (chunk j)))) (rq_bx (request s (of_nat (chunk j))))) = 0x10000 + 512 * j"
    and "unat (rq_al (request s (of_nat (chunk j)))) = chunk j"
proof -
  let ?q = "request s (of_nat (chunk j))"
  have j: "j div 128 < 8" "(j + 1) div 36 < 29"
    using assms(2) less_mult_imp_div_less [of j 8 128] less_mult_imp_div_less [of "j + 1" 29 36] by simp_all
  have j128: "j = 128 * (j div 128) + j mod 128" by simp
  show al: "unat (rq_al ?q) = chunk j"
    using chunk_bounds [of j] by (simp add: request_def unat_ucast_byte)
  have ch: "unat (rq_ch ?q) = (j + 1) div 36"
    using assms(1) j unat_ucast_byte [of "(j + 1) div 36"] by (simp add: request_def at_sector_def)
  have cl: "unat (rq_cl ?q) = (j + 1) mod 18 + 1"
  proof -
    have "sread s + 1 = of_nat ((j + 1) mod 18 + 1)" using assms(1) by (simp add: at_sector_def)
    moreover have "(j + 1) mod 18 < 18" by simp
    ultimately show ?thesis
      using unat_ucast_byte [of "(j + 1) mod 18 + 1"] by (simp add: request_def del: of_nat_Suc of_nat_add)
  qed
  have dh: "unat (rq_dh ?q) = (j + 1) div 18 mod 2"
  proof -
    have "(j + 1) div 18 mod 2 = 0 \<or> (j + 1) div 18 mod 2 = 1" by presburger
    then show ?thesis using assms(1) by (auto simp: request_def at_sector_def)
  qed
  have es: "unat (rq_es ?q) = 0x1000 * (j div 128 + 1)" "unat (rq_bx ?q) = 512 * (j mod 128)"
    using assms(1) j(1) mod_less_divisor [of 128 j] unat_WORD [of "0x1000 * (j div 128 + 1)"] unat_WORD [of "512 * (j mod 128)"]
    by (simp_all add: request_def at_sector_def del: of_nat_mult of_nat_add)
  have dl: "rq_dl ?q = 0" by (simp add: request_def)
  show addr: "unat (rm_addr (rq_es ?q) (rq_bx ?q)) = 0x10000 + 512 * j"
  proof -
    have "16 * (0x1000 * (g + 1)) + 512 * b = 0x10000 + 512 * j" if "j = 128 * g + b" for g b :: nat
      using that by simp
    then show ?thesis unfolding unat_rm_addr es using j128 .
  qed
  have "(0x10000 + 512 * j) mod 65536 = 512 * (j mod 128)"
    using mult_mod_right [of 512 j 128] mod_add_self1 [of "0x10000" "512 * j"] by simp
  then show "transfer_ok ?q"
    using chunk_bounds [of j] j unfolding transfer_ok_def addr al ch cl dh dl by simp
  have "j + chunk j \<le> 1024" using chunk_bounds(4) [of j] j(1) j128 by linarith
  then show "\<not> boot_code_hit ?q" unfolding boot_code_hit_def Let_def addr al by simp
  show "lba ?q = j + 1" unfolding lba_def ch cl dh div_36 by (simp del: div_mult2_eq)
qed

text \<open>What \<open>ok2_read\<close> does to the coordinates after a transfer of \<open>n\<close> sectors.\<close>

definition next_track :: "nat \<Rightarrow> nat \<Rightarrow> boot \<Rightarrow> boot" where
  "next_track p n s = (if p mod 18 + n = 18 then
      s\<lparr>track := (if head s = 1 then track s + 1 else track s), head := 1 - head s, sread := 0\<rparr>
      else s\<lparr>sread := of_nat n + sread s\<rparr>)"

definition next_segment :: "nat \<Rightarrow> nat \<Rightarrow> boot \<Rightarrow> boot" where
  "next_segment j n s = (if j mod 128 + n = 128 then s\<lparr>b_es := b_es s + 0x1000, b_bx := 0\<rparr>
      else s\<lparr>b_bx := b_bx s + of_nat (512 * n)\<rparr>)"

lemma at_sector_advance:
  assumes "at_sector j s"
  shows "at_sector (j + chunk j) (next_segment j (chunk j) (next_track (j + 1) (chunk j) s))"
proof -
  note b = chunk_bounds [of j]
  define q where "q = (j + 1) div 18"
  have tr: "(j + chunk j + 1) mod 18 = (if (j + 1) mod 18 + chunk j = 18 then 0 else (j + 1) mod 18 + chunk j)"
      "(j + chunk j + 1) div 18 = (if (j + 1) mod 18 + chunk j = 18 then q + 1 else q)"
    using advance_div_mod [OF b(1,3)] by (simp_all add: q_def)
  have h: "q mod 2 = 0 \<or> q mod 2 = 1" by presburger
  have "head s = of_nat (q mod 2)" "track s = of_nat (q div 2)" "sread s = of_nat ((j + 1) mod 18)"
      "b_bx s = of_nat (512 * (j mod 128))" "b_es s = of_nat (0x1000 * (j div 128 + 1))"
    using assms by (simp_all add: at_sector_def div_36 q_def)
  then show ?thesis
    using h unfolding at_sector_def div_36 tr advance_div_mod [OF b(1,4)] next_track_def next_segment_def
    by (auto simp: advance_head [simplified] algebra_simps)
qed

lemma ok2_read_moves:
  assumes "at_sector j s" and "read_track B (of_nat (chunk j)) s = Some s'"
    and "sread s' = sread s" "head s' = head s" "b_bx s' = b_bx s"
  shows "ok2_read B (of_nat (chunk j)) s = Some (next_segment j (chunk j) (next_track (j + 1) (chunk j) s'))"
proof -
  let ?n = "chunk j"
  note b = chunk_bounds [of j]
  have full: "of_nat ?n + sread s = SEC_PISTA \<longleftrightarrow> (j + 1) mod 18 + ?n = 18"
  proof -
    have "of_nat ?n + sread s = (of_nat ((j + 1) mod 18 + ?n) :: WORD)" using assms(1) by (simp add: at_sector_def)
    then show ?thesis using b(3) unat_WORD [of "(j + 1) mod 18 + ?n"]
      by (simp add: SEC_PISTA_def word_unat_eq_iff del: of_nat_add)
  qed
  have cx: "push_bit 9 (of_nat ?n :: WORD) = of_nat (512 * ?n)" by (simp add: push_bit_eq_mult)
  have "unat (of_nat (512 * ?n) :: WORD) = 512 * ?n" "unat (b_bx s) = 512 * (j mod 128)"
    using assms(1) b(2) mod_less_divisor [of 128 j] unat_WORD [of "512 * ?n"] unat_WORD [of "512 * (j mod 128)"]
    by (simp_all add: at_sector_def del: of_nat_mult)
  then have carry: "2 ^ 16 \<le> unat (b_bx s) + unat (of_nat (512 * ?n) :: WORD) \<longleftrightarrow> j mod 128 + ?n = 128"
    using b(4) by (auto simp del: of_nat_mult)
  have h: "1 - head s = 0 \<longleftrightarrow> head s = 1" by (auto simp: algebra_simps)
  show ?thesis
    using full carry h assms(3-5)
    by (auto simp: ok2_read_def assms(2) cx Let_def next_segment_def next_track_def simp del: of_nat_mult)
qed

lemma ok2_read_at:
  assumes "at_sector j s" and "j < 1024" and "bios_reads d B"
  shows "\<exists>s'. ok2_read B (of_nat (chunk j)) s = Some s' \<and> at_sector (j + chunk j) s' \<and>
    bmem s' = disk_to_mem d (512 + 512 * j) (0x10000 + 512 * j) (512 * chunk j) (bmem s) \<and>
    outs s' = outs s \<and> inputs s' = inputs s"
proof -
  define s1 where "s1 = s\<lparr>tty := tty s @ [0x2e],
      bmem := disk_to_mem d (512 + 512 * j) (0x10000 + 512 * j) (512 * chunk j) (bmem s)\<rparr>"
  have "int13 B (request s (of_nat (chunk j))) (bmem s) = bmem s1"
    using assms(3) request_at [OF assms(1,2)] by (simp add: bios_reads_def s1_def)
  then have "read_track B (of_nat (chunk j)) s = Some s1"
    using request_at(2) [OF assms(1,2)] by (simp add: read_track_def Let_def request_def s1_def)
  from ok2_read_moves [OF assms(1) this]
  have "ok2_read B (of_nat (chunk j)) s = Some (next_segment j (chunk j) (next_track (j + 1) (chunk j) s1))"
    by (simp add: s1_def)
  moreover have "at_sector j s1" using assms(1) by (simp add: at_sector_def s1_def)
  ultimately show ?thesis
    using at_sector_advance [of j s1] by (auto simp: next_segment_def next_track_def s1_def)
qed

section \<open>The whole loop\<close>

lemma rm_INITSEG: "unat (rm_addr INITSEG w) = 0x90000 + unat w"
  by (simp add: unat_rm_addr INITSEG_def)

lemma sector_kept:
  assumes "a + n \<le> 0x90000" and "unat w < 65535"
  shows "disk_to_mem d p a n m (rm_addr INITSEG w) = m (rm_addr INITSEG w)"
    and "disk_to_mem d p a n m (rm_addr INITSEG w + 1) = m (rm_addr INITSEG w + 1)"
proof -
  have "unat (rm_addr INITSEG w + 1) = 0x90000 + unat w + 1"
    using rm_INITSEG [of w] assms(2) unat_offset [of "rm_addr INITSEG w" 1] by simp
  then show "disk_to_mem d p a n m (rm_addr INITSEG w) = m (rm_addr INITSEG w)"
    "disk_to_mem d p a n m (rm_addr INITSEG w + 1) = m (rm_addr INITSEG w + 1)"
    using assms rm_INITSEG [of w] by (simp_all add: disk_to_mem_def)
qed

lemma syssize_kept:
  "bmem s' = disk_to_mem d p a n (bmem s) \<Longrightarrow> a + n \<le> 0x90000 \<Longrightarrow> syssize s' = syssize s"
  by (simp add: syssize_def get16_def sector_kept)

lemma rp_read_guard:
  assumes "at_sector j s" and "j \<le> 1024"
  shows "b_es s - SYSSEG \<le> syssize s \<longleftrightarrow> 0x1000 * (j div 128) \<le> unat (syssize s)"
proof -
  have "j div 128 \<le> 8" using div_le_mono [OF assms(2), of 128] by simp
  moreover have "b_es s - SYSSEG = of_nat (0x1000 * (j div 128))"
    using assms(1) by (simp add: at_sector_def SYSSEG_def algebra_simps)
  ultimately show ?thesis
    using unat_WORD [of "0x1000 * (j div 128)"] by (simp add: word_le_nat_alt del: of_nat_mult)
qed

lemma rp_read_advances:
  assumes "at_sector j s" and "bios_reads d B" and "j \<le> 128 * g" and "g \<le> 8"
    and "0x1000 * (g - 1) \<le> unat (syssize s)"
  shows "\<exists>s'. rp_read B s = rp_read B s' \<and> at_sector (128 * g) s' \<and>
    bmem s' = disk_to_mem d (512 + 512 * j) (0x10000 + 512 * j) (512 * (128 * g - j)) (bmem s) \<and>
    outs s' = outs s \<and> inputs s' = inputs s"
  using assms
proof (induction "128 * g - j" arbitrary: j s rule: less_induct)
  case less
  show ?case
  proof (cases "j = 128 * g")
    case True
    with less.prems show ?thesis by (intro exI [of _ s]) simp
  next
    case False
    then have j: "j < 128 * g" "j < 1024" using less.prems(3,4) by simp_all
    then have jd: "j div 128 \<le> g - 1" using less_mult_imp_div_less [of j g 128] by simp
    have n: "1 \<le> chunk j" "j + chunk j \<le> 128 * g"
    proof -
      have "128 * (j div 128) + 128 \<le> 128 * g" using j(1) less_mult_imp_div_less [of j g 128] by simp
      moreover have "j = 128 * (j div 128) + j mod 128" by simp
      ultimately show "1 \<le> chunk j" "j + chunk j \<le> 128 * g"
        using chunk_bounds(1,4) [of j] by linarith+
    qed
    obtain s1 where s1: "ok2_read B (of_nat (chunk j)) s = Some s1" "at_sector (j + chunk j) s1"
        "bmem s1 = disk_to_mem d (512 + 512 * j) (0x10000 + 512 * j) (512 * chunk j) (bmem s)"
        "outs s1 = outs s" "inputs s1 = inputs s"
      using ok2_read_at [OF less.prems(1) j(2) less.prems(2)] by blast
    have z: "syssize s1 = syssize s"
      using syssize_kept [OF s1(3)] n(2) less.prems(4) by simp
    have "rp_read B s = rp_read B s1"
      using rp_read_guard [OF less.prems(1)] j jd less.prems(5)
      by (subst rp_read.simps) (simp add: ok1_read_at [OF less.prems(1)] s1(1) le_trans [OF _ less.prems(5)])
    moreover have lt: "128 * g - (j + chunk j) < 128 * g - j" using n j by linarith
    moreover obtain s2 where "rp_read B s1 = rp_read B s2" "at_sector (128 * g) s2"
        "bmem s2 = disk_to_mem d (512 + 512 * (j + chunk j)) (0x10000 + 512 * (j + chunk j))
           (512 * (128 * g - (j + chunk j))) (bmem s1)"
        "outs s2 = outs s1" "inputs s2 = inputs s1"
      using less.hyps [OF lt s1(2) less.prems(2) n(2) less.prems(4)] less.prems(5) z by auto
    moreover from this(3) have "bmem s2 =
        disk_to_mem d (512 + 512 * j) (0x10000 + 512 * j) (512 * (128 * g - j)) (bmem s)"
      using n(2) disk_to_mem_append [of d "512 + 512 * j" "512 * chunk j" "0x10000 + 512 * j"] s1(3)
      by (simp add: algebra_simps)
    ultimately show ?thesis using s1(4,5) by auto
  qed
qed

text \<open>The system is loaded in whole segments; \<open>segments z\<close> of them for a size of \<open>z\<close> paragraphs.\<close>

definition segments :: "nat \<Rightarrow> nat" where
  "segments z = z div 0x1000 + 1"

lemma read_it_loads:
  assumes "bios_reads d B" and "b_es s = SYSSEG" and "setup_sects s = 0" and "sread s = 0" "head s = 0" "track s = 0"
    and "unat (syssize s) < 0x8000"
  shows "\<exists>s'. read_it B s = Some s' \<and> outs s' = outs s \<and> inputs s' = inputs s \<and>
    bmem s' = disk_to_mem d 512 0x10000 (0x10000 * segments (unat (syssize s))) (bmem s)"
proof -
  let ?z = "unat (syssize s)"
  define s0 where "s0 = s\<lparr>sread := 1, b_bx := 0\<rparr>"
  have at: "at_sector 0 s0" using assms(2-6) by (simp add: at_sector_def s0_def SYSSEG_def)
  have z: "syssize s0 = syssize s" by (simp add: syssize_def s0_def)
  have "?z div 0x1000 < 8" using assms(7) less_mult_imp_div_less [of ?z 8 "0x1000"] by simp
  then have g: "segments ?z \<le> 8" "0x1000 * (segments ?z - 1) \<le> unat (syssize s0)"
    unfolding z by (simp_all add: segments_def)
  obtain s1 where s1: "rp_read B s0 = rp_read B s1" "at_sector (128 * segments ?z) s1"
      "bmem s1 = disk_to_mem d 512 0x10000 (512 * (128 * segments ?z)) (bmem s0)"
      "outs s1 = outs s0" "inputs s1 = inputs s0"
    using rp_read_advances [OF at assms(1) _ g] by auto
  have "syssize s1 = syssize s"
    using syssize_kept [OF s1(3)] g(1) z by simp
  moreover have "?z < 0x1000 * segments ?z"
    unfolding segments_def by (simp add: dividend_less_times_div)
  ultimately have "rp_read B s1 = Some s1"
    using rp_read_guard [OF s1(2)] g(1) by (subst rp_read.simps) simp
  moreover have "read_it B s = rp_read B s0"
    using assms(2-4) by (simp add: read_it_def Let_def s0_def SYSSEG_def)
  ultimately show ?thesis using s1 by (auto simp: s0_def)
qed

text \<open>From \<open>0x8000\<close> paragraphs on, the ninth segment is the boot sector's own.\<close>

lemma read_it_overruns:
  assumes "bios_reads d B" and "b_es s = SYSSEG" and "setup_sects s = 0" and "sread s = 0" "head s = 0" "track s = 0"
    and "0x8000 \<le> unat (syssize s)"
  shows "read_it B s = None"
proof -
  define s0 where "s0 = s\<lparr>sread := 1, b_bx := 0\<rparr>"
  have at: "at_sector 0 s0" using assms(2-6) by (simp add: at_sector_def s0_def SYSSEG_def)
  have z: "syssize s0 = syssize s" by (simp add: syssize_def s0_def)
  obtain s1 where s1: "rp_read B s0 = rp_read B s1" "at_sector 1024 s1"
      "bmem s1 = disk_to_mem d 512 0x10000 (512 * 1024) (bmem s0)"
    using rp_read_advances [OF at assms(1), of 8] assms(7) z by auto
  have "syssize s1 = syssize s" using syssize_kept [OF s1(3)] z by simp
  then have g: "b_es s1 - SYSSEG \<le> syssize s1" using rp_read_guard [OF s1(2)] assms(7) by simp
  have n: "chunk 1024 = 1" by (simp add: chunk_def)
  have "b_es s1 = 0x9000" "b_bx s1 = 0" using s1(2) by (simp_all add: at_sector_def)
  then have "read_track B 1 s1 = None"
    by (simp add: read_track_def Let_def boot_code_hit_def unat_rm_addr)
  then have "rp_read B s1 = None"
    using g ok1_read_at [OF s1(2)] n by (subst rp_read.simps) (simp add: ok2_read_def)
  moreover have "read_it B s = rp_read B s0"
    using assms(2-4) by (simp add: read_it_def Let_def s0_def SYSSEG_def)
  ultimately show ?thesis using s1(1) by simp
qed

section \<open>Devices\<close>

lemma put16_other: "a \<noteq> p \<Longrightarrow> a \<noteq> p + 1 \<Longrightarrow> put16 p w m a = m a"
  by (simp add: put16_def)

lemma get16_put16: "get16 (put16 p w m) p = w"
proof -
  have "p \<noteq> p + 1" by simp
  then show ?thesis
    unfolding get16_def put16_def
    by (intro bit_word_eqI) (auto simp: bit_or_iff bit_push_bit_iff bit_ucast_iff bit_drop_bit_eq dest: bit_imp_le_length)
qed

lemma bit_Byte_high [simp]: "\<not> bit (b :: Byte) (8 + n)"
  using bit_imp_le_length [of b "8 + n"] by auto

lemma put16_get16: "put16 p (get16 m p') m' = m'(p := m p', p + 1 := m (p' + 1))"
proof -
  have "ucast (get16 m p') = m p'" "ucast (drop_bit 8 (get16 m p')) = m (p' + 1)"
    unfolding get16_def
    by (auto intro!: bit_word_eqI simp: bit_or_iff bit_push_bit_iff bit_ucast_iff bit_drop_bit_eq dest: bit_imp_le_length)
  then show ?thesis by (simp add: put16_def)
qed

lemma gs_test_open: "a20 B t \<Longrightarrow> gs_test B t (put16 TEST_ADDR w m) = gs_test B t m"
  by (simp add: gs_test_def get16_def put16_def TEST_ADDR_def)

lemma a20_loop_open:
  assumes "a20 B t" and "a20 B (t + 1)"
  shows "\<exists>m'. a20_loop B t ax m = Some m' \<and> (\<forall>a. a \<noteq> TEST_ADDR \<longrightarrow> a \<noteq> TEST_ADDR + 1 \<longrightarrow> m' a = m a)"
proof -
  have g: "gs_test B (t + 1) m' = gs_test B t m'" for m' using assms by (simp add: gs_test_def)
  show ?thesis
  proof (cases "ax + 1 = gs_test B t m")
    case False
    then have "a20_loop B t ax m = Some (put16 TEST_ADDR (ax + 1) m)"
      by (subst a20_loop.simps) (simp add: Let_def gs_test_open [OF assms(1)])
    then show ?thesis by (auto simp: put16_other)
  next
    case True
    let ?m = "put16 TEST_ADDR (ax + 1) m"
    have "a20_loop B t ax m = a20_loop B (t + 1) (ax + 1) ?m"
      using True by (subst a20_loop.simps) (simp add: Let_def gs_test_open [OF assms(1)])
    moreover have "gs_test B (t + 1) (put16 TEST_ADDR (ax + 1 + 1) ?m) \<noteq> ax + 1 + 1"
      unfolding g gs_test_open [OF assms(1)] True [symmetric] by simp
    then have "a20_loop B (t + 1) (ax + 1) ?m = Some (put16 TEST_ADDR (ax + 1 + 1) ?m)"
      by (subst a20_loop.simps) (simp add: Let_def)
    ultimately show ?thesis by (auto simp: put16_other)
  qed
qed

lemma a20_loop_returns:
  assumes "\<forall>u\<ge>t0. a20 B u"
  shows "\<exists>m'. a20_loop B t ax m = Some m' \<and> (\<forall>a. a \<noteq> TEST_ADDR \<longrightarrow> a \<noteq> TEST_ADDR + 1 \<longrightarrow> m' a = m a)"
proof (induction "t0 - t" arbitrary: t ax m)
  case 0
  then show ?case using assms by (intro a20_loop_open) simp_all
next
  case (Suc n)
  let ?m = "put16 TEST_ADDR (ax + 1) m"
  have "n = t0 - (t + 1)" using Suc.hyps(2) by simp
  from Suc.hyps(1) [OF this, of "ax + 1" ?m] show ?case
    by (subst a20_loop.simps) (auto simp: Let_def put16_other)
qed

lemma a20_wait_returns:
  assumes "\<forall>u\<ge>t0. a20 B u"
  shows "a20_wait B s = Some s"
proof -
  obtain m' where m: "a20_loop B 0 0xffff (bmem s) = Some m'"
      "\<And>a. a \<noteq> TEST_ADDR \<Longrightarrow> a \<noteq> TEST_ADDR + 1 \<Longrightarrow> m' a = bmem s a"
    using a20_loop_returns [OF assms, of 0 "0xffff" "bmem s"] by blast
  have "put16 TEST_ADDR (get16 (bmem s) TEST_ADDR) m' = bmem s"
    using m(2) by (simp add: put16_get16 fun_eq_iff)
  then show ?thesis by (simp add: a20_wait_def m(1))
qed

declare empty_8042_loop.simps [simp del]

lemma empty_8042_keeps:
  "bmem (empty_8042_loop B n s) = bmem s" "outs (empty_8042_loop B n s) = outs s"
  by (induction B n s rule: empty_8042_loop.induct)
    (subst empty_8042_loop.simps; simp add: inp_def Let_def)+

section \<open>The sector moves itself\<close>

lemma move_sector_step:
  assumes "n \<le> 256"
  shows "fold (\<lambda>i m. put16 (rm_addr INITSEG (of_nat (2 * i))) (get16 m (rm_addr BOOTSEG (of_nat (2 * i)))) m) [0..<n] m =
    block_copy m 0x7C00 0x90000 (2 * n)"
  using assms
proof (induction n)
  case (Suc n)
  let ?m = "block_copy m 0x7C00 0x90000 (2 * n)"
  have w: "unat (of_nat (2 * n) :: WORD) = 2 * n" using Suc.prems by (intro unat_WORD) simp
  have p: "rm_addr INITSEG (of_nat (2 * n)) = 0x90000 + of_nat (2 * n)" "rm_addr BOOTSEG (of_nat (2 * n)) = 0x7C00 + of_nat (2 * n)"
    using Suc.prems unat_offset [of "0x90000" "2 * n"] unat_offset [of "0x7C00" "2 * n"]
    by (simp_all add: word_unat_eq_iff unat_rm_addr w INITSEG_def BOOTSEG_def del: of_nat_mult)
  have ap: "apart 0x7C00 0x90000 k" if "k \<le> 512" for k using that by (simp add: apart_def)
  let ?p = "0x7C00 + of_nat (2 * n) :: DWord" and ?q = "0x90000 + of_nat (2 * n) :: DWord"
  have ap1: "apart ?p ?q 1" "apart (?p + 1) (?q + 1) 1"
    using apart_shift [of "0x7C00" "0x90000" "2 * n" 1] apart_shift [of "0x7C00" "0x90000" "2 * n + 1" 1]
      ap [of "2 * n + 1"] ap [of "2 * n + 2"] Suc.prems by (simp_all add: algebra_simps)
  have ne: "?p + 1 \<noteq> ?q"
  proof -
    have "?p + 1 = 0x7C01 + of_nat (2 * n)" by (simp add: algebra_simps)
    then show ?thesis by (simp only: add_right_cancel) simp
  qed
  let ?m1 = "block_copy m 0x7C00 0x90000 (2 * n + 1)"
  have "?m(?q := ?m ?p) = ?m1"
    using block_copy_1 [OF ap1(1), of ?m] block_copy_add [OF ap, of "2 * n" 1 m] Suc.prems by simp
  moreover from this ne have "?m (?p + 1) = ?m1 (?p + 1)" by (metis fun_upd_other)
  moreover have "?m1(?q + 1 := ?m1 (?p + 1)) = block_copy m 0x7C00 0x90000 (2 * Suc n)"
    using block_copy_1 [OF ap1(2), of ?m1] block_copy_add [OF ap, of "2 * n + 1" 1 m] Suc.prems
    by (simp add: algebra_simps)
  ultimately have "put16 ?q (get16 ?m ?p) ?m = block_copy m 0x7C00 0x90000 (2 * Suc n)"
    by (simp add: put16_get16)
  then show ?case using Suc p by simp
qed simp

lemma move_sector_block: "move_sector m = block_copy m 0x7C00 0x90000 512"
  using move_sector_step [of 256 m] by (simp add: move_sector_def)

section \<open>From power on to the kernel\<close>

text \<open>The firmware leaves the first sector of the diskette at \<open>0x7C00\<close> and starts it; the words
  \<open>sread\<close>, \<open>head\<close> and \<open>track\<close> are assembled as zero.\<close>

definition firmware :: "memory \<Rightarrow> boot" where
  "firmware m = \<lparr>bmem = m, b_es = 0, b_bx = 0, sread = 0, head = 0, track = 0, tty = [], cursor_top = None,
     inputs = 0, outs = []\<rparr>"

definition first_sector :: "disk \<Rightarrow> memory \<Rightarrow> bool" where
  "first_sector d m \<longleftrightarrow> (\<forall>i<512. m (0x7C00 + of_nat i) = d i)"

definition a20_opens :: "bios \<Rightarrow> bool" where
  "a20_opens B \<longleftrightarrow> (\<exists>t0. \<forall>t\<ge>t0. a20 B t)"

definition boot_outs :: "(WORD \<times> Byte) list" where
  "boot_outs = [(0x3f2, 0), (0x70, 0x80), (0x64, 0xD1), (0x60, 0xDF),
     (0x20, 0x11), (0xA0, 0x11), (0x21, 0x20), (0xA1, 0x28), (0x21, 0x04), (0xA1, 0x02),
     (0x21, 0x01), (0xA1, 0x01), (0xA1, 0xFF), (0x21, 0xFB)]"

lemma moved_sector:
  assumes "first_sector d m" and "i < 512"
  shows "move_sector m (0x90000 + of_nat i) = d i"
proof -
  have "unat (0x90000 + of_nat i :: DWord) = 0x90000 + i" using assms(2) unat_offset [of "0x90000" i] by simp
  then show ?thesis using assms by (simp add: move_sector_block block_copy_def first_sector_def)
qed

lemma INITSEG_addr: "rm_addr INITSEG w = 0x90000 + of_nat (unat w)"
proof -
  have "unat w < 65536" using unsigned_less [of w] by simp
  then show ?thesis
    using unat_offset [of "0x90000" "unat w"] by (simp add: word_unat_eq_iff rm_INITSEG)
qed

definition disk16 :: "disk \<Rightarrow> nat \<Rightarrow> WORD" where
  "disk16 d p = ucast (d p) OR push_bit 8 (ucast (d (p + 1)))"

lemma devices_keep:
  "bmem (program_8259 s) = bmem s" "outs (program_8259 s) = outs s @ drop 4 boot_outs"
  "bmem (enable_a20 B s) = bmem s" "outs (enable_a20 B s) = outs s @ [(0x64, 0xD1), (0x60, 0xDF)]"
  by (simp_all add: program_8259_def enable_a20_def outp_def boot_outs_def empty_8042_def empty_8042_keeps)

lemma bootsect_state:
  assumes "message = announce \<or> message = announce_e" and "first_sector d m" and "d 497 = 0"
  defines "s \<equiv> (message (firmware m\<lparr>bmem := move_sector m\<rparr>))\<lparr>b_es := SYSSEG\<rparr>"
  shows "setup_sects s = 0" "sread s = 0" "head s = 0" "track s = 0" "syssize s = disk16 d 500" "outs s = []"
    "bmem s = move_sector m" "b_es s = SYSSEG"
proof -
  show b: "bmem s = move_sector m" "sread s = 0" "head s = 0" "track s = 0" "outs s = []" "b_es s = SYSSEG"
    using assms(1) by (auto simp: s_def announce_def announce_e_def firmware_def)
  show "setup_sects s = 0"
    using moved_sector [OF assms(2), of 497] assms(3) by (simp add: setup_sects_def b INITSEG_addr)
  show "syssize s = disk16 d 500"
    using moved_sector [OF assms(2), of 500] moved_sector [OF assms(2), of 501]
    by (simp add: syssize_def b INITSEG_addr get16_def disk16_def)
qed

lemma bootsect_runs:
  assumes "message = announce \<or> message = announce_e" and "first_sector d m" and "d 497 = 0"
    and "bios_reads d B" and "a20_opens B" and "unat (disk16 d 500) < 0x8000"
  shows "\<exists>s. bootsect message B (firmware m) = Some (s, protected_mode s) \<and> outs s = boot_outs \<and>
    bmem s = disk_to_mem d 512 0x10000 (0x10000 * segments (unat (disk16 d 500))) (move_sector m)"
proof -
  note st = bootsect_state [OF assms(1-3)]
  obtain s1 where s1: "read_it B ((message (firmware m\<lparr>bmem := move_sector m\<rparr>))\<lparr>b_es := SYSSEG\<rparr>) = Some s1"
      "outs s1 = []" "bmem s1 = disk_to_mem d 512 0x10000 (0x10000 * segments (unat (disk16 d 500))) (move_sector m)"
    using read_it_loads [OF assms(4) st(8,1-4)] assms(6) unfolding st(5-7) by blast
  obtain t0 where t: "\<forall>t\<ge>t0. a20 B t" using assms(5) by (auto simp: a20_opens_def)
  have "bmem (firmware m) = m" by (simp add: firmware_def)
  then have "bootsect message B (firmware m) =
      (let s = program_8259 (enable_a20 B (outp 0x70 0x80 (kill_motor s1))) in Some (s, protected_mode s))"
    by (simp add: bootsect_def s1(1) a20_wait_returns [OF t])
  then show ?thesis
    using s1(2,3) by (simp add: Let_def devices_keep kill_motor_def outp_def) (simp add: boot_outs_def)
qed

lemma bootsect_overruns:
  assumes "message = announce \<or> message = announce_e" and "first_sector d m" and "d 497 = 0"
    and "bios_reads d B" and "0x8000 \<le> unat (disk16 d 500)"
  shows "bootsect message B (firmware m) = None"
proof -
  note st = bootsect_state [OF assms(1-3)]
  have "bmem (firmware m) = m" by (simp add: firmware_def)
  with read_it_overruns [OF assms(4) st(8,1-4)] assms(5) show ?thesis
    unfolding st(5) by (simp add: bootsect_def)
qed

lemma loaded_bytes:
  assumes "bmem s = disk_to_mem d 512 0x10000 n (move_sector m)" and "n \<le> 0x80000" and "first_sector d m"
  shows "i < n \<Longrightarrow> bmem s (0x10000 + of_nat i) = d (512 + i)"
    and "i < 512 \<Longrightarrow> bmem s (0x90000 + of_nat i) = d i"
proof -
  show "bmem s (0x10000 + of_nat i) = d (512 + i)" if "i < n"
    using that assms(1,2) unat_offset [of "0x10000" i] by (simp add: disk_to_mem_def)
  show "bmem s (0x90000 + of_nat i) = d i" if "i < 512"
    using that assms(2) unat_offset [of "0x90000" i] moved_sector [OF assms(3) that]
    by (simp add: assms(1) disk_to_mem_def)
qed

end
