(* ===== verification/Zeos_Build.thy ===== *)
theory Zeos_Build
  imports Zeos_Types
begin

text \<open>
  The image builder \<^verbatim>\<open>build.c\<close>, a host program: it copies the boot sector (in Minix object
  format), the kernel and the user program to its standard output and then writes the sizes
  into the image. The host is modelled by the contents of the files it opens, whether the
  output can seek and how many bytes it can hold; a call of \<open>die\<close> is an error value. A report
  on the standard error stream is the format string and its arguments.
\<close>

section \<open>Host and state\<close>

datatype build_error =
    Usage
  | Unable_to_open string
  | Unable_to_read_header string
  | Non_Minix_header string
  | Illegal_data_segment string
  | Illegal_bss_segment string
  | Illegal_symbol_table string
  | Boot_block_size
  | Boot_block_flag
  | Write_failed
  | Unexpected_EOF string
  | Seek_failed

record host =
  contents :: "string \<Rightarrow> Byte list option"
  seekable :: bool
  space :: nat

type_synonym report = "string \<times> int list"

record bstate =
  buf :: "Byte list"       \<comment> \<open>\<open>byte buf[1024]\<close>\<close>
  rest :: "Byte list"      \<comment> \<open>what \<open>fd\<close> still has to deliver\<close>
  out :: "Byte list"       \<comment> \<open>contents of the standard output\<close>
  opos :: nat
  reports :: "report list"

definition fprintf :: "report \<Rightarrow> bstate \<Rightarrow> bstate" where
  "fprintf r s = s\<lparr>reports := reports s @ [r]\<rparr>"

text \<open>The reports a version of the program makes; an unsigned number is printed with \<open>%d\<close>.\<close>

record texts =
  boot_text :: "nat \<Rightarrow> report"
  sys_text :: "DWord \<Rightarrow> report"
  usr_text :: "DWord \<Rightarrow> report"
  image_text :: "DWord \<Rightarrow> report"

text \<open>Division of C integers rounds towards zero.\<close>

definition c_div :: "int \<Rightarrow> int \<Rightarrow> int" where
  "c_div a b = sgn a * sgn b * (\<bar>a\<bar> div \<bar>b\<bar>)"

definition bindr :: "'e + 'a \<Rightarrow> ('a \<Rightarrow> 'e + 'b) \<Rightarrow> 'e + 'b" where
  "bindr m f = (case m of Inl e \<Rightarrow> Inl e | Inr x \<Rightarrow> f x)"

definition die_if :: "bool \<Rightarrow> 'e \<Rightarrow> 'e + unit" where
  "die_if b e = (if b then Inl e else Inr ())"

definition sys_open :: "host \<Rightarrow> string \<Rightarrow> bstate \<Rightarrow> build_error + bstate" where
  "sys_open H name s =
     (case contents H name of None \<Rightarrow> Inl (Unable_to_open name) | Some d \<Rightarrow> Inr (s\<lparr>rest := d\<rparr>))"

text \<open>\<open>read(fd, buf, n)\<close> delivers fewer bytes only at the end of the file.\<close>

definition sys_read :: "nat \<Rightarrow> bstate \<Rightarrow> nat \<times> bstate" where
  "sys_read n s =
     (let d = take n (rest s)
      in (length d, s\<lparr>buf := d @ drop (length d) (buf s), rest := drop n (rest s)\<rparr>))"

definition out_write :: "host \<Rightarrow> nat \<Rightarrow> bstate \<Rightarrow> build_error + bstate" where
  "out_write H n s =
     (if opos s + n \<le> space H
      then Inr (s\<lparr>out := take (opos s) (out s) @ replicate (opos s - length (out s)) 0 @
                    take n (buf s) @ drop (opos s + n) (out s),
                  opos := opos s + n\<rparr>)
      else Inl Write_failed)"

definition out_seek :: "host \<Rightarrow> nat \<Rightarrow> bstate \<Rightarrow> build_error + bstate" where
  "out_seek H n s = (if seekable H then Inr (s\<lparr>opos := n\<rparr>) else Inl Seek_failed)"

definition set_buf :: "Byte list \<Rightarrow> bstate \<Rightarrow> bstate" where
  "set_buf d s = s\<lparr>buf := d @ drop (length d) (buf s)\<rparr>"

section \<open>\<open>minix_open\<close>\<close>

definition MINIX_HEADER_LEN :: nat where "MINIX_HEADER_LEN = 32"

definition minix_hdr :: "Byte list" where
  "minix_hdr = [0x01, 0x03, 0x10, 0x04, 0x20, 0x00, 0x00, 0x00]"

text \<open>\<open>lb[i]\<close>, read through the cast of \<open>buf\<close> to \<open>u32 *\<close>, is non-zero iff one of its bytes is.\<close>

definition lb :: "nat \<Rightarrow> Byte list \<Rightarrow> bool" where
  "lb i b \<longleftrightarrow> (\<exists>k\<in>{..<4}. b ! (4 * i + k) \<noteq> 0)"

definition minix_open :: "host \<Rightarrow> string \<Rightarrow> bstate \<Rightarrow> build_error + bstate" where
  "minix_open H name s =
     bindr (sys_open H name s) (\<lambda>s.
     let (n, s) = sys_read MINIX_HEADER_LEN s in
     bindr (die_if (n \<noteq> MINIX_HEADER_LEN) (Unable_to_read_header name)) (\<lambda>_.
     bindr (die_if (take 8 (buf s) \<noteq> minix_hdr \<or> lb 5 (buf s)) (Non_Minix_header name)) (\<lambda>_.
     bindr (die_if (lb 3 (buf s)) (Illegal_data_segment name)) (\<lambda>_.
     bindr (die_if (lb 4 (buf s)) (Illegal_bss_segment name)) (\<lambda>_.
     bindr (die_if (lb 7 (buf s)) (Illegal_symbol_table name)) (\<lambda>_. Inr s))))))"

section \<open>\<open>main\<close>\<close>

text \<open>The loop that copies \<open>sz\<close> bytes of the open file in pieces of at most 1024.\<close>

function copy_loop :: "host \<Rightarrow> string \<Rightarrow> DWord \<Rightarrow> bstate \<Rightarrow> build_error + bstate" where
  "copy_loop H name sz s =
     (if sz > 0 then
        let l = (if sz > 1024 then 1024 else sz);
            (n, s) = sys_read (unat l) s
        in if n \<noteq> unat l then Inl (Unexpected_EOF name)
           else case out_write H (unat l) s of
             Inl e \<Rightarrow> Inl e
           | Inr s \<Rightarrow> copy_loop H name (sz - l) s
      else Inr s)"
  by pat_completeness auto
termination
proof (relation "measure (\<lambda>(_, _, sz, _). unat sz)", goal_cases)
  case (2 H name sz s l x n s' s'')
  then have "0 < l" "l \<le> sz" by (auto simp: word_gt_0)
  then show ?case by (simp add: unat_sub word_le_nat_alt word_less_nat_alt)
qed simp

definition copy_boot :: "host \<Rightarrow> texts \<Rightarrow> string \<Rightarrow> bstate \<Rightarrow> build_error + bstate" where
  "copy_boot H T name s =
     bindr (minix_open H name s) (\<lambda>s.
     let (i, s) = sys_read 1024 s;
         s = fprintf (boot_text T i) s in
     bindr (die_if (i \<noteq> 512) Boot_block_size) (\<lambda>_.
     bindr (die_if (buf s ! 510 \<noteq> 0x55 \<or> buf s ! 511 \<noteq> 0xaa) Boot_block_flag) (\<lambda>_.
     out_write H 512 (s\<lparr>buf := (buf s)[508 := 0, 509 := 0]\<rparr>))))"

text \<open>Copying a file: its size is \<open>st_size\<close> converted to \<open>unsigned int\<close>.\<close>

definition copy_file :: "host \<Rightarrow> (DWord \<Rightarrow> report) \<Rightarrow> string \<Rightarrow> bstate \<Rightarrow> build_error + (DWord \<times> bstate)" where
  "copy_file H text name s =
     bindr (sys_open H name s) (\<lambda>s.
     let sz = of_nat (length (rest s));
         s = fprintf (text sz) s in
     bindr (copy_loop H name sz s) (\<lambda>s. Inr (sz, s)))"

text \<open>A size is written as three bytes, least significant first, and a zero.\<close>

definition size_bytes :: "DWord \<Rightarrow> Byte list" where
  "size_bytes n = [ucast (n AND 0xff), ucast (drop_bit 8 n AND 0xff), ucast (drop_bit 16 n AND 0xff), 0]"

definition patch :: "host \<Rightarrow> nat \<Rightarrow> Byte list \<Rightarrow> bstate \<Rightarrow> build_error + bstate" where
  "patch H p d s =
     bindr (out_seek H p s) (\<lambda>s. out_write H (length d) (set_buf d s))"

definition im_size :: "DWord \<Rightarrow> DWord \<Rightarrow> DWord" where
  "im_size sys_size usr_size = (sys_size + usr_size + 15) div 16"

definition build_texts :: texts where
  "build_texts = \<lparr>
     boot_text = (\<lambda>i. (''Boot sector %d bytes.'', [int i])),
     sys_text = (\<lambda>sz. (''System is %d kB'', [sint (sz div 1024)])),
     usr_text = (\<lambda>uz. (''User is %d kB'', [sint (uz div 1024)])),
     image_text = (\<lambda>n. (''Image is %d kB'', [c_div (sint n) 1024]))\<rparr>"

definition build :: "host \<Rightarrow> string list \<Rightarrow> Byte list \<Rightarrow> build_error + (Byte list \<times> report list)" where
  "build H argv uninit =
     bindr (die_if (length argv \<noteq> 4) Usage) (\<lambda>_.
     bindr (copy_boot H build_texts (argv ! 1) \<lparr>buf = uninit, rest = [], out = [], opos = 0, reports = []\<rparr>) (\<lambda>s.
     bindr (copy_file H (sys_text build_texts) (argv ! 2) s) (\<lambda>(sys_size, s).
     bindr (copy_file H (usr_text build_texts) (argv ! 3) s) (\<lambda>(usr_size, s).
     bindr (out_seek H 500 s) (\<lambda>s.
     let s = fprintf (image_text build_texts (sys_size + usr_size)) s;
         s = set_buf (take 2 (size_bytes (im_size sys_size usr_size))) s in
     bindr (out_write H 2 s) (\<lambda>s.
     bindr (patch H 512 (size_bytes sys_size) s) (\<lambda>s.
     bindr (patch H 516 (size_bytes usr_size) s) (\<lambda>s.
     bindr (patch H 520 (size_bytes 0x7E1A) s) (\<lambda>s. Inr (out s, reports s))))))))))"

text \<open>E1_E2: the buffer is filled before the seek, and \<open>rdtr\<close> differs.\<close>

definition patch_e :: "host \<Rightarrow> nat \<Rightarrow> Byte list \<Rightarrow> bstate \<Rightarrow> build_error + bstate" where
  "patch_e H p d s =
     bindr (out_seek H p (set_buf d s)) (\<lambda>s. out_write H (length d) s)"

definition build_e :: "host \<Rightarrow> string list \<Rightarrow> Byte list \<Rightarrow> build_error + (Byte list \<times> report list)" where
  "build_e H argv uninit =
     bindr (die_if (length argv \<noteq> 4) Usage) (\<lambda>_.
     bindr (copy_boot H build_texts (argv ! 1) \<lparr>buf = uninit, rest = [], out = [], opos = 0, reports = []\<rparr>) (\<lambda>s.
     bindr (copy_file H (sys_text build_texts) (argv ! 2) s) (\<lambda>(sys_size, s).
     bindr (copy_file H (usr_text build_texts) (argv ! 3) s) (\<lambda>(usr_size, s).
     let s = fprintf (image_text build_texts (sys_size + usr_size)) s in
     bindr (patch_e H 500 (take 2 (size_bytes (im_size sys_size usr_size))) s) (\<lambda>s.
     bindr (patch_e H 512 (size_bytes sys_size) s) (\<lambda>s.
     bindr (patch_e H 516 (size_bytes usr_size) s) (\<lambda>s.
     bindr (patch_e H 520 (size_bytes 0x7E6A) s) (\<lambda>s. Inr (out s, reports s)))))))))"

text \<open>The root kernel's version reports sizes in bytes too, and counts the boot sector in the image.\<close>

definition build_texts_z :: texts where
  "build_texts_z = \<lparr>
     boot_text = (\<lambda>i. (''Boot sector%7d Bytes.'', [int i])),
     sys_text = (\<lambda>sz. (''System     %7d Bytes (%3d kB)'', [sint sz, sint (sz div 1024)])),
     usr_text = (\<lambda>uz. (''User       %7d Bytes (%3d kB)'', [sint uz, sint (uz div 1024)])),
     image_text = (\<lambda>n. (''Disk Image %7d Bytes (%3d kB)'', [sint (512 + n), c_div (sint (512 + n)) 1024]))\<rparr>"

definition build_z :: "host \<Rightarrow> string list \<Rightarrow> Byte list \<Rightarrow> build_error + (Byte list \<times> report list)" where
  "build_z H argv uninit =
     bindr (die_if (length argv \<noteq> 4) Usage) (\<lambda>_.
     bindr (copy_boot H build_texts_z (argv ! 1) \<lparr>buf = uninit, rest = [], out = [], opos = 0, reports = []\<rparr>) (\<lambda>s.
     bindr (copy_file H (sys_text build_texts_z) (argv ! 2) s) (\<lambda>(sys_size, s).
     bindr (copy_file H (usr_text build_texts_z) (argv ! 3) s) (\<lambda>(usr_size, s).
     let s = fprintf (image_text build_texts_z (sys_size + usr_size)) s in
     bindr (patch_e H 500 (take 2 (size_bytes (im_size sys_size usr_size))) s) (\<lambda>s.
     bindr (patch_e H 512 (size_bytes sys_size) s) (\<lambda>s.
     bindr (patch_e H 516 (size_bytes usr_size) s) (\<lambda>s.
     bindr (patch_e H 520 (size_bytes 0x7E6A) s) (\<lambda>s. Inr (out s, reports s)))))))))"

section \<open>Facts\<close>

declare copy_loop.simps [simp del]

lemma bindr_simps [simp]: "bindr (Inr x) f = f x" "bindr (Inl e) f = Inl e"
  by (simp_all add: bindr_def)

lemma die_if_simps [simp]: "die_if False e = Inr ()" "die_if True e = Inl e"
  by (simp_all add: die_if_def)

lemma patch_e_same: "patch_e = patch"
  by (intro ext) (simp add: patch_e_def patch_def out_seek_def set_buf_def out_write_def)

lemma write_end:
  assumes "opos s = length (out s)" and "length (out s) + n \<le> space H" and "n \<le> length (buf s)"
  shows "out_write H n s = Inr (s\<lparr>out := out s @ take n (buf s), opos := length (out s) + n\<rparr>)"
  using assms by (simp add: out_write_def)

lemma copy_loop_spec:
  "length (rest s) = unat sz \<Longrightarrow> opos s = length (out s) \<Longrightarrow> length (buf s) = 1024 \<Longrightarrow>
   length (out s) + unat sz \<le> space H \<Longrightarrow>
   \<exists>s'. copy_loop H name sz s = Inr s' \<and> out s' = out s @ rest s \<and> opos s' = length (out s') \<and>
     length (buf s') = 1024 \<and> reports s' = reports s"
proof (induction "unat sz" arbitrary: sz s rule: less_induct)
  case less
  show ?case
  proof (cases "sz > 0")
    case False
    then have "sz = 0" by (simp add: word_gt_0)
    then show ?thesis using less(2-4) by (subst copy_loop.simps) simp
  next
    case True
    define l where "l = (if sz > 1024 then 1024 else sz)"
    have l: "unat l \<le> 1024" "unat l \<le> unat sz" "0 < unat l"
      using True by (auto simp: l_def word_less_nat_alt)
    let ?d = "take (unat l) (rest s)"
    define s1 where "s1 = s\<lparr>buf := ?d @ drop (length ?d) (buf s), rest := drop (unat l) (rest s)\<rparr>"
    have ld: "length ?d = unat l" using l less(2) by simp
    define s2 where "s2 = s1\<lparr>out := out s @ ?d, opos := length (out s) + unat l\<rparr>"
    have "out_write H (unat l) s1 = Inr s2"
      using write_end [of s1 "unat l" H] less(3-5) l ld by (simp add: s1_def s2_def)
    moreover have "sys_read (unat l) s = (unat l, s1)"
      using ld by (simp add: sys_read_def s1_def)
    ultimately have "copy_loop H name sz s = copy_loop H name (sz - l) s2"
      using True by (subst copy_loop.simps) (simp add: Let_def l_def [symmetric])
    moreover have sub: "unat (sz - l) = unat sz - unat l"
      using l by (simp add: unat_sub word_le_nat_alt)
    moreover have "\<exists>s'. copy_loop H name (sz - l) s2 = Inr s' \<and> out s' = out s2 @ rest s2 \<and>
        opos s' = length (out s') \<and> length (buf s') = 1024 \<and> reports s' = reports s2"
      using less(2-5) l ld sub by (intro less(1)) (simp_all add: s1_def s2_def)
    ultimately show ?thesis by (simp add: s1_def s2_def)
  qed
qed

lemma copy_file_spec:
  assumes "contents H name = Some d" and "length d < 2 ^ 32" and "opos s = length (out s)"
    and "length (buf s) = 1024" and "length (out s) + length d \<le> space H"
  shows "\<exists>s'. copy_file H text name s = Inr (of_nat (length d), s') \<and> out s' = out s @ d \<and>
    opos s' = length (out s') \<and> length (buf s') = 1024 \<and> reports s' = reports s @ [text (of_nat (length d))]"
proof -
  have "unat (of_nat (length d) :: DWord) = length d"
    using assms(2) by (simp add: unsigned_of_nat take_bit_nat_eq_self)
  then show ?thesis
    using copy_loop_spec [of "fprintf (text (of_nat (length d))) (s\<lparr>rest := d\<rparr>)" "of_nat (length d)" H name] assms
    by (auto simp: copy_file_def sys_open_def Let_def fprintf_def)
qed

definition boot_file_ok :: "Byte list \<Rightarrow> bool" where
  "boot_file_ok b \<longleftrightarrow> length b = 544 \<and> take 8 b = minix_hdr \<and>
     \<not> lb 3 b \<and> \<not> lb 4 b \<and> \<not> lb 5 b \<and> \<not> lb 7 b \<and> b ! 542 = 0x55 \<and> b ! 543 = 0xaa"

lemma lb_prefix: "4 * i + 4 \<le> length xs \<Longrightarrow> lb i (xs @ ys) = lb i xs"
  by (simp add: lb_def nth_append)

lemma copy_boot_spec:
  assumes "contents H name = Some b" and "boot_file_ok b" and "length (buf s) = 1024"
    and "out s = []" and "opos s = 0" and "512 \<le> space H"
  shows "\<exists>s'. copy_boot H T name s = Inr s' \<and> out s' = (drop 32 b)[508 := 0, 509 := 0] \<and>
    opos s' = length (out s') \<and> length (buf s') = 1024 \<and> reports s' = reports s @ [boot_text T 512]"
proof -
  have len: "length b = 544" using assms(2) by (simp add: boot_file_ok_def)
  define s1 where "s1 = s\<lparr>rest := drop 32 b, buf := take 32 b @ drop 32 (buf s)\<rparr>"
  have b: "take 32 b @ drop 32 b = b" by simp
  have lbs: "lb i (buf s1) = lb i b" if "i \<le> 7" for i
    using that len lb_prefix [of i "take 32 b" "drop 32 (buf s)"] lb_prefix [of i "take 32 b" "drop 32 b"]
    by (simp add: s1_def)
  have opn: "minix_open H name s = Inr s1"
    using assms(1,2) len lbs [of 3] lbs [of 4] lbs [of 5] lbs [of 7]
    by (simp add: minix_open_def sys_open_def sys_read_def MINIX_HEADER_LEN_def boot_file_ok_def s1_def)
  let ?d = "drop 32 b"
  define s2 where "s2 = s1\<lparr>buf := ?d @ drop 512 (buf s1), rest := [], reports := reports s @ [boot_text T 512]\<rparr>"
  have read: "sys_read 1024 s1 = (512, s1\<lparr>buf := ?d @ drop 512 (buf s1), rest := []\<rparr>)"
    and rep: "fprintf (boot_text T 512) (s1\<lparr>buf := ?d @ drop 512 (buf s1), rest := []\<rparr>) = s2"
    using len by (simp_all add: sys_read_def s1_def s2_def fprintf_def)
  have flag: "buf s2 ! 510 = 0x55" "buf s2 ! 511 = 0xaa"
    using assms(2) len by (simp_all add: s2_def nth_append boot_file_ok_def)
  define s3 where "s3 = s2\<lparr>buf := (buf s2)[508 := 0, 509 := 0]\<rparr>"
  have buf3: "take 512 (buf s3) = ?d[508 := 0, 509 := 0]" "length (buf s3) = 1024"
    using len assms(3) by (simp_all add: s3_def s2_def s1_def list_update_append)
  have "out_write H 512 s3 = Inr (s3\<lparr>out := out s3 @ take 512 (buf s3), opos := length (out s3) + 512\<rparr>)"
    using assms(4-6) buf3 by (intro write_end) (simp_all add: s3_def s2_def s1_def)
  then show ?thesis
    using assms(4) len buf3 flag
    by (simp add: copy_boot_def opn read rep s3_def [symmetric]) (simp add: s3_def s2_def s1_def)
qed

lemma patch_report:
  "bindr (out_seek H p s) (\<lambda>s. bindr (out_write H (length d) (set_buf d (fprintf r s))) f) =
   bindr (patch H p d (fprintf r s)) f"
proof -
  have "fprintf r (s\<lparr>opos := p\<rparr>) = (fprintf r s)\<lparr>opos := p\<rparr>" by (simp add: fprintf_def)
  then show ?thesis by (simp add: patch_def out_seek_def)
qed

lemma patch_spec:
  assumes "seekable H" and "p + length d \<le> length (out s)" and "length (out s) \<le> space H"
  shows "\<exists>s'. patch H p d s = Inr s' \<and> out s' = take p (out s) @ d @ drop (p + length d) (out s) \<and>
    reports s' = reports s"
  using assms by (simp add: patch_def out_seek_def out_write_def set_buf_def)

definition read32 :: "Byte list \<Rightarrow> nat \<Rightarrow> nat" where
  "read32 b p = unat (b ! p) + 2 ^ 8 * unat (b ! (p + 1)) + 2 ^ 16 * unat (b ! (p + 2)) +
     2 ^ 24 * unat (b ! (p + 3))"

lemma unat_byte_of:
  "unat (ucast (drop_bit k n AND 0xff :: DWord) :: Byte) = unat n div 2 ^ k mod 256"
proof -
  have "(ucast (drop_bit k n AND 0xff :: DWord) :: Byte) = ucast (drop_bit k n)"
    unfolding masks(2) by (intro bit_word_eqI) (simp add: bit_simps)
  moreover have "unat n < 2 ^ 32" by (rule order.strict_trans2 [OF unsigned_less]) simp
  then have "unat (drop_bit k n) = unat n div 2 ^ k"
    by (simp add: unsigned_drop_bit_eq take_bit_nat_eq_self drop_bit_eq_div [symmetric])
  ultimately show ?thesis by (simp add: unsigned_ucast_eq take_bit_eq_mod)
qed

lemma read32_size_bytes:
  assumes "length xs = p"
  shows "read32 (xs @ size_bytes n @ ys) p = unat n mod 2 ^ 24"
proof -
  have "unat n mod 2 ^ 24 = unat n mod 256 + 256 * (unat n div 256 mod 256) + 65536 * (unat n div 65536 mod 256)"
    by (simp add: mod_mult2_eq [of "unat n" 65536 256, simplified] mod_mult2_eq [of "unat n" 256 256, simplified])
  then show ?thesis
    using assms unat_byte_of [of 0 n] unat_byte_of [of 8 n] unat_byte_of [of 16 n]
    by (simp add: read32_def size_bytes_def nth_append)
qed

lemma length_size_bytes [simp]: "length (size_bytes n) = 4"
  by (simp add: size_bytes_def)

text \<open>The patched image: boot sector with the image size in paragraphs, then the three words.\<close>

definition disk_image :: "DWord \<Rightarrow> Byte list \<Rightarrow> Byte list \<Rightarrow> Byte list \<Rightarrow> Byte list" where
  "disk_image rdtr sector sysb usr =
     take 500 sector @ take 2 (size_bytes (im_size (of_nat (length sysb)) (of_nat (length usr)))) @
     drop 502 (sector[508 := 0, 509 := 0]) @ size_bytes (of_nat (length sysb)) @
     size_bytes (of_nat (length usr)) @ size_bytes rdtr @ drop 12 sysb @ usr"

lemma patches:
  assumes "seekable H" and "length (out s) \<le> space H"
    and "out s = sector[508 := 0, 509 := 0] @ sysb @ usr" and "length sector = 512" and "12 \<le> length sysb"
  shows "bindr (patch H 500 (take 2 (size_bytes (im_size (of_nat (length sysb)) (of_nat (length usr))))) s) (\<lambda>s.
     bindr (patch H 512 (size_bytes (of_nat (length sysb))) s) (\<lambda>s.
     bindr (patch H 516 (size_bytes (of_nat (length usr))) s) (\<lambda>s.
     bindr (patch H 520 (size_bytes rdtr) s) (\<lambda>s. Inr (out s, reports s))))) =
     Inr (disk_image rdtr sector sysb usr, reports s)"
proof -
  let ?p = "take 2 (size_bytes (im_size (of_nat (length sysb)) (of_nat (length usr))))"
  have p: "length ?p = 2" by simp
  obtain s1 where s1: "patch H 500 ?p s = Inr s1" "out s1 = take 500 (out s) @ ?p @ drop 502 (out s)"
      "reports s1 = reports s"
    using patch_spec [of H 500 ?p s] assms by auto
  have o1: "out s1 = (take 500 sector @ ?p @ drop 502 (sector[508 := 0, 509 := 0])) @ sysb @ usr"
    using assms(3,4) s1(2) by (simp add: take_update_cancel)
  then have l1: "length (out s1) = 512 + length sysb + length usr" "length (out s1) = length (out s)"
    using assms(3,4) by simp_all
  let ?hd = "take 500 sector @ ?p @ drop 502 (sector[508 := 0, 509 := 0])"
  have hd: "length ?hd = 512" using assms(4) by simp
  obtain s2 where s2: "patch H 512 (size_bytes (of_nat (length sysb))) s1 = Inr s2"
      "out s2 = take 512 (out s1) @ size_bytes (of_nat (length sysb)) @ drop 516 (out s1)"
      "reports s2 = reports s1"
    using patch_spec [of H 512 "size_bytes (of_nat (length sysb))" s1] assms l1 by auto
  have o2: "out s2 = (?hd @ size_bytes (of_nat (length sysb))) @ drop 4 sysb @ usr"
    unfolding s2(2) o1 using hd assms(4,5) by simp
  obtain s3 where s3: "patch H 516 (size_bytes (of_nat (length usr))) s2 = Inr s3"
      "out s3 = take 516 (out s2) @ size_bytes (of_nat (length usr)) @ drop 520 (out s2)"
      "reports s3 = reports s2"
    using patch_spec [of H 516 "size_bytes (of_nat (length usr))" s2] assms l1 o2 hd by auto
  have o3: "out s3 = (?hd @ size_bytes (of_nat (length sysb)) @ size_bytes (of_nat (length usr))) @ drop 8 sysb @ usr"
    unfolding s3(2) o2 using hd assms(4,5) by simp
  obtain s4 where s4: "patch H 520 (size_bytes rdtr) s3 = Inr s4"
      "out s4 = take 520 (out s3) @ size_bytes rdtr @ drop 524 (out s3)"
      "reports s4 = reports s3"
    using patch_spec [of H 520 "size_bytes rdtr" s3] assms l1 o3 hd by auto
  have o4: "out s4 = disk_image rdtr sector sysb usr"
    unfolding s4(2) o3 disk_image_def using hd assms(4,5) by simp
  show ?thesis by (simp add: s1(1,3) s2(1,3) s3(1,3) s4(1,3) o4)
qed

definition all_reports :: "texts \<Rightarrow> Byte list \<Rightarrow> Byte list \<Rightarrow> report list" where
  "all_reports T sysb usr = [boot_text T 512, sys_text T (of_nat (length sysb)), usr_text T (of_nat (length usr)),
     image_text T (of_nat (length sysb + length usr))]"

text \<open>The three files of the command line, and room for the image on the output.\<close>

definition build_input :: "host \<Rightarrow> string \<Rightarrow> string \<Rightarrow> string \<Rightarrow> Byte list \<Rightarrow> Byte list \<Rightarrow> Byte list \<Rightarrow> bool" where
  "build_input H b k u boot sysb usr \<longleftrightarrow> contents H b = Some boot \<and> boot_file_ok boot \<and>
     contents H k = Some sysb \<and> contents H u = Some usr \<and> 12 \<le> length sysb \<and> length sysb < 2 ^ 32 \<and>
     length usr < 2 ^ 32 \<and> seekable H \<and> 512 + length sysb + length usr \<le> space H"

lemma copy_phase:
  assumes "build_input H b k u boot sysb usr" and "length uninit = 1024"
  obtains s1 s2 s3 where "copy_boot H T b \<lparr>buf = uninit, rest = [], out = [], opos = 0, reports = []\<rparr> = Inr s1"
    and "copy_file H (sys_text T) k s1 = Inr (of_nat (length sysb), s2)"
    and "copy_file H (usr_text T) u s2 = Inr (of_nat (length usr), s3)"
    and "out s3 = (drop 32 boot)[508 := 0, 509 := 0] @ sysb @ usr" and "length (out s3) \<le> space H"
    and "reports s3 = [boot_text T 512, sys_text T (of_nat (length sysb)), usr_text T (of_nat (length usr))]"
proof -
  let ?s = "\<lparr>buf = uninit, rest = [], out = [], opos = 0, reports = []\<rparr> :: bstate"
  have len: "length boot = 544" using assms(1) by (simp add: build_input_def boot_file_ok_def)
  obtain s1 where s1: "copy_boot H T b ?s = Inr s1" "out s1 = (drop 32 boot)[508 := 0, 509 := 0]"
      "opos s1 = length (out s1)" "length (buf s1) = 1024" "reports s1 = [boot_text T 512]"
    using copy_boot_spec [of H b boot ?s T] assms by (auto simp: build_input_def)
  obtain s2 where s2: "copy_file H (sys_text T) k s1 = Inr (of_nat (length sysb), s2)" "out s2 = out s1 @ sysb"
      "opos s2 = length (out s2)" "length (buf s2) = 1024" "reports s2 = reports s1 @ [sys_text T (of_nat (length sysb))]"
    using copy_file_spec [of H k sysb s1 "sys_text T"] assms s1 len by (auto simp: build_input_def)
  obtain s3 where s3: "copy_file H (usr_text T) u s2 = Inr (of_nat (length usr), s3)" "out s3 = out s2 @ usr"
      "reports s3 = reports s2 @ [usr_text T (of_nat (length usr))]"
    using copy_file_spec [of H u usr s2 "usr_text T"] assms s1 s2 len by (auto simp: build_input_def)
  have o: "out s3 = (drop 32 boot)[508 := 0, 509 := 0] @ sysb @ usr" using s1(2) s2(2) s3(2) by simp
  then have "length (out s3) \<le> space H" using assms(1) len by (simp add: build_input_def)
  with s1 s2 s3 o show thesis by (intro that [of s1 s2 s3]) simp_all
qed

lemma build_image:
  assumes "build_input H b k u boot sysb usr" and "length uninit = 1024"
  shows "build H [n, b, k, u] uninit = Inr (disk_image 0x7E1A (drop 32 boot) sysb usr, all_reports build_texts sysb usr)"
    "build_e H [n, b, k, u] uninit = Inr (disk_image 0x7E6A (drop 32 boot) sysb usr, all_reports build_texts sysb usr)"
    "build_z H [n, b, k, u] uninit = Inr (disk_image 0x7E6A (drop 32 boot) sysb usr, all_reports build_texts_z sysb usr)"
proof -
  have sec: "length (drop 32 boot) = 512" "seekable H" "12 \<le> length sysb"
    using assms(1) by (simp_all add: build_input_def boot_file_ok_def)
  have first: "bindr (out_seek H 500 s) (\<lambda>s. bindr (out_write H 2 (set_buf (take 2 (size_bytes m)) (fprintf r s))) f) =
      bindr (patch H 500 (take 2 (size_bytes m)) (fprintf r s)) f" for s m r and f :: "bstate \<Rightarrow> build_error + Byte list \<times> report list"
    using patch_report [of H 500 s "take 2 (size_bytes m)" r f] by simp
  have run: "bindr (patch H 500 (take 2 (size_bytes (im_size (of_nat (length sysb)) (of_nat (length usr))))) (fprintf r s3)) (\<lambda>s.
     bindr (patch H 512 (size_bytes (of_nat (length sysb))) s) (\<lambda>s.
     bindr (patch H 516 (size_bytes (of_nat (length usr))) s) (\<lambda>s.
     bindr (patch H 520 (size_bytes rdtr) s) (\<lambda>s. Inr (out s, reports s))))) =
       Inr (disk_image rdtr (drop 32 boot) sysb usr, reports s3 @ [r])"
    if "out s3 = (drop 32 boot)[508 := 0, 509 := 0] @ sysb @ usr" "length (out s3) \<le> space H" for s3 r rdtr
    using patches [OF sec(2), of "fprintf r s3" "drop 32 boot" sysb usr rdtr] that sec(1,3)
    by (simp add: fprintf_def)
  obtain s1 s2 s3 where c: "copy_boot H build_texts b \<lparr>buf = uninit, rest = [], out = [], opos = 0, reports = []\<rparr> = Inr s1"
      "copy_file H (sys_text build_texts) k s1 = Inr (of_nat (length sysb), s2)"
      "copy_file H (usr_text build_texts) u s2 = Inr (of_nat (length usr), s3)"
      "out s3 = (drop 32 boot)[508 := 0, 509 := 0] @ sysb @ usr" "length (out s3) \<le> space H"
      "reports s3 = [boot_text build_texts 512, sys_text build_texts (of_nat (length sysb)), usr_text build_texts (of_nat (length usr))]"
    by (rule copy_phase [OF assms, of build_texts])
  show "build H [n, b, k, u] uninit = Inr (disk_image 0x7E1A (drop 32 boot) sysb usr, all_reports build_texts sysb usr)"
    using run [OF c(4,5)] c(6)
    by (simp add: build_def c(1-3) Let_def first all_reports_def)
  show "build_e H [n, b, k, u] uninit = Inr (disk_image 0x7E6A (drop 32 boot) sysb usr, all_reports build_texts sysb usr)"
    using run [OF c(4,5)] c(6) by (simp add: build_e_def c(1-3) patch_e_same Let_def all_reports_def)
  obtain s1 s2 s3 where c: "copy_boot H build_texts_z b \<lparr>buf = uninit, rest = [], out = [], opos = 0, reports = []\<rparr> = Inr s1"
      "copy_file H (sys_text build_texts_z) k s1 = Inr (of_nat (length sysb), s2)"
      "copy_file H (usr_text build_texts_z) u s2 = Inr (of_nat (length usr), s3)"
      "out s3 = (drop 32 boot)[508 := 0, 509 := 0] @ sysb @ usr" "length (out s3) \<le> space H"
      "reports s3 = [boot_text build_texts_z 512, sys_text build_texts_z (of_nat (length sysb)), usr_text build_texts_z (of_nat (length usr))]"
    by (rule copy_phase [OF assms, of build_texts_z])
  show "build_z H [n, b, k, u] uninit = Inr (disk_image 0x7E6A (drop 32 boot) sysb usr, all_reports build_texts_z sysb usr)"
    using run [OF c(4,5)] c(6) by (simp add: build_z_def c(1-3) patch_e_same Let_def all_reports_def)
qed

section \<open>Properties\<close>

text \<open>For a well-formed boot sector and any kernel and user files the builder succeeds, and the
  image carries them so that the loader can take it apart: the signed boot sector first, then the
  two sizes (modulo \<open>2 ^ 24\<close>, as only three bytes of a size are stored) and the value of \<open>rdtr\<close> in
  the first 12 bytes of the kernel, then the rest of the kernel and the whole user program.\<close>

theorem build_roundtrip:
  assumes "build_input H b k u boot sysb usr" and "length uninit = 1024"
  shows "\<exists>img reps. build H [n, b, k, u] uninit = Inr (img, reps) \<and> length img = 512 + length sysb + length usr \<and>
    read32 img 512 = length sysb mod 2 ^ 24 \<and> read32 img 516 = length usr mod 2 ^ 24 \<and>
    read32 img 520 = 0x7E1A \<and> img ! 510 = 0x55 \<and> img ! 511 = 0xaa \<and> take 500 img = take 500 (drop 32 boot) \<and>
    drop 524 (take (512 + length sysb) img) = drop 12 sysb \<and> drop (512 + length sysb) img = usr"
proof -
  let ?sec = "drop 32 boot"
  let ?hd = "take 500 ?sec @ take 2 (size_bytes (im_size (of_nat (length sysb)) (of_nat (length usr)))) @
      drop 502 (?sec[508 := 0, 509 := 0])"
  let ?img = "disk_image 0x7E1A ?sec sysb usr"
  have ok: "boot_file_ok boot" "12 \<le> length sysb" "length sysb < 2 ^ 32" "length usr < 2 ^ 32"
    using assms(1) by (simp_all add: build_input_def)
  then have len: "length boot = 544" by (simp add: boot_file_ok_def)
  then have hd: "length ?hd = 512" by simp
  have un: "unat (of_nat n :: DWord) = n" if "n < 2 ^ 32" for n
    using that by (simp add: unsigned_of_nat take_bit_nat_eq_self)
  have img: "?img = ?hd @ size_bytes (of_nat (length sysb)) @ size_bytes (of_nat (length usr)) @
      size_bytes 0x7E1A @ drop 12 sysb @ usr" by (simp add: disk_image_def)
  have r: "read32 ?img 512 = length sysb mod 2 ^ 24" "read32 ?img 516 = length usr mod 2 ^ 24"
      "read32 ?img 520 = 0x7E1A"
    using read32_size_bytes [OF hd, of "of_nat (length sysb)"]
      read32_size_bytes [of "?hd @ size_bytes (of_nat (length sysb))" 516 "of_nat (length usr)"]
      read32_size_bytes [of "?hd @ size_bytes (of_nat (length sysb)) @ size_bytes (of_nat (length usr))" 520 "0x7E1A"]
      hd un [OF ok(3)] un [OF ok(4)] unfolding img by simp_all
  have f: "?img ! 510 = 0x55" "?img ! 511 = 0xaa"
    using ok(1) len hd unfolding img by (simp_all add: nth_append boot_file_ok_def)
  have "take 500 ?img = take 500 ?sec" "drop 524 (take (512 + length sysb) ?img) = drop 12 sysb"
      "drop (512 + length sysb) ?img = usr" "length ?img = 512 + length sysb + length usr"
    using hd len ok(2) unfolding img by simp_all
  with r f build_image(1) [OF assms] show ?thesis by blast
qed

definition demo_host :: host where
  "demo_host = \<lparr>contents = (\<lambda>n. if n = ''bootsect'' then Some (minix_hdr @ replicate 534 0 @ [0x55, 0xaa])
        else if n = ''system'' then Some (replicate 2000 1) else if n = ''user'' then Some (replicate 30 2) else None),
      seekable = True, space = 10000\<rparr>"

lemma demo_input:
  "build_input demo_host ''bootsect'' ''system'' ''user'' (minix_hdr @ replicate 534 0 @ [0x55, 0xaa])
     (replicate 2000 1) (replicate 30 2)"
proof -
  have "boot_file_ok (minix_hdr @ replicate 534 0 @ [0x55, 0xaa])"
    by (auto simp: boot_file_ok_def lb_def minix_hdr_def nth_append less_Suc_eq eval_nat_numeral)
  then show ?thesis by (simp add: build_input_def demo_host_def)
qed

theorem build_roundtrip_witness:
  "\<exists>img reps. build demo_host [''build'', ''bootsect'', ''system'', ''user''] (replicate 1024 0) = Inr (img, reps) \<and>
    length img = 2542 \<and> read32 img 512 = 2000 \<and> read32 img 516 = 30 \<and> drop 2512 img = replicate 30 2"
  using build_roundtrip [OF demo_input, of "replicate 1024 0" "''build''"] by auto

lemma nth_other_word:
  assumes "length x = 4" and "length y = 4" and "i \<notin> {length a..<length a + 4}"
  shows "(a @ x @ z) ! i = (a @ y @ z) ! i"
  using assms by (auto simp: nth_append)

text \<open>The builders of E1_E2 and of the root kernel, which fill the buffer before they seek, produce the
  image of the builder of GAME except for the word at 520, the address of \<open>rdtr\<close>; the reports of the
  root version give the sizes in bytes and count the boot sector.\<close>

theorem build_versions:
  assumes "build_input H b k u boot sysb usr" and "length uninit = 1024" and "512 + length sysb + length usr < 2 ^ 31"
  shows "\<exists>img img' reps reps'. build H [n, b, k, u] uninit = Inr (img, reps) \<and>
    build_e H [n, b, k, u] uninit = Inr (img', reps) \<and> build_z H [n, b, k, u] uninit = Inr (img', reps') \<and>
    length img' = length img \<and> (\<forall>i<length img. i \<notin> {520..<524} \<longrightarrow> img' ! i = img ! i) \<and> read32 img' 520 = 0x7E6A \<and>
    map (hd \<circ> snd) reps' = [512, int (length sysb), int (length usr), int (length img)]"
proof -
  let ?sec = "drop 32 boot"
  let ?hd = "take 500 ?sec @ take 2 (size_bytes (im_size (of_nat (length sysb)) (of_nat (length usr)))) @
      drop 502 (?sec[508 := 0, 509 := 0]) @ size_bytes (of_nat (length sysb)) @ size_bytes (of_nat (length usr))"
  have len: "length boot = 544" "12 \<le> length sysb" using assms(1) by (simp_all add: build_input_def boot_file_ok_def)
  then have hd: "length ?hd = 520" by simp
  have img: "disk_image r ?sec sysb usr = ?hd @ size_bytes r @ drop 12 sysb @ usr" for r by (simp add: disk_image_def)
  have l: "length (disk_image r ?sec sysb usr) = 512 + length sysb + length usr" for r
    unfolding img using hd len by simp
  have same: "disk_image 0x7E6A ?sec sysb usr ! i = disk_image 0x7E1A ?sec sysb usr ! i" if "i \<notin> {520..<524}" for i
    unfolding img using that hd by (intro nth_other_word) auto
  have "read32 (disk_image 0x7E6A ?sec sysb usr) 520 = 0x7E6A"
    unfolding img using read32_size_bytes [OF hd, of "0x7E6A"] by simp
  moreover have "map (hd \<circ> snd) (all_reports build_texts_z sysb usr) =
      [512, int (length sysb), int (length usr), int (length (disk_image 0x7E1A ?sec sysb usr))]"
  proof -
    have s: "sint (of_nat n :: DWord) = int n" if "n < 2 ^ 31" for n
      using that by (simp add: signed_of_nat signed_take_bit_int_eq_self)
    have "512 + (of_nat (length sysb) + of_nat (length usr)) = (of_nat (512 + length sysb + length usr) :: DWord)" by simp
    then have "sint (512 + (of_nat (length sysb) + of_nat (length usr)) :: DWord) = int (512 + length sysb + length usr)"
      using s [OF assms(3)] by (simp only:)
    then show ?thesis
      using assms(3) s [of "length sysb"] s [of "length usr"]
      by (simp add: all_reports_def build_texts_z_def l)
  qed
  ultimately show ?thesis
    using build_image [OF assms(1,2), of n] same l
    by (intro exI [of _ "disk_image 0x7E1A ?sec sysb usr"] exI [of _ "disk_image 0x7E6A ?sec sysb usr"]
        exI [of _ "all_reports build_texts sysb usr"] exI [of _ "all_reports build_texts_z sysb usr"]) simp
qed

theorem build_versions_witness:
  "\<exists>img img' reps reps'. build demo_host [''build'', ''bootsect'', ''system'', ''user''] (replicate 1024 0) = Inr (img, reps) \<and>
    build_z demo_host [''build'', ''bootsect'', ''system'', ''user''] (replicate 1024 0) = Inr (img', reps') \<and>
    read32 img' 520 = 0x7E6A \<and> map (hd \<circ> snd) reps' = [512, 2000, 30, int (length img)]"
proof -
  have "length (replicate 1024 (0 :: Byte)) = 1024" "512 + length (replicate 2000 (1 :: Byte)) + length (replicate 30 (2 :: Byte)) < 2 ^ 31"
    by simp_all
  from build_versions [OF demo_input this, of "''build''"] show ?thesis
    unfolding length_replicate of_nat_numeral by (elim exE conjE) (intro exI conjI; assumption)
qed

end
