(* ===== verification/Zeos_Hw.thy ===== *)
theory Zeos_Hw
  imports Zeos_Types
begin

text \<open>
  The processor tables the kernels fill at boot: segment descriptors and task state segment
  (\<open>setGdt\<close>, \<open>setTSS\<close> of \<^verbatim>\<open>mm.c\<close>), the interrupt descriptor table (\<^verbatim>\<open>interrupt.c\<close>), the
  \<open>sysenter\<close> registers, and the instructions of \<^verbatim>\<open>hardware.c\<close> and \<open>set_seg_regs\<close> that load
  them, and the calls of \<open>main\<close> that use them. Addresses the linker chooses are the record \<open>hw_cfg\<close>; \<open>set_handlers\<close>, a routine of
  \<^verbatim>\<open>libzeos.a\<close> which fills the exception vectors, is a parameter.
\<close>

section \<open>State\<close>

record hw =
  gdt :: "nat \<Rightarrow> Descriptor"
  gdtR :: Register
  idt :: "nat \<Rightarrow> Gate"
  idtR :: Register
  tss :: TSS
  reg_gdtr :: Register       \<comment> \<open>processor registers from here on\<close>
  reg_idtr :: Register
  reg_ldtr :: WORD
  reg_tr :: WORD
  reg_eflags :: DWord
  reg_ds :: WORD
  reg_es :: WORD
  reg_fs :: WORD
  reg_gs :: WORD
  reg_ss :: WORD
  reg_cs :: WORD
  reg_esp :: DWord
  reg_eip :: DWord
  msr :: "DWord \<Rightarrow> DWord \<times> DWord"    \<comment> \<open>high and low half\<close>
  port_21 :: Byte            \<comment> \<open>interrupt mask of the master PIC\<close>
  word_at :: "DWord \<Rightarrow> DWord"

record hw_cfg =
  at_tss :: DWord
  at_idt :: DWord
  INITIAL_ESP :: DWord
  USER_ESP :: DWord
  at_handler :: "string \<Rightarrow> DWord"
  set_handlers :: "hw \<Rightarrow> hw"

definition IDT_ENTRIES :: nat where "IDT_ENTRIES = 256"

section \<open>\<^verbatim>\<open>hardware.c\<close>\<close>

definition get_eflags :: "hw \<Rightarrow> DWord" where
  "get_eflags h = reg_eflags h"

text \<open>Bit 1 of the flags register is always set.\<close>

definition set_eflags :: "hw \<Rightarrow> hw" where
  "set_eflags h = h\<lparr>reg_eflags := 2\<rparr>"

definition set_idt_reg :: "Register \<Rightarrow> hw \<Rightarrow> hw" where
  "set_idt_reg r h = h\<lparr>reg_idtr := r\<rparr>"

definition set_gdt_reg :: "Register \<Rightarrow> hw \<Rightarrow> hw" where
  "set_gdt_reg r h = h\<lparr>reg_gdtr := r\<rparr>"

definition set_ldt_reg :: "WORD \<Rightarrow> hw \<Rightarrow> hw" where
  "set_ldt_reg ldt h = h\<lparr>reg_ldtr := ldt\<rparr>"

definition set_task_reg :: "WORD \<Rightarrow> hw \<Rightarrow> hw" where
  "set_task_reg tr h = h\<lparr>reg_tr := tr\<rparr>"

text \<open>
  The far return pops the code pointer and, because the privilege level drops, the stack
  pointer that the routine pushed; \<open>rdtr\<close> is \<open>*p_rdtr\<close>.
\<close>

definition return_gate :: "DWord \<Rightarrow> WORD \<Rightarrow> WORD \<Rightarrow> DWord \<Rightarrow> WORD \<Rightarrow> DWord \<Rightarrow> hw \<Rightarrow> hw" where
  "return_gate rdtr ds ss sp cs ip h =
     (let h = h\<lparr>reg_es := ds, reg_ds := ds\<rparr>;
          h = h\<lparr>word_at := (word_at h)(sp + 12 := rdtr)\<rparr>
      in h\<lparr>reg_ss := ss, reg_esp := sp, reg_cs := cs, reg_eip := ip\<rparr>)"

definition delay :: "hw \<Rightarrow> hw" where
  "delay h = h"

definition enable_int :: "hw \<Rightarrow> hw" where
  "enable_int h =
     (let h = delay (h\<lparr>port_21 := 0xfc\<rparr>) in h\<lparr>reg_eflags := reg_eflags h OR INITIAL_EFLAGS\<rparr>)"

text \<open>\<^verbatim>\<open>system.c\<close>; \<open>cld\<close> clears the direction flag, bit 10.\<close>

definition set_seg_regs :: "WORD \<Rightarrow> WORD \<Rightarrow> DWord \<Rightarrow> hw \<Rightarrow> hw" where
  "set_seg_regs data_sel stack_sel sp h =
     (let sp = sp - 5 * 4
      in h\<lparr>reg_eflags := reg_eflags h AND NOT 0x400, reg_ds := data_sel, reg_es := data_sel,
           reg_fs := data_sel, reg_gs := data_sel, reg_ss := stack_sel, reg_esp := sp\<rparr>)"

definition setMSR :: "DWord \<Rightarrow> DWord \<Rightarrow> DWord \<Rightarrow> hw \<Rightarrow> hw" where
  "setMSR msr_number high low h = h\<lparr>msr := (msr h)(msr_number := (high, low))\<rparr>"

section \<open>Segments and task state segment\<close>

definition setGdt :: "hw_cfg \<Rightarrow> hw \<Rightarrow> hw" where
  "setGdt C h =
     (let i = unat (drop_bit 3 KERNEL_TSS);
          d = (gdt h i)\<lparr>lowBase := lowWord (at_tss C), midBase := midByte (at_tss C),
                       highBase := highByte (at_tss C)\<rparr>;
          h = h\<lparr>gdt := (gdt h)(i := d)\<rparr>;
          h = h\<lparr>gdtR := \<lparr>r_limit = 256 * 8, r_base = GDT_START\<rparr>\<rparr>
      in set_gdt_reg (gdtR h) h)"

definition setTSS :: "hw_cfg \<Rightarrow> hw \<Rightarrow> hw" where
  "setTSS C h = set_task_reg KERNEL_TSS (h\<lparr>tss := \<lparr>
     t_PreviousTaskLink = 0,
     t_esp0 = INITIAL_ESP C,
     t_ss0 = KERNEL_DS,
     t_esp1 = 0,
     t_ss1 = 0,
     t_esp2 = 0,
     t_ss2 = 0,
     t_cr3 = 0,
     t_eip = 0,
     t_eFlags = INITIAL_EFLAGS,
     t_eax = 0,
     t_ecx = 0,
     t_edx = 0,
     t_ebx = 0,
     t_esp = USER_ESP C,
     t_ebp = USER_ESP C,
     t_esi = 0,
     t_edi = 0,
     t_es = USER_DS,
     t_cs = USER_CS,
     t_ss = USER_DS,
     t_ds = USER_DS,
     t_fs = 0,
     t_gs = 0,
     t_LDTSegmentSelector = KERNEL_TSS,
     t_debugTrap = 0,
     t_IOMapBaseAddress = 0\<rparr>\<rparr>)"

section \<open>Interrupt descriptor table\<close>

definition setInterruptHandler :: "nat \<Rightarrow> DWord \<Rightarrow> int \<Rightarrow> hw \<Rightarrow> hw" where
  "setInterruptHandler vector handler maxAccessibleFromPL h =
     (let flags = word_of_int (push_bit 13 maxAccessibleFromPL);
          flags = flags OR 0x8E00
      in h\<lparr>idt := (idt h)(vector := \<lparr>lowOffset = lowWord handler, segmentSelector = KERNEL_CS,
             gflags = flags, highOffset = highWord handler\<rparr>)\<rparr>)"

text \<open>The comment in the code explains why a trap gate is programmed as an interrupt gate.\<close>

definition setTrapHandler :: "nat \<Rightarrow> DWord \<Rightarrow> int \<Rightarrow> hw \<Rightarrow> hw" where
  "setTrapHandler vector handler maxAccessibleFromPL h =
     (let flags = word_of_int (push_bit 13 maxAccessibleFromPL);
          flags = flags OR 0x8E00
      in h\<lparr>idt := (idt h)(vector := \<lparr>lowOffset = lowWord handler, segmentSelector = KERNEL_CS,
             gflags = flags, highOffset = highWord handler\<rparr>)\<rparr>)"

definition setSysenter :: "hw_cfg \<Rightarrow> hw \<Rightarrow> hw" where
  "setSysenter C =
     setMSR 0x176 0 (at_handler C ''system_call_handler'') \<circ> setMSR 0x175 0 (INITIAL_ESP C) \<circ>
     setMSR 0x174 0 (ucast KERNEL_CS)"

definition idt_register :: "hw_cfg \<Rightarrow> Register" where
  "idt_register C = \<lparr>r_limit = of_nat (IDT_ENTRIES * 8 - 1), r_base = at_idt C\<rparr>"

text \<open>\<open>setIdt\<close> of GAME.\<close>

definition setIdt :: "hw_cfg \<Rightarrow> hw \<Rightarrow> hw" where
  "setIdt C h =
     (let h = h\<lparr>idtR := idt_register C\<rparr>;
          h = set_handlers C h;
          h = setInterruptHandler 32 (at_handler C ''clock_handler'') 0 h;
          h = setInterruptHandler 33 (at_handler C ''keyboard_handler'') 0 h;
          h = setSysenter C h
      in set_idt_reg (idtR h) h)"

text \<open>\<open>setIdt\<close> of E1_E2, with a page fault handler and the vector \<open>0x80\<close> for system calls.\<close>

definition writeMSR :: "DWord \<Rightarrow> DWord \<Rightarrow> hw \<Rightarrow> hw" where
  "writeMSR n v h = h\<lparr>msr := (msr h)(n := (0, v))\<rparr>"

definition setIdt_e :: "hw_cfg \<Rightarrow> hw \<Rightarrow> hw" where
  "setIdt_e C h =
     (let h = h\<lparr>idtR := idt_register C\<rparr>;
          h = set_handlers C h;
          h = setInterruptHandler 33 (at_handler C ''keyboard_handler'') 0 h;
          h = setInterruptHandler 32 (at_handler C ''clock_handler'') 0 h;
          h = setInterruptHandler 14 (at_handler C ''my_page_fault_handler'') 0 h;
          h = setTrapHandler 0x80 (at_handler C ''system_call_handler'') 3 h;
          h = writeMSR 0x174 (ucast KERNEL_CS) h;
          h = writeMSR 0x175 (INITIAL_ESP C) h;
          h = writeMSR 0x176 (at_handler C ''syscall_handler_sysenter'') h
      in set_idt_reg (idtR h) h)"

text \<open>\<open>setIdt\<close> of the root kernel, whose \<open>main\<close> programs the \<open>sysenter\<close> registers.\<close>

definition setIdt_z :: "hw_cfg \<Rightarrow> hw \<Rightarrow> hw" where
  "setIdt_z C h =
     (let h = h\<lparr>idtR := idt_register C\<rparr>;
          h = set_handlers C h;
          h = setInterruptHandler 32 (at_handler C ''clock_handler'') 0 h;
          h = setInterruptHandler 33 (at_handler C ''keyboard_handler'') 0 h;
          h = setInterruptHandler 14 (at_handler C ''my_page_fault_handler'') 0 h;
          h = setTrapHandler 0x80 (at_handler C ''system_call_handler'') 3 h
      in set_idt_reg (idtR h) h)"

section \<open>The hardware calls of \<open>main\<close>\<close>

text \<open>
  \<^verbatim>\<open>hardware.S\<close> of the root kernel: the gate leaves room on the user stack itself, and \<open>set_seg_regs\<close>, here a
  routine, moves its return address \<open>ret\<close> to the new stack.
\<close>

definition return_gate_z :: "DWord \<Rightarrow> WORD \<Rightarrow> WORD \<Rightarrow> DWord \<Rightarrow> WORD \<Rightarrow> DWord \<Rightarrow> hw \<Rightarrow> hw" where
  "return_gate_z rdtr ds ss sp cs ip h =
     (let h = h\<lparr>reg_es := ds, reg_ds := ds\<rparr>;
          sp = sp - 16;
          h = h\<lparr>word_at := (word_at h)(sp + 12 := rdtr)\<rparr>
      in h\<lparr>reg_ss := ss, reg_esp := sp, reg_cs := cs, reg_eip := ip\<rparr>)"

definition set_seg_regs_z :: "DWord \<Rightarrow> WORD \<Rightarrow> WORD \<Rightarrow> DWord \<Rightarrow> hw \<Rightarrow> hw" where
  "set_seg_regs_z ret data_sel stack_sel sp h =
     (let h = h\<lparr>reg_eflags := reg_eflags h AND NOT 0x400, reg_ds := data_sel, reg_es := data_sel,
                reg_fs := data_sel, reg_gs := data_sel\<rparr>;
          sp = sp - 0x10;
          h = h\<lparr>reg_ss := stack_sel, word_at := (word_at h)(sp - 4 := ret)\<rparr>
      in h\<lparr>reg_esp := sp\<rparr>)"

text \<open>
  The calls of the three \<open>main\<close> functions that program the processor, in their order; the calls between
  them (memory, scheduler, console) do not touch this state. \<open>rdtr\<close> is \<open>*p_rdtr\<close> and \<open>stack\<close> the array
  GAME and E1_E2 use as stack of \<open>main\<close>. The user entry point is \<open>L_USER_START\<close> in GAME and
  \<open>PAG_LOG_INIT_CODE * PAGE_SIZE\<close> in the others.
\<close>

definition hw_main :: "hw_cfg \<Rightarrow> DWord \<Rightarrow> DWord \<Rightarrow> hw \<Rightarrow> hw" where
  "hw_main C stack rdtr h =
     (let h = set_eflags h;
          h = set_seg_regs KERNEL_DS KERNEL_DS stack h;
          h = setGdt C h;
          h = setIdt C h;
          h = setTSS C h;
          h = enable_int h
      in return_gate rdtr USER_DS USER_DS (USER_ESP C) USER_CS 0x100000 h)"

definition hw_main_e :: "hw_cfg \<Rightarrow> DWord \<Rightarrow> DWord \<Rightarrow> hw \<Rightarrow> hw" where
  "hw_main_e C stack rdtr h =
     (let h = set_eflags h;
          h = set_seg_regs KERNEL_DS KERNEL_DS stack h;
          h = setGdt C h;
          h = setIdt_e C h;
          h = setTSS C h;
          h = enable_int h
      in return_gate rdtr USER_DS USER_DS (USER_ESP C) USER_CS 0x114000 h)"

definition hw_main_z :: "hw_cfg \<Rightarrow> DWord \<Rightarrow> DWord \<Rightarrow> hw \<Rightarrow> hw" where
  "hw_main_z C ret rdtr h =
     (let h = set_eflags h;
          h = set_seg_regs_z ret KERNEL_DS KERNEL_DS (INITIAL_ESP C) h;
          h = setGdt C h;
          h = setIdt_z C h;
          h = setTSS C h;
          h = writeMSR 0x174 (ucast KERNEL_CS) h;
          h = writeMSR 0x175 (INITIAL_ESP C) h;
          h = writeMSR 0x176 (at_handler C ''syscall_handler_sysenter'') h;
          h = enable_int h
      in return_gate_z rdtr USER_DS USER_DS (USER_ESP C) USER_CS 0x414000 h)"

section \<open>What the processor finds\<close>

text \<open>
  On interrupt \<open>v\<close> the processor reads the gate \<open>v\<close> of the table: it enters the handler if
  the gate is present and, for a software interrupt, if the privilege level of the code is
  at most that of the gate.
\<close>

definition gate_offset :: "Gate \<Rightarrow> DWord" where
  "gate_offset g = push_bit 16 (ucast (highOffset g)) OR ucast (lowOffset g)"

definition gate_dpl :: "Gate \<Rightarrow> nat" where
  "gate_dpl g = unat (take_bit 2 (drop_bit 13 (gflags g)))"

definition gate_present :: "Gate \<Rightarrow> bool" where
  "gate_present g \<longleftrightarrow> bit (gflags g) 15"

definition soft_int :: "hw \<Rightarrow> nat \<Rightarrow> nat \<Rightarrow> DWord option" where
  "soft_int h cpl v =
     (let g = idt h v in
      if v * 8 + 7 \<le> unat (r_limit (reg_idtr h)) \<and> gate_present g \<and> cpl \<le> gate_dpl g
      then Some (gate_offset g) else None)"

lemma handlers_same: "setTrapHandler = setInterruptHandler"
  by (intro ext) (simp add: setTrapHandler_def setInterruptHandler_def)

lemma handler_idt:
  "idt (setInterruptHandler v a 0 h) v' =
     (if v' = v then \<lparr>lowOffset = lowWord a, segmentSelector = KERNEL_CS, gflags = 0x8E00,
        highOffset = highWord a\<rparr> else idt h v')"
  "idt (setInterruptHandler v a 3 h) v' =
     (if v' = v then \<lparr>lowOffset = lowWord a, segmentSelector = KERNEL_CS, gflags = 0xEE00,
        highOffset = highWord a\<rparr> else idt h v')"
  "reg_idtr (setInterruptHandler v a pl h) = reg_idtr h" "idtR (setInterruptHandler v a pl h) = idtR h"
  by (simp_all add: setInterruptHandler_def Let_def push_bit_of_0)

lemma gate_fields:
  "gate_offset \<lparr>lowOffset = lowWord a, segmentSelector = cs, gflags = fl, highOffset = highWord a\<rparr> = a"
  "gate_dpl \<lparr>lowOffset = lo, segmentSelector = cs, gflags = 0x8E00, highOffset = hi\<rparr> = 0"
  "gate_dpl \<lparr>lowOffset = lo, segmentSelector = cs, gflags = 0xEE00, highOffset = hi\<rparr> = 3"
  "gate_present \<lparr>lowOffset = lo, segmentSelector = cs, gflags = 0x8E00, highOffset = hi\<rparr>"
  "gate_present \<lparr>lowOffset = lo, segmentSelector = cs, gflags = 0xEE00, highOffset = hi\<rparr>"
  by (simp_all add: gate_offset_def address_from_words gate_dpl_def gate_present_def)

lemma setIdt_idtr:
  assumes "\<And>h. idtR (set_handlers C h) = idtR h"
  shows "reg_idtr (setIdt C h) = idt_register C" "reg_idtr (setIdt_e C h) = idt_register C"
    "reg_idtr (setIdt_z C h) = idt_register C"
  using assms
  by (simp_all add: setIdt_def setIdt_e_def setIdt_z_def set_idt_reg_def setSysenter_def setMSR_def
      writeMSR_def handlers_same handler_idt Let_def)

lemma setIdt_gates:
  "idt (setIdt C h) = idt (setInterruptHandler 33 (at_handler C ''keyboard_handler'') 0
     (setInterruptHandler 32 (at_handler C ''clock_handler'') 0 (set_handlers C (h\<lparr>idtR := idt_register C\<rparr>))))"
  "idt (setIdt_e C h) = idt (setInterruptHandler 0x80 (at_handler C ''system_call_handler'') 3
     (setInterruptHandler 14 (at_handler C ''my_page_fault_handler'') 0
     (setInterruptHandler 32 (at_handler C ''clock_handler'') 0
     (setInterruptHandler 33 (at_handler C ''keyboard_handler'') 0 (set_handlers C (h\<lparr>idtR := idt_register C\<rparr>))))))"
  "idt (setIdt_z C h) = idt (setInterruptHandler 0x80 (at_handler C ''system_call_handler'') 3
     (setInterruptHandler 14 (at_handler C ''my_page_fault_handler'') 0
     (setInterruptHandler 33 (at_handler C ''keyboard_handler'') 0
     (setInterruptHandler 32 (at_handler C ''clock_handler'') 0 (set_handlers C (h\<lparr>idtR := idt_register C\<rparr>))))))"
  by (simp_all add: setIdt_def setIdt_e_def setIdt_z_def set_idt_reg_def setSysenter_def setMSR_def
      writeMSR_def handlers_same Let_def)

section \<open>Properties\<close>

text \<open>After \<open>setIdt\<close> the processor enters the clock, keyboard and page fault handlers on their
  vectors, user code cannot raise those vectors itself, and in the kernels with the vector
  \<open>0x80\<close> user code enters the system call handler through it. The library routine
  \<open>set_handlers\<close> is only assumed to leave \<open>idtR\<close> alone.\<close>

theorem interrupt_dispatch:
  assumes "\<And>h. idtR (set_handlers C h) = idtR h"
  shows "soft_int (setIdt C h) 0 32 = Some (at_handler C ''clock_handler'') \<and>
    soft_int (setIdt C h) 0 33 = Some (at_handler C ''keyboard_handler'') \<and>
    soft_int (setIdt C h) 3 32 = None \<and> soft_int (setIdt C h) 3 33 = None \<and>
    (\<forall>h'\<in>{setIdt_e C h, setIdt_z C h}.
       soft_int h' 0 32 = Some (at_handler C ''clock_handler'') \<and>
       soft_int h' 0 33 = Some (at_handler C ''keyboard_handler'') \<and>
       soft_int h' 0 14 = Some (at_handler C ''my_page_fault_handler'') \<and>
       soft_int h' 3 32 = None \<and> soft_int h' 3 33 = None \<and> soft_int h' 3 14 = None \<and>
       soft_int h' 3 0x80 = Some (at_handler C ''system_call_handler''))"
  by (simp add: soft_int_def Let_def setIdt_idtr [OF assms] setIdt_gates handler_idt gate_fields
      idt_register_def IDT_ENTRIES_def)

theorem interrupt_dispatch_witness:
  "\<forall>h. soft_int (setIdt_e \<lparr>at_tss = 0x20000, at_idt = 0x21000, INITIAL_ESP = 0x30000, USER_ESP = 0x113ff0,
      at_handler = (\<lambda>n. 0x10000 + of_nat (length n)), set_handlers = (\<lambda>h. h)\<rparr> h) 3 0x80 = Some 0x10013"
proof -
  let ?C = "\<lparr>at_tss = 0x20000, at_idt = 0x21000, INITIAL_ESP = 0x30000, USER_ESP = 0x113ff0,
      at_handler = (\<lambda>n. 0x10000 + of_nat (length n)), set_handlers = (\<lambda>h. h)\<rparr> :: hw_cfg"
  show ?thesis using interrupt_dispatch [of ?C] by simp
qed

text \<open>\<open>setGdt\<close> makes the task register's descriptor point at the task state segment and changes
  no other descriptor, and \<open>setTSS\<close> loads that selector with the initial kernel stack.\<close>

theorem tss_descriptor:
  "(let h' = setTSS C (setGdt C h); d = gdt h' (unat (reg_tr h') div 8) in
     push_bit 24 (ucast (highBase d)) OR push_bit 16 (ucast (midBase d)) OR ucast (lowBase d) = at_tss C \<and>
     gdt h' = (gdt h)(6 := d) \<and>
     reg_gdtr h' = \<lparr>r_limit = 2048, r_base = GDT_START\<rparr> \<and>
     t_ss0 (tss h') = KERNEL_DS \<and> t_esp0 (tss h') = INITIAL_ESP C)"
proof -
  have "unat (drop_bit 3 KERNEL_TSS) = 6" "unat KERNEL_TSS div 8 = 6" by (simp_all add: KERNEL_TSS_def)
  then show ?thesis
    by (simp add: setTSS_def setGdt_def Let_def set_task_reg_def set_gdt_reg_def address_from_base_parts)
qed

end
