(* ===== verification/Boot_Image.thy ===== *)
theory Boot_Image
  imports Boot_Facts Zeos_Build Zeos_Hw
begin

text \<open>
  The boot sector together with what comes before and after it: the image the builder writes is
  the image the loader takes apart, the segment descriptors in the sector are the ones the
  kernels' selectors and \<open>setGdt\<close> expect, and the programming of the interrupt controllers
  is the one the vectors of \<open>setIdt\<close> expect.
\<close>

section \<open>Image\<close>

text \<open>The assembled sector: 435 bytes of code and variables, then the data at fixed offsets.\<close>

definition assembled :: "Byte list \<Rightarrow> bool" where
  "assembled boot \<longleftrightarrow> boot_file_ok boot \<and> drop (32 + 435) boot = org_435"

definition disk_holds :: "Byte list \<Rightarrow> disk \<Rightarrow> bool" where
  "disk_holds img d \<longleftrightarrow> (\<forall>i<length img. d i = img ! i)"

text \<open>\<open>*p_sys_size\<close>, \<open>*p_usr_size\<close> and \<open>*p_rdtr\<close> of \<^verbatim>\<open>system.c\<close>, and the bytes \<open>main\<close> copies to the user pages.\<close>

definition p_sys_size :: "memory \<Rightarrow> DWord" where
  "p_sys_size m = get32 m KERNEL_START"

definition p_usr_size :: "memory \<Rightarrow> DWord" where
  "p_usr_size m = get32 m (KERNEL_START + 4)"

definition p_rdtr :: "memory \<Rightarrow> DWord" where
  "p_rdtr m = get32 m (KERNEL_START + 8)"

definition loaded_user :: "memory \<Rightarrow> Byte list" where
  "loaded_user m = map (\<lambda>i. m (KERNEL_START + p_sys_size m + of_nat i)) [0..<unat (p_usr_size m)]"

lemma length_org_435: "length org_435 = 77" "length boot_gdt = 56"
  by (simp_all add: org_435_def boot_gdt_def dot_word_def)

lemma org_435_nth:
  "i < 56 \<Longrightarrow> org_435 ! i = boot_gdt ! i" "map (\<lambda>i. org_435 ! (56 + i)) [0..<7] = [0, 0, 0, 0, 0, 0, 0]"
  "map (\<lambda>i. org_435 ! (67 + i)) [0..<6] = [0x00, 0x80, 0xb3, 0x01, 0x09, 0x00]"
  by (simp_all add: org_435_def nth_append length_org_435 dot_word_def SETUPSECS_def SYSSIZE_def upt_rec)

lemma get32_size_bytes:
  assumes "\<And>i. i < 4 \<Longrightarrow> m (a + of_nat i) = size_bytes n ! i"
  shows "get32 m a = take_bit 24 n"
proof -
  have "m a = ucast (n AND 0xff)" "m (a + 1) = ucast (drop_bit 8 n AND 0xff)"
      "m (a + 2) = ucast (drop_bit 16 n AND 0xff)" "m (a + 2 + 1) = 0"
    using assms [of 0] assms [of 1] assms [of 2] assms [of 3] by (simp_all add: size_bytes_def add.commute)
  then have "bit (get32 m a) k \<longleftrightarrow> bit (take_bit 24 n) k" for k
    unfolding get32_def get16_def masks
    by (cases "k < 8"; cases "k < 16")
      (auto simp: bit_or_iff bit_push_bit_iff bit_ucast_iff bit_and_iff bit_mask_iff bit_drop_bit_eq bit_take_bit_iff)
  then show ?thesis by (simp add: bit_eq_iff)
qed

text \<open>The layout of the image, as far as the loader depends on it.\<close>

lemma image_layout:
  fixes usr :: "Byte list" and rdtr :: DWord
  assumes "assembled boot" and "12 \<le> length sysb"
  defines "img \<equiv> disk_image rdtr (drop 32 boot) sysb usr"
  shows "length img = 512 + length sysb + length usr"
    and "435 \<le> i \<Longrightarrow> i < 512 \<Longrightarrow> i \<notin> {500, 501} \<Longrightarrow> img ! i = org_435 ! (i - 435)"
    and "i < 2 \<Longrightarrow> img ! (500 + i) = size_bytes (im_size (of_nat (length sysb)) (of_nat (length usr))) ! i"
    and "i < 4 \<Longrightarrow> img ! (512 + i) = size_bytes (of_nat (length sysb)) ! i"
    and "i < 4 \<Longrightarrow> img ! (516 + i) = size_bytes (of_nat (length usr)) ! i"
    and "i < 4 \<Longrightarrow> img ! (520 + i) = size_bytes rdtr ! i"
    and "12 \<le> i \<Longrightarrow> i < length sysb \<Longrightarrow> img ! (512 + i) = sysb ! i"
    and "i < length usr \<Longrightarrow> img ! (512 + length sysb + i) = usr ! i"
proof -
  let ?sec = "drop 32 boot"
  have len: "length boot = 544" using assms(1) by (simp add: assembled_def boot_file_ok_def)
  have sec: "?sec ! k = org_435 ! (k - 435)" if "435 \<le> k" "k < 512" for k
  proof -
    have "org_435 ! (k - 435) = drop 467 boot ! (k - 435)" using assms(1) by (simp add: assembled_def)
    then show ?thesis using that len by simp
  qed
  have z: "org_435 ! 73 = 0" "org_435 ! 74 = 0"
    by (simp_all add: org_435_def nth_append length_org_435 dot_word_def)
  let ?hd = "take 500 ?sec @ take 2 (size_bytes (im_size (of_nat (length sysb)) (of_nat (length usr)))) @
      drop 502 (?sec[508 := 0, 509 := 0])"
  have hd: "length ?hd = 512" using len by simp
  have img: "img = ?hd @ size_bytes (of_nat (length sysb)) @ size_bytes (of_nat (length usr)) @
      size_bytes rdtr @ drop 12 sysb @ usr" by (simp add: img_def disk_image_def)
  show "length img = 512 + length sysb + length usr" using hd assms(2) unfolding img by simp
  show "img ! i = org_435 ! (i - 435)" if "435 \<le> i" "i < 512" "i \<notin> {500, 501}"
    using that sec [of i] z len unfolding img
    by (auto simp: nth_append nth_list_update)
  show "i < 2 \<Longrightarrow> img ! (500 + i) = size_bytes (im_size (of_nat (length sysb)) (of_nat (length usr))) ! i"
    using len unfolding img by (simp add: nth_append)
  show "i < 4 \<Longrightarrow> img ! (512 + i) = size_bytes (of_nat (length sysb)) ! i"
    "i < 4 \<Longrightarrow> img ! (516 + i) = size_bytes (of_nat (length usr)) ! i"
    "i < 4 \<Longrightarrow> img ! (520 + i) = size_bytes rdtr ! i"
    "12 \<le> i \<Longrightarrow> i < length sysb \<Longrightarrow> img ! (512 + i) = sysb ! i"
    "i < length usr \<Longrightarrow> img ! (512 + length sysb + i) = usr ! i"
    using len assms(2) unfolding img by (auto simp: nth_append)
qed

lemma image_size:
  assumes "assembled boot" and "12 \<le> length sysb" and "length sysb + length usr \<le> 0xFFFF0"
    and "disk_holds (disk_image rdtr (drop 32 boot) sysb usr) d"
  shows "unat (disk16 d 500) = (length sysb + length usr + 15) div 16"
proof -
  let ?z = "im_size (of_nat (length sysb)) (of_nat (length usr))"
  have "unat (of_nat (length sysb + length usr + 15) :: DWord) = length sysb + length usr + 15"
    using assms(3) by (simp add: unsigned_of_nat take_bit_nat_eq_self del: of_nat_add)
  moreover have "?z = of_nat (length sysb + length usr + 15) div 16" by (simp add: im_size_def)
  ultimately have z: "unat ?z = (length sysb + length usr + 15) div 16" by (simp add: unat_div del: of_nat_add)
  note l = image_layout [OF assms(1,2), where rdtr = rdtr and usr = usr]
  have "d 500 = size_bytes ?z ! 0" "d 501 = size_bytes ?z ! 1"
    using assms(4) l(1) l(3) [of 0] l(3) [of 1] by (simp_all add: disk_holds_def)
  then have "disk16 d 500 = (ucast ?z :: WORD)"
    unfolding disk16_def size_bytes_def masks
    by (intro bit_word_eqI)
      (auto simp: bit_or_iff bit_push_bit_iff bit_ucast_iff bit_and_iff bit_mask_iff bit_drop_bit_eq)
  moreover have "(length sysb + length usr + 15) div 16 < 65536"
    using assms(3) less_mult_imp_div_less [of "length sysb + length usr + 15" 65536 16] by simp
  ultimately show ?thesis using z by (simp add: unsigned_ucast_eq take_bit_nat_eq_self)
qed

text \<open>
  What the kernel finds: flat segments loaded from \<open>GDT_START\<close>, the entry point \<open>0x10010\<close>, the kernel
  with its three header words at \<open>KERNEL_START\<close> and the user program behind it. An image starts
  if every machine whose diskette holds it comes to that point.
\<close>

definition kernel_ready :: "entry32 \<Rightarrow> memory \<Rightarrow> DWord \<Rightarrow> Byte list \<Rightarrow> Byte list \<Rightarrow> bool" where
  "kernel_ready e m rdtr sysb usr \<longleftrightarrow>
     e = \<lparr>e_idtr = \<lparr>r_limit = 0, r_base = 0\<rparr>, e_gdtr = \<lparr>r_limit = 0x8000, r_base = GDT_START\<rparr>,
          e_cr0 = 1, e_cs = KERNEL_CS, e_eip = 0x10010\<rparr> \<and>
     (\<forall>i<56. m (GDT_START + of_nat i) = boot_gdt ! i) \<and>
     p_sys_size m = of_nat (length sysb) \<and> p_usr_size m = of_nat (length usr) \<and> p_rdtr m = rdtr \<and>
     (\<forall>i. 12 \<le> i \<longrightarrow> i < length sysb \<longrightarrow> m (KERNEL_START + of_nat i) = sysb ! i) \<and>
     loaded_user m = usr"

definition starts :: "(boot \<Rightarrow> boot) \<Rightarrow> Byte list \<Rightarrow> DWord \<Rightarrow> Byte list \<Rightarrow> Byte list \<Rightarrow> bool" where
  "starts message img rdtr sysb usr \<longleftrightarrow>
     (\<forall>d B m. disk_holds img d \<longrightarrow> bios_reads d B \<longrightarrow> a20_opens B \<longrightarrow> first_sector d m \<longrightarrow>
       (\<exists>s e. bootsect message B (firmware m) = Some (s, e) \<and> kernel_ready e (bmem s) rdtr sysb usr))"

lemma entry_registers:
  assumes "\<And>i. 435 \<le> i \<Longrightarrow> i < 512 \<Longrightarrow> i \<notin> {500, 501} \<Longrightarrow> bmem s (0x90000 + of_nat i) = org_435 ! (i - 435)"
  shows "protected_mode s = \<lparr>e_idtr = \<lparr>r_limit = 0, r_base = 0\<rparr>, e_gdtr = \<lparr>r_limit = 0x8000, r_base = GDT_START\<rparr>,
      e_cr0 = 1, e_cs = KERNEL_CS, e_eip = 0x10010\<rparr>"
proof -
  have i: "bmem s 0x901EB = 0" "bmem s 0x901EC = 0" "bmem s 0x901ED = 0" "bmem s 0x901EE = 0" "bmem s 0x901EF = 0" "bmem s 0x901F0 = 0"
    using assms [of 491] assms [of 492] assms [of 493] assms [of 494] assms [of 495] assms [of 496] org_435_nth(2)
    by (simp_all add: upt_rec)
  have g: "bmem s 0x901F6 = 0" "bmem s 0x901F7 = 0x80" "bmem s 0x901F8 = 0xb3" "bmem s 0x901F9 = 1" "bmem s 0x901FA = 9" "bmem s 0x901FB = 0"
    using assms [of 502] assms [of 503] assms [of 504] assms [of 505] assms [of 506] assms [of 507] org_435_nth(3)
    by (simp_all add: upt_rec)
  show ?thesis
    by (simp add: protected_mode_def load_dtr_def get32_def get16_def INITSEG_addr i g GDT_START_def)
qed

lemma header_words:
  fixes usr :: "Byte list"
  assumes "12 \<le> length sysb" and "length sysb + length usr \<le> 0x7FFF0" and "rdtr < 0x10000"
    and "\<And>i. i < 4 \<Longrightarrow> m (0x10000 + of_nat i) = size_bytes (of_nat (length sysb)) ! i"
    and "\<And>i. i < 4 \<Longrightarrow> m (0x10000 + of_nat (4 + i)) = size_bytes (of_nat (length usr)) ! i"
    and "\<And>i. i < 4 \<Longrightarrow> m (0x10000 + of_nat (8 + i)) = size_bytes rdtr ! i"
    and "\<And>i. i < length usr \<Longrightarrow> m (0x10000 + of_nat (length sysb + i)) = usr ! i"
  shows "p_sys_size m = of_nat (length sysb)" "p_usr_size m = of_nat (length usr)" "p_rdtr m = rdtr" "loaded_user m = usr"
proof -
  have small: "take_bit 24 w = w" if "unat w < 2 ^ 24" for w :: DWord
    using that by (simp add: word_unat_eq_iff unsigned_take_bit_eq take_bit_nat_eq_self)
  have un: "unat (of_nat (length sysb) :: DWord) = length sysb" "unat (of_nat (length usr) :: DWord) = length usr"
    using assms(2) by (simp_all add: unsigned_of_nat take_bit_nat_eq_self)
  show s: "p_sys_size m = of_nat (length sysb)"
    using get32_size_bytes [of m "0x10000" "of_nat (length sysb)"] assms(4) small un assms(2)
    by (simp add: p_sys_size_def KERNEL_START_def)
  show u: "p_usr_size m = of_nat (length usr)"
    using get32_size_bytes [of m "0x10004" "of_nat (length usr)"] assms(5) small un assms(2)
    by (simp add: p_usr_size_def KERNEL_START_def)
  show "p_rdtr m = rdtr"
    using get32_size_bytes [of m "0x10008" rdtr] assms(3,6) small [of rdtr]
    by (simp add: p_rdtr_def KERNEL_START_def word_less_nat_alt)
  show "loaded_user m = usr"
    using assms(7) by (intro nth_equalityI) (simp_all add: loaded_user_def s u un KERNEL_START_def add.assoc)
qed

text \<open>Where the bytes of the image are when the kernel starts.\<close>

lemma image_loaded:
  assumes "message = announce \<or> message = announce_e" and "assembled boot" and "12 \<le> length sysb"
    and "length sysb + length usr \<le> 0x7FFF0" and "disk_holds (disk_image rdtr (drop 32 boot) sysb usr) d"
    and "bios_reads d B" and "a20_opens B" and "first_sector d m"
  obtains s where "bootsect message B (firmware m) = Some (s, protected_mode s)"
    and "\<And>i. i < length sysb + length usr \<Longrightarrow>
      bmem s (0x10000 + of_nat i) = disk_image rdtr (drop 32 boot) sysb usr ! (512 + i)"
    and "\<And>i. 435 \<le> i \<Longrightarrow> i < 512 \<Longrightarrow> i \<notin> {500, 501} \<Longrightarrow> bmem s (0x90000 + of_nat i) = org_435 ! (i - 435)"
proof -
  let ?img = "disk_image rdtr (drop 32 boot) sysb usr" and ?z = "unat (disk16 d 500)"
  note l = image_layout [OF assms(2,3), where rdtr = rdtr and usr = usr]
  have d: "d i = ?img ! i" if "i < 512 + length sysb + length usr" for i
    using assms(5) l(1) that by (simp add: disk_holds_def)
  have tail: "d i = org_435 ! (i - 435)" if "435 \<le> i" "i < 512" "i \<notin> {500, 501}" for i
    using d [of i] l(2) [of i] that by simp
  have z: "?z = (length sysb + length usr + 15) div 16"
    using image_size [OF assms(2,3) _ assms(5)] assms(4) by simp
  then have z8: "?z < 0x8000"
    using assms(4) less_mult_imp_div_less [of "length sysb + length usr + 15" "0x8000" 16] by simp
  obtain s where s: "bootsect message B (firmware m) = Some (s, protected_mode s)"
      "bmem s = disk_to_mem d 512 0x10000 (0x10000 * segments ?z) (move_sector m)"
    using bootsect_runs [OF assms(1,8) _ assms(6,7) z8] tail [of 497] org_435_nth(2) by (auto simp: upt_rec)
  have n: "0x10000 * segments ?z \<le> 0x80000"
    using z8 less_mult_imp_div_less [of ?z 8 "0x1000"] by (simp add: segments_def)
  have "?z < 0x1000 * segments ?z" by (simp add: segments_def dividend_less_times_div)
  moreover have "length sysb + length usr \<le> 16 * ?z" unfolding z by simp
  ultimately have n': "length sysb + length usr \<le> 0x10000 * segments ?z" by linarith
  show thesis
  proof (rule that [OF s(1)])
    show "bmem s (0x10000 + of_nat i) = ?img ! (512 + i)" if "i < length sysb + length usr" for i
      using loaded_bytes(1) [OF s(2) n assms(8), of i] d [of "512 + i"] n' that by simp
    show "bmem s (0x90000 + of_nat i) = org_435 ! (i - 435)" if "435 \<le> i" "i < 512" "i \<notin> {500, 501}" for i
      using loaded_bytes(2) [OF s(2) n assms(8), of i] tail [OF that] that(2) by simp
  qed
qed

lemma image_starts:
  assumes "message = announce \<or> message = announce_e" and "assembled boot" and "12 \<le> length sysb"
    and "length sysb + length usr \<le> 0x7FFF0" and "rdtr < 0x10000"
  shows "starts message (disk_image rdtr (drop 32 boot) sysb usr) rdtr sysb usr"
  unfolding starts_def
proof (intro allI impI)
  note l = image_layout [OF assms(2,3), where rdtr = rdtr and usr = usr]
  fix d B m
  assume h: "disk_holds (disk_image rdtr (drop 32 boot) sysb usr) d" "bios_reads d B" "a20_opens B" "first_sector d m"
  obtain s where s: "bootsect message B (firmware m) = Some (s, protected_mode s)"
      and mem: "\<And>i. i < length sysb + length usr \<Longrightarrow>
        bmem s (0x10000 + of_nat i) = disk_image rdtr (drop 32 boot) sysb usr ! (512 + i)"
      and sec: "\<And>i. 435 \<le> i \<Longrightarrow> i < 512 \<Longrightarrow> i \<notin> {500, 501} \<Longrightarrow> bmem s (0x90000 + of_nat i) = org_435 ! (i - 435)"
    by (rule image_loaded [OF assms(1-4) h]) (rule that)
  have gdt: "bmem s (GDT_START + of_nat i) = boot_gdt ! i" if "i < 56" for i
    using sec [of "435 + i"] org_435_nth(1) [of i] that by (simp add: GDT_START_def add.assoc [symmetric])
  have hdr: "p_sys_size (bmem s) = of_nat (length sysb)" "p_usr_size (bmem s) = of_nat (length usr)"
      "p_rdtr (bmem s) = rdtr" "loaded_user (bmem s) = usr"
    by (rule header_words [OF assms(3-5)];
        use assms(3) mem l(4-6,8) in \<open>simp add: add.assoc del: of_nat_add\<close>)+
  have krn: "bmem s (KERNEL_START + of_nat i) = sysb ! i" if "12 \<le> i" "i < length sysb" for i
    using mem [of i] l(7) that by (simp add: KERNEL_START_def)
  have "kernel_ready (protected_mode s) (bmem s) rdtr sysb usr"
    using entry_registers [OF sec] gdt hdr krn by (simp add: kernel_ready_def)
  with s show "\<exists>s e. bootsect message B (firmware m) = Some (s, e) \<and> kernel_ready e (bmem s) rdtr sysb usr" by blast
qed

section \<open>Segments\<close>

text \<open>The eight bytes of a descriptor in the order of the structure of \<^verbatim>\<open>types.h\<close>.\<close>

definition descriptor_of :: "Byte list \<Rightarrow> nat \<Rightarrow> Descriptor" where
  "descriptor_of b i =
     (let w = (\<lambda>k. ucast (b ! (8 * i + k)) OR push_bit 8 (ucast (b ! (8 * i + k + 1))) :: WORD) in
      \<lparr>d_limit = w 0, lowBase = w 2, midBase = b ! (8 * i + 4), flags1 = b ! (8 * i + 5),
       flags2 = b ! (8 * i + 6), highBase = b ! (8 * i + 7)\<rparr>)"

definition boot_descriptors :: "nat \<Rightarrow> Descriptor" where
  "boot_descriptors = descriptor_of boot_gdt"

definition seg_base :: "Descriptor \<Rightarrow> DWord" where
  "seg_base d = push_bit 24 (ucast (highBase d)) OR push_bit 16 (ucast (midBase d)) OR ucast (lowBase d)"

text \<open>The last byte of the segment: 20 bits of limit, in pages if the granularity bit is set.\<close>

definition seg_last :: "Descriptor \<Rightarrow> nat" where
  "seg_last d =
     (let l = unat (d_limit d) + 2 ^ 16 * unat (flags2 d AND 0x0f)
      in if bit (flags2 d) 7 then l * 4096 + 4095 else l)"

datatype seg_kind = Code | Data | Available_TSS | Other_kind

definition seg_kind_of :: "Descriptor \<Rightarrow> seg_kind" where
  "seg_kind_of d =
     (let t = flags1 d AND 0x1f in
      if t = 0x1a then Code else if t = 0x12 then Data else if t = 0x09 then Available_TSS else Other_kind)"

record segment =
  kind :: seg_kind
  dpl :: nat
  base :: DWord
  last_byte :: nat

text \<open>What loading a selector with the processor at privilege level \<open>cpl\<close> gives: the descriptor must be
  inside the table and present, and for code and data its level must admit the selector's.\<close>

definition load_selector :: "hw \<Rightarrow> WORD \<Rightarrow> segment option" where
  "load_selector h sel =
     (let i = unat sel div 8; d = gdt h i; p = unat (take_bit 2 (drop_bit 5 (flags1 d))) in
      if sel AND 4 = 0 \<and> 8 * i + 7 \<le> unat (r_limit (reg_gdtr h)) \<and> bit (flags1 d) 7 \<and> unat (take_bit 2 sel) \<le> p
      then Some \<lparr>kind = seg_kind_of d, dpl = p, base = seg_base d, last_byte = seg_last d\<rparr>
      else None)"

section \<open>Interrupt controllers\<close>

text \<open>An 8259: initialisation words arrive on the data port after a command byte with bit 4 set; then the
  data port is the mask. \<open>expects\<close> counts the words to come.\<close>

record pic =
  vector_base :: Byte
  irq_mask :: Byte
  expects :: nat

definition pic_write :: "bool \<Rightarrow> Byte \<Rightarrow> pic \<Rightarrow> pic" where
  "pic_write command v p =
     (if command then (if bit v 4 then p\<lparr>irq_mask := 0, expects := 3\<rparr> else p)
      else if expects p = 3 then p\<lparr>vector_base := v AND 0xf8, expects := 2\<rparr>
      else if expects p = 0 then p\<lparr>irq_mask := v\<rparr>
      else p\<lparr>expects := expects p - 1\<rparr>)"

definition pic_port :: "WORD \<Rightarrow> WORD \<times> Byte \<Rightarrow> pic \<Rightarrow> pic" where
  "pic_port io w p = (if fst w = io then pic_write True (snd w) p else if fst w = io + 1 then pic_write False (snd w) p else p)"

definition pic_after :: "WORD \<Rightarrow> (WORD \<times> Byte) list \<Rightarrow> pic \<Rightarrow> pic" where
  "pic_after io ws p = fold (pic_port io) ws p"

text \<open>The handler that line \<open>n\<close> of the first controller reaches on the machine \<open>h\<close>.\<close>

definition irq_entry :: "pic \<Rightarrow> hw \<Rightarrow> nat \<Rightarrow> DWord option" where
  "irq_entry p h n =
     (if expects p = 0 \<and> \<not> bit (irq_mask p) n \<and> bit (reg_eflags h) 9
      then soft_int h 0 (unat (vector_base p) + n) else None)"

lemma pic_booted:
  "pic_after 0x20 boot_outs p = \<lparr>vector_base = 0x20, irq_mask = 0xFB, expects = 0\<rparr>"
  "pic_after 0xA0 boot_outs p = \<lparr>vector_base = 0x28, irq_mask = 0xFF, expects = 0\<rparr>"
  "pic_after 0x20 [(0x21, v)] \<lparr>vector_base = w, irq_mask = k, expects = 0\<rparr> = \<lparr>vector_base = w, irq_mask = v, expects = 0\<rparr>"
  by (simp_all add: pic_after_def boot_outs_def pic_port_def pic_write_def)

text \<open>The table and the registers of the interrupt mechanism survive the rest of \<open>main\<close>.\<close>

lemma hw_main_interrupts:
  "\<exists>g. soft_int (hw_main C x r h) = soft_int (setIdt C g)"
  "\<exists>g. soft_int (hw_main_e C x r h) = soft_int (setIdt_e C g)"
  "\<exists>g. soft_int (hw_main_z C x r h) = soft_int (setIdt_z C g)"
  unfolding hw_main_def hw_main_e_def hw_main_z_def Let_def
  by (rule exI; auto simp: fun_eq_iff soft_int_def return_gate_def return_gate_z_def enable_int_def delay_def setTSS_def
      set_task_reg_def writeMSR_def Let_def)+

lemma hw_main_flags:
  "h' \<in> {hw_main C x r h, hw_main_e C x r h, hw_main_z C x r h} \<Longrightarrow> bit (reg_eflags h') 9 \<and> port_21 h' = 0xfc"
  by (auto simp: hw_main_def hw_main_e_def hw_main_z_def Let_def return_gate_def return_gate_z_def enable_int_def delay_def
      INITIAL_EFLAGS_def bit_or_iff)

lemma hw_main_registers:
  assumes "\<And>h. set_handlers C h = h\<lparr>idt := t h\<rparr>"
    and "(h', ip, call) \<in> {(hw_main C x r h, 0x100000, ''system_call_handler''),
           (hw_main_e C x r h, 0x114000, ''syscall_handler_sysenter''), (hw_main_z C x r h, 0x414000, ''syscall_handler_sysenter'')}"
  shows "reg_cs h' = USER_CS \<and> reg_eip h' = ip \<and> reg_ss h' = USER_DS \<and> reg_ds h' = USER_DS \<and>
     t_ss0 (tss h') = KERNEL_DS \<and> t_esp0 (tss h') = INITIAL_ESP C \<and>
     msr h' 0x174 = (0, ucast KERNEL_CS) \<and> msr h' 0x175 = (0, INITIAL_ESP C) \<and> msr h' 0x176 = (0, at_handler C call)"
  using assms(2)
  by (auto simp: hw_main_def hw_main_e_def hw_main_z_def Let_def return_gate_def return_gate_z_def enable_int_def delay_def
      setTSS_def set_task_reg_def writeMSR_def setIdt_def setIdt_e_def setIdt_z_def setSysenter_def setMSR_def
      set_idt_reg_def setInterruptHandler_def setTrapHandler_def assms(1))

section \<open>Properties\<close>

text \<open>C16. Building an image and booting from it are inverse to each other, in all three versions: the builder
  succeeds, and every machine whose diskette holds the image, whose disk service reads what it is asked
  for when the request stays in one track and one 64 KB segment, and whose A20 line opens at some
  time, enters the kernel at \<open>0x10010\<close> with the descriptor table at \<open>GDT_START\<close>, the kernel
  with its sizes at \<open>KERNEL_START\<close> and, where \<open>main\<close> looks for it, the user program byte for byte. The
  sector is the assembled one, and the system is below 512 KB.\<close>

theorem built_image_starts:
  assumes "build_input H b k u boot sysb usr" and "length uninit = 1024" and "assembled boot"
    and "length sysb + length usr \<le> 0x7FFF0"
  shows "\<exists>img img' reps reps'. build H [n, b, k, u] uninit = Inr (img, reps) \<and> starts announce img 0x7E1A sysb usr \<and>
    build_e H [n, b, k, u] uninit = Inr (img', reps) \<and> build_z H [n, b, k, u] uninit = Inr (img', reps') \<and>
    starts announce_e img' 0x7E6A sysb usr"
proof -
  have k: "12 \<le> length sysb" using assms(1) by (simp add: build_input_def)
  have "starts announce (disk_image 0x7E1A (drop 32 boot) sysb usr) 0x7E1A sysb usr"
    "starts announce_e (disk_image 0x7E6A (drop 32 boot) sysb usr) 0x7E6A sysb usr"
    using k by (auto intro!: image_starts assms(3,4))
  with build_image [OF assms(1,2)] show ?thesis by blast
qed

definition demo_boot :: "Byte list" where
  "demo_boot = minix_hdr @ replicate 24 0 @ replicate 435 0x90 @ org_435"

definition demo_files :: "Byte list \<Rightarrow> host" where
  "demo_files krn = \<lparr>contents = (\<lambda>n. if n = ''bootsect'' then Some demo_boot else if n = ''system'' then Some krn
        else if n = ''user'' then Some (replicate 30 2) else None), seekable = True, space = 0x200000\<rparr>"

definition demo_disk :: "Byte list \<Rightarrow> disk" where
  "demo_disk img i = (if i < length img then img ! i else 0)"

definition demo_bios :: "disk \<Rightarrow> bios" where
  "demo_bios d = \<lparr>int13 = (\<lambda>q. disk_to_mem d (512 * lba q) (unat (rm_addr (rq_es q) (rq_bx q))) (512 * unat (rq_al q))),
     port_in = (\<lambda>_ _. 0), a20 = (\<lambda>t. 3 \<le> t)\<rparr>"

definition demo_ram :: "disk \<Rightarrow> memory" where
  "demo_ram d a = d (unat a - 0x7C00)"

lemma demo_machine:
  "disk_holds img (demo_disk img)" "bios_reads d (demo_bios d)" "a20_opens (demo_bios d)" "first_sector d (demo_ram d)"
proof -
  show "first_sector d (demo_ram d)"
    using unat_offset [of "0x7C00"] by (simp add: first_sector_def demo_ram_def)
qed (auto simp: disk_holds_def demo_disk_def bios_reads_def demo_bios_def a20_opens_def)

lemma demo_boot_ok: "assembled demo_boot"
proof -
  have "length demo_boot = 544" "take 8 demo_boot = minix_hdr" "demo_boot ! 542 = 0x55" "demo_boot ! 543 = 0xaa"
    by (simp_all add: demo_boot_def minix_hdr_def length_org_435 nth_append org_435_def dot_word_def)
  moreover have "\<not> lb i demo_boot" if "i \<in> {3, 4, 5, 7}" for i
    using that by (auto simp: lb_def demo_boot_def minix_hdr_def nth_append)
  moreover have "drop 467 demo_boot = org_435" by (simp add: demo_boot_def minix_hdr_def)
  ultimately show ?thesis by (simp add: assembled_def boot_file_ok_def)
qed

lemma demo_files_input:
  "12 \<le> length krn \<Longrightarrow> length krn \<le> 0x100000 \<Longrightarrow>
   build_input (demo_files krn) ''bootsect'' ''system'' ''user'' demo_boot krn (replicate 30 2)"
  using demo_boot_ok by (simp add: build_input_def demo_files_def assembled_def)

theorem built_image_starts_witness:
  "\<exists>img reps s e. build (demo_files (replicate 2000 1)) [''build'', ''bootsect'', ''system'', ''user''] (replicate 1024 0) = Inr (img, reps) \<and>
    bootsect announce (demo_bios (demo_disk img)) (firmware (demo_ram (demo_disk img))) = Some (s, e) \<and>
    p_sys_size (bmem s) = 2000 \<and> loaded_user (bmem s) = replicate 30 2 \<and> e_eip e = 0x10010"
proof -
  have i: "build_input (demo_files (replicate 2000 1)) ''bootsect'' ''system'' ''user'' demo_boot (replicate 2000 1) (replicate 30 2)"
    by (rule demo_files_input) simp_all
  obtain img reps where "build (demo_files (replicate 2000 1)) [''build'', ''bootsect'', ''system'', ''user''] (replicate 1024 0) = Inr (img, reps)"
      "starts announce img 0x7E1A (replicate 2000 1) (replicate 30 2)"
    using built_image_starts [OF i _ demo_boot_ok, of "replicate 1024 0" "''build''"] by auto
  moreover from this(2) obtain s e where
      "bootsect announce (demo_bios (demo_disk img)) (firmware (demo_ram (demo_disk img))) = Some (s, e)"
      "kernel_ready e (bmem s) 0x7E1A (replicate 2000 1) (replicate 30 2)"
    using demo_machine unfolding starts_def by blast
  ultimately show ?thesis by (auto simp: kernel_ready_def)
qed



text \<open>C37. The selectors of \<^verbatim>\<open>segment.h\<close> are well typed in the table the boot sector carries: after \<open>setGdt\<close> the
  kernel and user code and data selectors load present segments of their kind and privilege level that
  span the whole address space, and the task selector loads an available task state segment whose
  base is the kernel's \<open>tss\<close>.\<close>

theorem segments_typed:
  "let h' = setGdt C (h\<lparr>gdt := boot_descriptors\<rparr>) in
     load_selector h' KERNEL_CS = Some \<lparr>kind = Code, dpl = 0, base = 0, last_byte = 2 ^ 32 - 1\<rparr> \<and>
     load_selector h' KERNEL_DS = Some \<lparr>kind = Data, dpl = 0, base = 0, last_byte = 2 ^ 32 - 1\<rparr> \<and>
     load_selector h' USER_CS = Some \<lparr>kind = Code, dpl = 3, base = 0, last_byte = 2 ^ 32 - 1\<rparr> \<and>
     load_selector h' USER_DS = Some \<lparr>kind = Data, dpl = 3, base = 0, last_byte = 2 ^ 32 - 1\<rparr> \<and>
     load_selector h' KERNEL_TSS = Some \<lparr>kind = Available_TSS, dpl = 0, base = at_tss C, last_byte = 104\<rparr>"
proof -
  have d: "boot_descriptors 2 = \<lparr>d_limit = 0xFFFF, lowBase = 0, midBase = 0, flags1 = 0x9a, flags2 = 0xcf, highBase = 0\<rparr>"
    "boot_descriptors 3 = \<lparr>d_limit = 0xFFFF, lowBase = 0, midBase = 0, flags1 = 0x92, flags2 = 0xcf, highBase = 0\<rparr>"
    "boot_descriptors 4 = \<lparr>d_limit = 0xFFFF, lowBase = 0, midBase = 0, flags1 = 0xfa, flags2 = 0xcf, highBase = 0\<rparr>"
    "boot_descriptors 5 = \<lparr>d_limit = 0xFFFF, lowBase = 0, midBase = 0, flags1 = 0xf2, flags2 = 0xcf, highBase = 0\<rparr>"
    "boot_descriptors 6 = \<lparr>d_limit = 104, lowBase = 0, midBase = 0, flags1 = 0x89, flags2 = 0, highBase = 0\<rparr>"
    by (simp_all add: boot_descriptors_def descriptor_of_def boot_gdt_def dot_word_def Let_def)
  have i: "unat (drop_bit 3 KERNEL_TSS) = 6" by (simp add: KERNEL_TSS_def)
  show ?thesis
    by (simp add: Let_def setGdt_def i set_gdt_reg_def load_selector_def d seg_kind_of_def seg_base_def seg_last_def
        address_from_base_parts KERNEL_CS_def KERNEL_DS_def USER_CS_def USER_DS_def KERNEL_TSS_def)
qed



end
