(* ===== verification/Spec2Isabelle.thy ===== *)
theory Spec2Isabelle
  imports Exam_Kernel User_E1 User_Root User_Wrappers Boot_Image
begin

text \<open>
  ZeOS is a small teaching operating system for the 80386. The repository has five versions of it, each a
  directory with the boot sector, the kernel in C and assembly, a user program, a tiny C library and the host
  program that builds the boot image:

  \<^item> GAME (\<^verbatim>\<open>src/so2_old/GAME/zeos\<close>): round-robin multitasking with fork, exit, yield, statistics and a
    keyboard buffer;
  \<^item> E1_E2 (\<^verbatim>\<open>src/so2_old/E1_E2/zeos\<close>): the same scheduler written again, with block and unblock, a tree
    of processes and a page fault routine;
  \<^item> the exam kernels Ex1 and Ex2 (\<^verbatim>\<open>src/so2_old/EXAM\<close>): GAME with other interrupt routines;
  \<^item> the root kernel (\<^verbatim>\<open>src/zeos\<close>): a kernel in progress, with page tables and task structures in
    allocated frames.

  \<^bold>\<open>Parts and theories.\<close> What the versions share word for word is modelled once, from the files of GAME.

  \<^item> \<open>Zeos_Prelude\<close>: C integers (\<open>c_int\<close> writes out the wrap-around of a 32-bit \<open>int\<close>), strings.
  \<^item> \<open>Zeos_List\<close>: \<^verbatim>\<open>list.c\<close>, \<^verbatim>\<open>list.h\<close>. Nodes with two links in a heap; following NULL is \<open>None\<close>. The locale
    \<open>intrusive_queue\<close> is the interface the schedulers use.
  \<^item> \<open>Zeos_Types\<close>, \<open>Zeos_Mm\<close>: \<^verbatim>\<open>types.h\<close>, \<^verbatim>\<open>mm_address.h\<close>, \<^verbatim>\<open>mm.c\<close>: page table entries as words with bit fields,
    the frame table, page directories and tables. The locale \<open>frame_allocator\<close> holds for both allocators.
  \<^item> \<open>Zeos_Screen\<close>: \<^verbatim>\<open>io.c\<close>, \<^verbatim>\<open>devices.c\<close>. \<open>Zeos_Mem\<close>: \<^verbatim>\<open>utils.c\<close>. \<open>Zeos_Kbd\<close>: the key tables of \<^verbatim>\<open>interrupt.c\<close>.
    \<open>Zeos_Libc\<close>: \<^verbatim>\<open>libc.c\<close>. \<open>Zeos_Hw\<close>: \<^verbatim>\<open>hardware.c\<close>, the descriptor tables of \<^verbatim>\<open>mm.c\<close> and \<^verbatim>\<open>interrupt.c\<close>,
    and the hardware calls of the three \<open>main\<close> functions (\<open>hw_main\<close>, \<open>hw_main_e\<close>, \<open>hw_main_z\<close>).
  \<^item> \<open>Zeos_Build\<close>: \<^verbatim>\<open>build.c\<close>, the three versions. \<open>Boot_Sector\<close>: \<^verbatim>\<open>bootsect.S\<close>, with the services of the firmware as
    the argument \<open>bios\<close>. \<open>Boot_Facts\<close>: the loader reads the diskette in order, within tracks and segments, and
    its device loops end. \<open>Boot_Image\<close>: builder, boot sector and \<open>main\<close> together.
  \<^item> \<open>Zeos_Machine\<close>: what C and the processor share: the kernel stacks (one array of 1024 words per task,
    whose words are numbers or code addresses), \<open>esp\<close>, \<open>ebp\<close> and the saved registers, \<open>cr3\<close> and the
    frames behind it, the links of the queues, the time stamp counter as a stream of inputs, the screen.
    \<open>Zeos_Addr\<close> and \<open>Zeos_User\<close>: memory through the page tables, and copies from and to user memory.
  \<^item> \<open>Game_Sched\<close> (\<^verbatim>\<open>sched.c\<close>, \<^verbatim>\<open>p_stats.c\<close>, \<^verbatim>\<open>kernel-utils.S\<close>), \<open>Game_Sys\<close> (\<^verbatim>\<open>sys.c\<close>), \<open>Game_Handlers\<close>
    (\<^verbatim>\<open>interrupt.c\<close>, \<^verbatim>\<open>entry.S\<close>, \<^verbatim>\<open>sys_call_table.S\<close>, \<^verbatim>\<open>system.c\<close>): the kernel GAME over the record \<open>game\<close>.
    \<open>Game_Kbd\<close>, \<open>Game_Inv\<close>, \<open>Game_Clock\<close>, \<open>Game_Mem\<close>, \<open>Game_Fork\<close>, \<open>Game_Reach\<close>, \<open>Game_Steps\<close>, \<open>Game_User\<close>,
    \<open>Game_Boot\<close> and \<open>Game_Facts\<close> hold its lemmas: the keyboard buffer as a bounded queue, the scheduler
    invariant, the clock, page tables and frames, fork, the kernel invariant under every entry, the step
    relation, user buffers, boot.
  \<^item> \<open>Exam_Kernel\<close>: Ex2, over the scheduler, memory manager and system calls of GAME.
  \<^item> \<open>E1_Sched\<close>, \<open>E1_Sys\<close> (definitions), \<open>E1_Queues\<close>, \<open>E1_Fork\<close>, \<open>E1_Calls\<close> (lemmas): E1_E2 over \<open>e1\<close>.
  \<^item> \<open>Root_Kernel\<close>, \<open>Root_Facts\<close>: the root kernel over \<open>zeos\<close>.
  \<^item> \<open>User_Programs\<close>: the user programs of E1_E2 and of the root kernel with the system call wrappers.
    \<open>User_Spec\<close>: the contract \<open>console_kernel\<close> and what the programs print on every kernel that keeps it.
    \<open>User_Root\<close> and \<open>User_E1\<close>: the two kernels keep it. \<open>User_Wrappers\<close>: the wrappers instruction by
    instruction, and that they keep the calling convention.

  A definition keeps the name of the function it models; \<open>_e\<close> marks E1_E2, \<open>_z\<close> the root kernel, \<open>_x\<close> Ex2.

  \<^bold>\<open>Conventions.\<close> A kernel routine is a function on the state. Its result is an option: \<open>None\<close> is a NULL
  dereference, a jump to an unknown address or a page fault in the kernel, after which nothing is known.
  Return codes are integers, errors the negative constants of \<^verbatim>\<open>errno.h\<close>. A slot is the number of a task
  union. A task switch exchanges \<open>esp\<close> and pops what the new stack holds; \<open>frame_words\<close> is the number of
  words the compiler's frames take between an entry point and \<open>task_switch\<close>, a parameter bounded by
  \<open>stack_room\<close> so that a stack of 1024 words is enough. \<open>get_ticks\<close> consumes one value of the time stamp
  stream. The library routines \<open>zeos_show_clock\<close>, \<open>set_handlers\<close>, \<open>show_PT_range\<close> and
  \<open>monoprocess_init_addr_space\<close> come without sources and are parameters.

  \<^bold>\<open>What is shown.\<close> For GAME: the kernel invariant in every state from power-on on (C1), boot (C2), every
  interrupt and every call with safe arguments comes back (C3), the clock implements an abstract
  round-robin scheduler (C4) and a ready task runs after at most 10 ticks for each task before it (C5), fork, exit, isolation,
  write, statistics and keyboard events (C6 to C12). For Ex2 the invariant and the clock (C13). For the user
  programs on their kernels the exact output (C14, C15). From power-on to user mode: what the builder writes is
  what the boot sector loads (C16), and the hardware calls of \<open>main\<close> leave a processor in user mode whose
  interrupts and fast calls reach the handlers (C17). For E1_E2 the scheduler, fork, exit and write with their error
  paths, and where the code does not do what it means to (C18 to C26). For the root kernel the confinement
  of the first process, write, dispatch and the order of its boot (C27 to C30). For the shared parts:
  lists as sequences, frames, copies, division, access checks, console, segments, oversized images, \<open>itoa\<close>
  and the system call wrappers (C31 to C40).

  \<^bold>\<open>Termination and fuel.\<close> Loops are recursive functions with termination proofs. The macros
  \<open>list_for_each\<close> and \<open>list_for_each_safe\<close>, the loader's loop and the wait for the A20 line are partial functions
  whose value is \<open>None\<close> when the loop does not end; that the loader and the wait end is part of C16.
  The endless loop of the second process of the E1_E2 program is observed after a given number of rounds.

  \<^bold>\<open>Not modelled.\<close> The exam kernel Ex1 does not build (its \<^verbatim>\<open>sched.h\<close> calls routines that do not exist and its \<^verbatim>\<open>sys.c\<close>
  lacks semicolons); what it shares with GAME and Ex2 is modelled there. Of the boot sector the offsets that the assembler
  chooses (before \<^verbatim>\<open>.org 435\<close>) are not represented. The contents of the user registers that \<open>SAVE_ALL\<close> pushes
  are opaque. Makefiles, linker scripts and the
  prebuilt archives are not programs of this repository. The user programs of GAME and of the exams are empty loops.
\<close>

section \<open>The kernel as a whole\<close>

text \<open>C1. Every state the kernel of GAME can be in between two entries, from power-on through any sequence
  of clock ticks, key presses and returning system calls, satisfies the kernel invariant: the queues and
  the running task share the slots, every waiting task can be resumed, the page tables of the
  processes map their own frames, identifiers are unique, the quantum and the keyboard buffer are in
  range. Two calls are left out: \<open>yield\<close> while no task is ready, which resumes a stale context, and
  \<open>fork\<close> after \<open>global_PID\<close> has reached the largest integer.\<close>

theorem reachable_invariant:
  assumes "cfg_ok C" and "reachable C s"
  shows "kinv C s"
  by (rule reachable_kinv [OF assms]) (rule kinvI)

theorem reachable_invariant_witness: "kinv game_cfg two_procs"
  by (rule reachable_invariant [OF game_cfg_ok two_procs_reachable])





section \<open>Scheduling\<close>

text \<open>C4. The clock interrupt implements the abstract round-robin scheduler: it counts the quantum down
  and, when it expires with a task waiting, moves the running task to the tail of the ready queue and
  runs its head with a fresh quantum.\<close>

theorem clock_refines_round_robin:
  assumes "kinv_at C fs rs idle F K s" and "cfg_ok C"
  shows "\<exists>s' rs'. clock_handler C s = Some s' \<and> kinv_at C fs rs' idle F K s' \<and>
    rr_abs s' rs' = rr_tick (rr_abs s rs)"
  by (rule kinv_clock [OF assms]) blast

theorem clock_refines_round_robin_witness:
  "\<exists>F K s' rs'. kinv_at game_cfg [3..<NR_TASKS] [2] 0 F K two_procs \<and>
    clock_handler game_cfg two_procs = Some s' \<and> kinv_at game_cfg [3..<NR_TASKS] rs' 0 F K s' \<and>
    rr_abs s' rs' = rr_tick (rr_abs two_procs [2])"
  by (rule two_procs_kinv) (use clock_refines_round_robin [OF _ game_cfg_ok] in blast)

text \<open>C5. No ready task starves: a task with k tasks before it in the ready queue is running after at
  most 10 (k + 1) clock ticks.\<close>

theorem ready_task_runs:
  assumes "kinv_at C fs (xs @ t # ys) idle F K s" and "cfg_ok C"
  shows "\<exists>n s'. n \<le> 10 * (length xs + 1) \<and> clock_ticks C n s = Some s' \<and> current s' = t \<and>
    kinv_at C fs (ys @ current s # xs) idle F K s'"
proof -
  let ?n = "nat (remaining_quantum s) + 10 * length xs"
  have q: "0 < remaining_quantum s" "remaining_quantum s \<le> 10"
    using assms(1) by (simp_all add: kinv_at_def quantum_ok_def DEFAULT_QUANTUM_def)
  obtain s' rs' where s': "clock_ticks C ?n s = Some s'" "kinv_at C fs rs' idle F K s'"
      "rr_abs s' rs' = (rr_tick ^^ ?n) (rr_abs s (xs @ t # ys))"
    using kinv_ticks [OF assms] by blast
  have "rr_abs s' rs' = (t, ys @ current s # xs, DEFAULT_QUANTUM)"
    using s'(3) rr_tick_turn [OF q(1)] by (simp add: rr_abs_def)
  with s' q show ?thesis
    by (intro exI [of _ ?n] exI [of _ s']) (auto simp: rr_abs_def)
qed

theorem ready_task_runs_witness:
  "\<exists>n s'. n \<le> 10 * (length ([] :: nat list) + 1) \<and> clock_ticks game_cfg n two_procs = Some s' \<and> current s' = 2 \<and>
    (\<exists>F K. kinv_at game_cfg [3..<NR_TASKS] ([] @ current two_procs # []) 0 F K s')"
proof (rule two_procs_kinv)
  fix F K
  assume "kinv_at game_cfg [3..<NR_TASKS] [2] 0 F K two_procs"
  then have k: "kinv_at game_cfg [3..<NR_TASKS] ([] @ 2 # []) 0 F K two_procs" by simp
  show ?thesis using ready_task_runs [OF k game_cfg_ok] by blast
qed

section \<open>Processes\<close>

text \<open>C6. Fork with a free slot succeeds, never reports a lack of memory, and clones: the parent gets the
  new process identifier, the child is appended to the ready queue with a stack that makes it return
  through \<open>ret_from_fork\<close> to the system call handler, it sees exactly the memory the parent sees, and
  no existing process sees its memory change.\<close>

theorem fork_clones:
  assumes "kinv_at C (c # fs) rs idle F K s" and "cfg_ok C" and "current s \<noteq> idle"
    and "global_PID s < 2 ^ 31 - 1"
  shows "\<exists>s' F'. system_call_handler C 2 args s = Some s' \<and> kinv_at C fs (rs @ [c]) idle F' K s' \<and>
    current s' = current s \<and> eax s' = global_PID s + 1 \<and> PID (tasks s' c) = global_PID s + 1 \<and>
    register_esp (tasks s' c) = Some (c, 1005) \<and> stacks s' c 1006 = CodeAddr ''ret_from_fork'' \<and>
    stacks s' c 1007 = CodeAddr ''system_call_handler'' \<and>
    (\<forall>x. user_addr x \<longrightarrow> sees C c s' x = sees C (current s) s x) \<and>
    (\<forall>t\<in>users (c # fs) idle. \<forall>x. user_addr x \<longrightarrow> sees C t s' x = sees C t s x)"
  by (rule fork_spaces [OF assms(1,2) refl assms(3,4), of args]) blast

theorem fork_clones_witness:
  "\<exists>s' F' K. system_call_handler game_cfg 2 (0, 0, 0) booted = Some s' \<and>
    kinv_at game_cfg [3..<NR_TASKS] ([] @ [2]) 0 F' K s' \<and>
    current s' = current booted \<and> eax s' = global_PID booted + 1 \<and> PID (tasks s' 2) = global_PID booted + 1 \<and>
    (\<forall>x. user_addr x \<longrightarrow> sees game_cfg 2 s' x = sees game_cfg (current booted) booted x)"
proof (rule booted_kinv)
  fix F K
  assume k: "kinv_at game_cfg [2..<NR_TASKS] [] 0 F K booted" "current booted = 1" "global_PID booted = 1000"
  have l: "[2..<NR_TASKS] = 2 # [3..<NR_TASKS]" by (simp add: NR_TASKS_def upt_rec)
  have c: "current booted \<noteq> 0" "global_PID booted < 2 ^ 31 - 1" using k by simp_all
  show ?thesis using fork_clones [OF k(1) [unfolded l] game_cfg_ok c, of "(0, 0, 0)"] by blast
qed


text \<open>C10. Fork without a free slot returns \<open>-ENOMEM\<close>: the caller goes on running, the queues, the memory
  every process sees and the process identifiers are unchanged.\<close>

theorem fork_no_slot:
  assumes "kinv_at C [] rs idle F K s"
  shows "\<exists>s'. system_call_handler C 2 args s = Some s' \<and> eax s' = - ENOMEM \<and> kinv_at C [] rs idle F K s' \<and>
    current s' = current s \<and> global_PID s' = global_PID s \<and> tasks s' = tasks s \<and>
    (\<forall>t x. sees C t s' x = sees C t s x)"
proof -
  let ?s = "drop_words 18 ((in_fork (current s) s)\<lparr>ebp := ebp s, eax := - ENOMEM\<rparr>)"
  have f: "eax ?s = - ENOMEM" "current ?s = current s" "global_PID ?s = global_PID s" "tasks ?s = tasks s"
    by (simp_all add: drop_words_def in_fork_def current_def)
  have "sees C t ?s = sees C t s" for t
    unfolding sees_def by (rule lin_cong) (simp_all add: set_cr3_def drop_words_def in_fork_def)
  with f kinv_fork_full(1) [OF assms, of args] kinv_fork_full(2) [OF assms] show ?thesis by (intro exI [of _ ?s]) (simp add: call_2)
qed

theorem fork_no_slot_witness:
  "\<exists>rs F K s s'. kinv_at game_cfg [] rs 0 F K s \<and> length rs = 8 \<and>
    system_call_handler game_cfg 2 (0, 0, 0) s = Some s' \<and> eax s' = - ENOMEM"
proof (rule booted_kinv)
  fix F K
  assume k: "kinv_at game_cfg [2..<NR_TASKS] [] 0 F K booted" "current booted = 1" "global_PID booted = 1000"
  then have c: "current booted \<noteq> 0" "global_PID booted + int (length [2..<NR_TASKS]) < 2 ^ 31"
    by (simp_all add: NR_TASKS_def)
  obtain rs F' s where s: "kinv_at game_cfg [] rs 0 F' K s" "length rs = length [2..<NR_TASKS] + length ([] :: nat list)"
    using fork_all_slots [OF k(1) game_cfg_ok c] by blast
  have "length rs = 8" using s(2) by (simp add: NR_TASKS_def)
  with fork_no_slot [OF s(1), of "(0, 0, 0)"] s(1) show ?thesis by blast
qed

text \<open>C7. Exit hands the processor over and gives everything back: the next ready task runs, or the idle
  task if there is none, the slot is free again, the frames of the data pages of the process are
  available again and nothing else becomes available, and its identifier is gone.\<close>

theorem exit_releases:
  assumes "kinv_at C fs rs idle F K s" and "cfg_ok C" and "current s \<noteq> idle"
  shows "\<exists>s'. system_call_handler C 1 args s = Some s' \<and>
    kinv_at C (fs @ [current s]) (tl rs) idle F K s' \<and> current s' = (if rs = [] then idle else hd rs) \<and>
    avail s' = avail s \<union> F (current s) ` {..<NUM_PAG_DATA} \<and> PID (tasks s' (current s)) = -1"
proof (rule kinv_exit [OF assms(1,2) refl assms(3), of args])
  fix s'
  assume "do_syscall C Exit args (sysenter s) = Some s'" "kinv_at C (fs @ [current s]) (tl rs) idle F K s'"
    "current s' = next_task rs idle" "avail s' = avail s \<union> F (current s) ` {..<NUM_PAG_DATA}"
    "PID (tasks s' (current s)) = -1"
  then show ?thesis by (intro exI [of _ s']) (auto simp: call_1 next_task_def split: list.splits)
qed

theorem exit_releases_witness:
  "\<exists>F K s'. kinv_at game_cfg [3..<NR_TASKS] [2] 0 F K two_procs \<and>
    system_call_handler game_cfg 1 (0, 0, 0) two_procs = Some s' \<and> current s' = 2 \<and> PID (tasks s' 1) = -1"
proof (rule two_procs_kinv)
  fix F K
  assume k: "kinv_at game_cfg [3..<NR_TASKS] [2] 0 F K two_procs" "current two_procs = 1"
  then have "current two_procs \<noteq> 0" by simp
  from exit_releases [OF k(1) game_cfg_ok this, of "(0, 0, 0)"] k show ?thesis by auto
qed



section \<open>System calls\<close>






section \<open>The keyboard\<close>

text \<open>C12. Key events come out of the keyboard buffer in the order of the interrupts: after any sequence of
  scan codes on an empty buffer the consumer gets the first 15 events in order and the others were
  dropped, whatever the positions of head and tail.\<close>

theorem keyboard_fifo:
  assumes "kb_ok (k_buffer s)" and "kb_head (k_buffer s) = kb_tail (k_buffer s)"
  shows "fst (get_all kb_get n (k_buffer (fold keyboard_routine cs s))) = take n (take 15 (map scan_event cs))"
proof -
  have "kb_abs (k_buffer s) = []" using kb_empty_iff [OF assms(1)] assms(2) by simp
  from kb.produce_consume [OF assms(1) this] show ?thesis by (simp add: fold_keyboard_routine)
qed

theorem keyboard_fifo_witness:
  "fst (get_all kb_get 2 (k_buffer (fold keyboard_routine [0x1E, 0x9E, 0x10] blank_game))) =
    [\<lparr>pressed = 1, scancode = 0x1E\<rparr>, \<lparr>pressed = 0, scancode = 0x1E\<rparr>]"
proof -
  have "kb_ok (k_buffer blank_game)" "kb_head (k_buffer blank_game) = kb_tail (k_buffer blank_game)"
    by (simp_all add: kb_ok_def blank_game_def)
  from keyboard_fifo [OF this, of 2 "[0x1E, 0x9E, 0x10]"] show ?thesis
    by (simp add: scan_event_def)
qed

end
